(* ===== verification/Prelude.thy ===== *)
theory Prelude
  imports Complex_Main "HOL-Library.Multiset"
begin

text \<open>
  Shared vocabulary of the development: Python exceptions as values, the sequencing of
  fallible state transformers, the integer and list operations of Python that the modelled
  code uses (ceiling division, slices, dictionary insertion), and the generic lemmas on
  lists, counts and maps that the component theories share.

  A Python function that may raise is a HOL function into \<open>'a result\<close>: \<open>Inl e\<close> is
  the raised exception, \<open>Inr x\<close> the returned value. A method that mutates objects takes
  the state it mutates and returns the new one together with its return value.
\<close>

section \<open>Exceptions as values\<close>

datatype py_error =
    ValueError | AssertionError | KeyError | IndexError | TypeError | RuntimeError
  | AttributeError | ZeroDivisionError | NotImplementedError | NoFreeBlocksError | PyException

type_synonym 'a result = "py_error + 'a"

named_theorems result_simps \<open>rewriting of sequenced results\<close>

definition andthen :: "'a result \<Rightarrow> ('a \<Rightarrow> 'b result) \<Rightarrow> 'b result" where
  "andthen r f = (case r of Inl e \<Rightarrow> Inl e | Inr x \<Rightarrow> f x)"

definition py_assert :: "bool \<Rightarrow> unit result" where
  "py_assert P = (if P then Inr () else Inl AssertionError)"

lemma andthen_simps [simp, result_simps]:
  "andthen (Inl e) f = Inl e"
  "andthen (Inr x) f = f x"
  by (simp_all add: andthen_def)

lemma andthen_Inr_iff: "andthen r f = Inr y \<longleftrightarrow> (\<exists>x. r = Inr x \<and> f x = Inr y)"
  by (cases r) (simp_all add: andthen_def)

lemma andthen_InrE [elim!]:
  assumes "andthen r f = Inr y"
  obtains x where "r = Inr x" and "f x = Inr y"
  using assms by (auto simp: andthen_Inr_iff)

lemma andthen_assoc: "andthen (andthen r f) g = andthen r (\<lambda>x. andthen (f x) g)"
  by (cases r) simp_all

lemma andthen_cong [fundef_cong]:
  "r = r' \<Longrightarrow> (\<And>x. r' = Inr x \<Longrightarrow> f x = g x) \<Longrightarrow> andthen r f = andthen r' g"
  by (cases r') simp_all

lemma py_assert_Inr [simp]: "py_assert P = Inr u \<longleftrightarrow> P"
  by (simp add: py_assert_def)

lemma py_assert_True [simp]: "py_assert True = Inr ()"
  by (simp add: py_assert_def)

lemma py_assert_False [simp]: "py_assert False = Inl AssertionError"
  by (simp add: py_assert_def)

text \<open>A \<^verbatim>\<open>for\<close> loop whose body may raise: the state is threaded through the elements.\<close>

fun fold_result :: "('a \<Rightarrow> 's \<Rightarrow> 's result) \<Rightarrow> 'a list \<Rightarrow> 's \<Rightarrow> 's result" where
  "fold_result f [] s = Inr s"
| "fold_result f (x # xs) s = andthen (f x s) (\<lambda>s. fold_result f xs s)"

lemma fold_result_cong [fundef_cong]:
  "xs = ys \<Longrightarrow> s = t \<Longrightarrow> (\<And>x u. x \<in> set ys \<Longrightarrow> f x u = g x u) \<Longrightarrow>
   fold_result f xs s = fold_result g ys t"
proof (induction xs arbitrary: ys s t)
  case (Cons x xs)
  then show ?case by (cases "g x t") auto
qed auto

lemma fold_result_invariant:
  assumes "fold_result f xs s = Inr t" and "P s"
    and "\<And>x s t. x \<in> set xs \<Longrightarrow> P s \<Longrightarrow> f x s = Inr t \<Longrightarrow> P t"
  shows "P t"
  using assms
proof (induction xs arbitrary: s)
  case (Cons x xs)
  then obtain u where "f x s = Inr u" and "fold_result f xs u = Inr t" by auto
  moreover from this Cons.prems have "P u" by (meson list.set_intros(1))
  ultimately show ?case using Cons by (meson list.set_intros(2))
qed simp

text \<open>The same with a predicate that counts the rounds, and that no round raises.\<close>

lemma fold_result_rounds:
  assumes "J 0 s" and "\<And>k s. k < length xs \<Longrightarrow> J k s \<Longrightarrow> \<exists>t. f (xs ! k) s = Inr t \<and> J (Suc k) t"
  shows "\<exists>t. fold_result f xs s = Inr t \<and> J (length xs) t"
  using assms
proof (induction xs arbitrary: J s)
  case (Cons x xs)
  from Cons.prems(2) [of 0] Cons.prems(1) obtain u where u: "f x s = Inr u" "J (Suc 0) u" by auto
  have "\<exists>t. fold_result f xs u = Inr t \<and> J (Suc (length xs)) t"
    using Cons.IH [of "\<lambda>k. J (Suc k)" u] u(2) Cons.prems(2) by force
  with u(1) show ?case by simp
qed simp

lemma fold_result_append:
  "fold_result f (xs @ ys) s = andthen (fold_result f xs s) (fold_result f ys)"
  by (induction xs arbitrary: s) (simp_all add: andthen_assoc cong: andthen_cong)

section \<open>Python integers, strings and lists\<close>

text \<open>Generated text is a Python \<^verbatim>\<open>str\<close>: a sequence of Unicode code points.\<close>

type_synonym py_text = "nat list"

text \<open>\<^verbatim>\<open>vllm/utils.py\<close>, \<open>cdiv\<close>: \<^verbatim>\<open>-(a // -b)\<close>; \<open>div\<close> on \<open>int\<close> rounds down as \<^verbatim>\<open>//\<close> does.\<close>

definition cdiv :: "int \<Rightarrow> int \<Rightarrow> int" where
  "cdiv a b = - (a div (- b))"

lemma cdiv_bounds:
  assumes "0 < b"
  shows "a \<le> cdiv a b * b" and "cdiv a b * b < a + b"
proof -
  have eq: "a div (- b) = (- a) div b"
    by (metis div_minus_minus minus_minus)
  have "(- a) div b * b + (- a) mod b = - a"
    by (simp add: div_mult_mod_eq)
  then have "cdiv a b * b = a + (- a) mod b"
    unfolding cdiv_def eq by linarith
  moreover have "0 \<le> (- a) mod b" "(- a) mod b < b"
    using assms by simp_all
  ultimately show "a \<le> cdiv a b * b" "cdiv a b * b < a + b"
    by linarith+
qed

lemma cdiv_pos: "0 < b \<Longrightarrow> 0 < a \<Longrightarrow> 0 < cdiv a b"
  using cdiv_bounds(1) [of b a] by (smt (verit) mult_nonpos_nonneg)

lemma cdiv_nonneg: "0 < b \<Longrightarrow> 0 \<le> a \<Longrightarrow> 0 \<le> cdiv a b"
  by (cases "a = 0") (auto simp: cdiv_def [of 0] dest: cdiv_pos [of b a])

lemma cdiv_mult [simp]: "0 < b \<Longrightarrow> cdiv (a * b) b = a"
proof -
  assume "0 < b"
  then have "(a * b) div (- b) = - a"
    by (metis div_minus_right less_irrefl mult_minus_left nonzero_mult_div_cancel_right)
  then show ?thesis by (simp add: cdiv_def)
qed

lemma cdiv_mono: "0 < b \<Longrightarrow> a \<le> c \<Longrightarrow> cdiv a b \<le> cdiv c b"
proof -
  assume b: "0 < b" and "a \<le> c"
  have "a div (- b) = (- a) div b" "c div (- b) = (- c) div b"
    by (metis div_minus_minus minus_minus)+
  moreover have "(- c) div b \<le> (- a) div b"
    using b \<open>a \<le> c\<close> by (simp add: zdiv_mono1)
  ultimately show ?thesis by (simp add: cdiv_def)
qed

text \<open>\<^verbatim>\<open>xs[i:j]\<close> for indices that are not negative.\<close>

definition py_slice :: "'a list \<Rightarrow> int \<Rightarrow> int \<Rightarrow> 'a list" where
  "py_slice xs i j = take (nat j - nat i) (drop (nat i) xs)"

lemma set_py_slice: "set (py_slice xs i j) \<subseteq> set xs"
  by (auto simp: py_slice_def dest: in_set_takeD in_set_dropD)

lemma length_py_slice:
  "0 \<le> i \<Longrightarrow> i \<le> j \<Longrightarrow> j \<le> int (length xs) \<Longrightarrow> int (length (py_slice xs i j)) = j - i"
  by (auto simp: py_slice_def)

text \<open>Insertion of a key into a Python dictionary of which only the key order matters.\<close>

definition dict_add :: "'a \<Rightarrow> 'a list \<Rightarrow> 'a list" where
  "dict_add k ks = (if k \<in> set ks then ks else ks @ [k])"

lemma set_dict_add [simp]: "set (dict_add k ks) = insert k (set ks)"
  by (auto simp: dict_add_def)

lemma dict_add_nonempty [simp]: "dict_add k ks \<noteq> []"
  by (auto simp: dict_add_def)

lemma distinct_dict_add [simp]: "distinct (dict_add k ks) = distinct ks"
  by (simp add: dict_add_def)

text \<open>An insertion-ordered dictionary as an association list.\<close>

fun dict_set :: "'k \<Rightarrow> 'v \<Rightarrow> ('k \<times> 'v) list \<Rightarrow> ('k \<times> 'v) list" where
  "dict_set k v [] = [(k, v)]"
| "dict_set k v ((k', v') # d) = (if k' = k then (k, v) # d else (k', v') # dict_set k v d)"

definition dict_pop :: "'k \<Rightarrow> ('k \<times> 'v) list \<Rightarrow> ('k \<times> 'v) list" where
  "dict_pop k d = filter (\<lambda>(k', _). k' \<noteq> k) d"

lemma map_of_dict_set [simp]: "map_of (dict_set k v d) = (map_of d)(k \<mapsto> v)"
  by (induction k v d rule: dict_set.induct) (auto simp: fun_eq_iff)

lemma dict_set_keys: "set (map fst (dict_set k v d)) = insert k (set (map fst d))"
  by (induction k v d rule: dict_set.induct) auto

lemma distinct_dict_set: "distinct (map fst d) \<Longrightarrow> distinct (map fst (dict_set k v d))"
proof (induction k v d rule: dict_set.induct)
  case (2 k v k' v' d)
  then show ?case using dict_set_keys [of k v d] by auto
qed simp

lemma dict_set_fresh: "k \<notin> set (map fst d) \<Longrightarrow> dict_set k v d = d @ [(k, v)]"
  by (induction k v d rule: dict_set.induct) auto

lemma distinct_dict_pop: "distinct (map fst d) \<Longrightarrow> distinct (map fst (dict_pop k d))"
  by (simp add: dict_pop_def distinct_map_filter)

lemma map_of_dict_pop [simp]: "map_of (dict_pop k d) = (map_of d)(k := None)"
  by (induction d) (auto simp: dict_pop_def fun_eq_iff)

section \<open>Counting occurrences\<close>

lemma count_list_remove1:
  "x \<in> set xs \<Longrightarrow> count_list (remove1 x xs) y = count_list xs y - (if y = x then 1 else 0)"
  by (induction xs) (auto simp: count_list_0_iff)

lemma count_list_pos_iff: "0 < count_list xs x \<longleftrightarrow> x \<in> set xs"
  by (metis count_list_0_iff gr_zeroI less_irrefl)

lemma count_list_distinct: "distinct xs \<Longrightarrow> x \<in> set xs \<Longrightarrow> count_list xs x = 1"
  by (induction xs) (auto simp: count_list_0_iff)

lemma count_list_slice_le: "count_list (take n (drop k xs)) x \<le> count_list xs x"
proof -
  have "count_list xs x = count_list (take k xs) x + count_list (take n (drop k xs)) x
      + count_list (drop n (drop k xs)) x"
    by (metis append_take_drop_id count_list_append add.assoc)
  then show ?thesis by simp
qed

lemma distinct_length_le_card:
  "distinct xs \<Longrightarrow> set xs \<subseteq> {..<n} \<Longrightarrow> length xs \<le> n"
  by (metis card_lessThan card_mono distinct_card finite_lessThan)

end
