(* ===== verification/Request.thy ===== *)
theory Request
  imports Prelude
begin

text \<open>
  Requests of the V1 engine: \<^verbatim>\<open>src/vllm/v1/request.py\<close>, the wire type
  \<open>EngineCoreRequest\<close> of \<^verbatim>\<open>src/vllm/v1/engine/__init__.py\<close> it is built from, and the
  read-only list view \<open>ConstantList\<close> of \<^verbatim>\<open>src/vllm/v1/utils.py\<close>.

  A \<open>Request\<close> object is the record \<open>request\<close>; the fields that no modelled code reads
  (\<open>metrics\<close>, \<open>lora_request\<close>, the adapter \<open>inputs\<close>) are left out. Times are
  rationals, token ids and counters are integers as in Python. A property of the class is a
  function of the record, a mutating method returns the new record.
\<close>

section \<open>Data\<close>

type_synonym time = rat
type_synonym token = int
type_synonym req_id = string

text \<open>The payload of a multi-modal input is opaque to the engine core: only its presence is read.\<close>

type_synonym mm_kwargs = nat

text \<open>
  \<open>BlockHashType\<close> of \<^verbatim>\<open>kv_cache_utils.py\<close>: the chained hash value, the tokens of the
  block, and the \<open>(mm_hash, start)\<close> pairs of the multi-modal inputs inside the block.
\<close>

record block_hash_type =
  hash_value :: int
  hash_token_ids :: "token list"
  extra_keys :: "(string \<times> int) list option"

record placeholder_range =
  offset :: int
  range_length :: int

record sampling_params =
  sp_max_tokens :: "int option"
  ignore_eos :: bool
  stop_token_ids :: "token list option"

datatype request_status =
    WAITING | RUNNING | PREEMPTED | SWAPPED
  | FINISHED_STOPPED | FINISHED_LENGTH_CAPPED | FINISHED_ABORTED | FINISHED_IGNORED

datatype stop_reason_t = StopInt int | StopStr py_text

text \<open>The values of the \<^verbatim>\<open>IntEnum\<close>: finished means greater than \<open>SWAPPED\<close>.\<close>

fun status_value :: "request_status \<Rightarrow> int" where
  "status_value WAITING = 0"
| "status_value RUNNING = 1"
| "status_value PREEMPTED = 2"
| "status_value SWAPPED = 3"
| "status_value FINISHED_STOPPED = 4"
| "status_value FINISHED_LENGTH_CAPPED = 5"
| "status_value FINISHED_ABORTED = 6"
| "status_value FINISHED_IGNORED = 7"

definition status_is_finished :: "request_status \<Rightarrow> bool" where
  "status_is_finished st \<longleftrightarrow> status_value st > status_value SWAPPED"

definition finished_reason_map :: "request_status \<rightharpoonup> string" where
  "finished_reason_map = [FINISHED_STOPPED \<mapsto> ''stop'', FINISHED_LENGTH_CAPPED \<mapsto> ''length'',
     FINISHED_ABORTED \<mapsto> ''abort'', FINISHED_IGNORED \<mapsto> ''length'']"

definition status_get_finished_reason :: "request_status \<Rightarrow> string option" where
  "status_get_finished_reason st = finished_reason_map st"

record request =
  request_id :: req_id
  prompt :: "string option"
  prompt_token_ids :: "token list"
  num_prompt_tokens :: int
  sampling :: sampling_params
  eos_token_id :: "token option"
  req_status :: request_status
  stop_reason :: "stop_reason_t option"
  max_tokens :: int
  lookahead :: bool
  output_ids :: "token list"
  all_ids :: "token list"
  num_computed_tokens :: int
  num_cached_tokens :: int
  num_tokens_next :: int
  num_computed_tokens_next :: int
  in_running_since :: "time option"
  in_waiting_since :: "time option"
  mm_positions :: "placeholder_range list"
  mm_inputs :: "mm_kwargs option list"
  mm_hashes :: "string list"
  kv_block_hashes :: "block_hash_type list"

record engine_core_request =
  ecr_request_id :: req_id
  ecr_prompt :: "string option"
  ecr_prompt_token_ids :: "token list"
  ecr_mm_inputs :: "mm_kwargs option list option"
  ecr_mm_hashes :: "string list option"
  ecr_mm_placeholders :: "(string \<rightharpoonup> placeholder_range list) option"
  ecr_sampling_params :: sampling_params
  ecr_eos_token_id :: "token option"
  ecr_arrival_time :: time

section \<open>Construction\<close>

text \<open>
  \<open>Request.__init__\<close> as reached from \<open>from_engine_core_request\<close>: the inputs adapter
  gives the empty dictionary or list for an absent key, and only image placeholders are kept.
\<close>

definition request_init ::
  "req_id \<Rightarrow> string option \<Rightarrow> token list \<Rightarrow> mm_kwargs option list \<Rightarrow> string list
   \<Rightarrow> (string \<rightharpoonup> placeholder_range list) \<Rightarrow> sampling_params \<Rightarrow> token option \<Rightarrow> time
   \<Rightarrow> request result" where
  "request_init rid prm toks inputs hashes placeholders sp eos arrival =
     (case sp_max_tokens sp of
        None \<Rightarrow> Inl AssertionError
      | Some mt \<Rightarrow> Inr \<lparr>request_id = rid, prompt = prm, prompt_token_ids = toks,
          num_prompt_tokens = int (length toks), sampling = sp, eos_token_id = eos,
          req_status = WAITING, stop_reason = None, max_tokens = mt, lookahead = False,
          output_ids = [], all_ids = toks, num_computed_tokens = 0, num_cached_tokens = 0,
          num_tokens_next = int (length toks), num_computed_tokens_next = 0,
          in_running_since = None, in_waiting_since = Some arrival,
          mm_positions = (case placeholders ''image'' of None \<Rightarrow> [] | Some ps \<Rightarrow> ps),
          mm_inputs = inputs, mm_hashes = hashes, kv_block_hashes = []\<rparr>)"

definition from_engine_core_request :: "engine_core_request \<Rightarrow> request result" where
  "from_engine_core_request r =
     request_init (ecr_request_id r) (ecr_prompt r) (ecr_prompt_token_ids r)
       (case ecr_mm_inputs r of None \<Rightarrow> [] | Some is \<Rightarrow> is)
       (case ecr_mm_hashes r of None \<Rightarrow> [] | Some hs \<Rightarrow> hs)
       (case ecr_mm_placeholders r of None \<Rightarrow> Map.empty | Some ps \<Rightarrow> ps)
       (ecr_sampling_params r) (ecr_eos_token_id r) (ecr_arrival_time r)"

section \<open>Properties and methods\<close>

definition output_token_ids :: "request \<Rightarrow> token list" where
  "output_token_ids r = output_ids r"

definition all_token_ids :: "request \<Rightarrow> token list" where
  "all_token_ids r = all_ids r"

definition append_output_token_ids :: "token list \<Rightarrow> request \<Rightarrow> request" where
  "append_output_token_ids ts r =
     r\<lparr>output_ids := output_ids r @ ts, all_ids := all_ids r @ ts\<rparr>"

definition num_tokens :: "request \<Rightarrow> int" where
  "num_tokens r = (if lookahead r then num_tokens_next r else int (length (all_ids r)))"

definition num_output_tokens :: "request \<Rightarrow> int" where
  "num_output_tokens r = int (length (output_ids r))"

definition is_finished :: "request \<Rightarrow> bool" where
  "is_finished r = status_is_finished (req_status r)"

definition get_finished_reason :: "request \<Rightarrow> string option" where
  "get_finished_reason r = status_get_finished_reason (req_status r)"

definition has_encoder_inputs :: "request \<Rightarrow> bool" where
  "has_encoder_inputs r \<longleftrightarrow> length (mm_inputs r) > 0"

definition num_encoder_inputs :: "request \<Rightarrow> int" where
  "num_encoder_inputs r = int (length (mm_positions r))"

definition get_num_encoder_tokens :: "request \<Rightarrow> nat \<Rightarrow> int result" where
  "get_num_encoder_tokens r i =
     (if i < length (mm_positions r) then Inr (range_length (mm_positions r ! i))
      else Inl AssertionError)"

definition set_kv_block_hashes :: "block_hash_type list \<Rightarrow> request \<Rightarrow> request" where
  "set_kv_block_hashes hs r = r\<lparr>kv_block_hashes := hs\<rparr>"

definition append_kv_block_hashes :: "block_hash_type \<Rightarrow> request \<Rightarrow> request" where
  "append_kv_block_hashes h r = r\<lparr>kv_block_hashes := kv_block_hashes r @ [h]\<rparr>"

definition clear_kv_block_hashes :: "request \<Rightarrow> request" where
  "clear_kv_block_hashes r = r\<lparr>kv_block_hashes := []\<rparr>"

section \<open>The look-ahead context manager\<close>

text \<open>
  \<open>RequestLookaheadContextManager\<close>: on entry the request is switched to the predicted
  counters, on exit \<open>num_computed_tokens\<close> is set back to the value saved at entry,
  whatever the body did to it.
\<close>

definition lookahead_enter :: "bool \<Rightarrow> request \<Rightarrow> request \<times> int option" where
  "lookahead_enter la r =
     (if la then (r\<lparr>lookahead := True, num_computed_tokens := num_computed_tokens_next r\<rparr>,
                  Some (num_computed_tokens r))
      else (r, None))"

definition lookahead_exit :: "int option \<Rightarrow> request \<Rightarrow> request" where
  "lookahead_exit saved r =
     (case saved of Some n \<Rightarrow> r\<lparr>lookahead := False, num_computed_tokens := n\<rparr> | None \<Rightarrow> r)"

section \<open>ConstantList\<close>

text \<open>
  The view shares the underlying list; reading delegates to it and every mutator raises.
  \<open>index\<close> searches the window \<open>[start, stop)\<close> and raises when the item is absent;
  negative bounds count from the end and are clamped at 0, as for \<^verbatim>\<open>list.index\<close>.
\<close>

datatype 'a constant_list = ConstantList "'a list"

datatype 'a list_mutation =
  Append 'a | Extend "'a list" | Insert 'a | Pop 'a | Remove 'a | Clear | SetItem int 'a | DelItem int

fun cl_mutate :: "'a constant_list \<Rightarrow> 'a list_mutation \<Rightarrow> 'a constant_list result" where
  "cl_mutate cl m = Inl PyException"

definition norm_bound :: "int \<Rightarrow> int \<Rightarrow> nat" where
  "norm_bound n i = nat (if i < 0 then max 0 (n + i) else i)"

fun cl_getitem :: "'a constant_list \<Rightarrow> int \<Rightarrow> 'a result" where
  "cl_getitem (ConstantList xs) i =
     (if 0 \<le> i then if nat i < length xs then Inr (xs ! nat i) else Inl IndexError
      else if nat (- i) \<le> length xs then Inr (xs ! (length xs - nat (- i)))
      else Inl IndexError)"

fun cl_slice :: "'a constant_list \<Rightarrow> int \<Rightarrow> int \<Rightarrow> 'a list" where
  "cl_slice (ConstantList xs) i j =
     (let n = int (length xs) in py_slice xs (int (norm_bound n i)) (int (norm_bound n j)))"

fun cl_contains :: "'a constant_list \<Rightarrow> 'a \<Rightarrow> bool" where
  "cl_contains (ConstantList xs) x \<longleftrightarrow> x \<in> set xs"

fun cl_len :: "'a constant_list \<Rightarrow> int" where
  "cl_len (ConstantList xs) = int (length xs)"

fun cl_iter :: "'a constant_list \<Rightarrow> 'a list" where
  "cl_iter (ConstantList xs) = xs"

fun index_from :: "'a \<Rightarrow> nat \<Rightarrow> nat \<Rightarrow> 'a list \<Rightarrow> nat result" where
  "index_from x k stop [] = Inl ValueError"
| "index_from x k stop (y # ys) =
     (if k \<ge> stop then Inl ValueError else if y = x then Inr k else index_from x (Suc k) stop ys)"

fun cl_index :: "'a constant_list \<Rightarrow> 'a \<Rightarrow> int \<Rightarrow> int option \<Rightarrow> nat result" where
  "cl_index (ConstantList xs) x start stop =
     (let n = int (length xs);
          a = norm_bound n start;
          b = norm_bound n (case stop of None \<Rightarrow> n | Some e \<Rightarrow> e)
      in index_from x a b (drop a xs))"

section \<open>Well-formed requests\<close>

text \<open>
  What every method keeps: the token list is the prompt followed by the outputs, and the
  prompt length is cached correctly.
\<close>

definition request_wf :: "request \<Rightarrow> bool" where
  "request_wf r \<longleftrightarrow>
     all_ids r = prompt_token_ids r @ output_ids r
     \<and> num_prompt_tokens r = int (length (prompt_token_ids r))"

lemma request_init_wf: "request_init rid p ts is hs ps sp eos t = Inr r \<Longrightarrow> request_wf r"
  by (auto simp: request_init_def request_wf_def split: option.splits)

lemma append_output_wf: "request_wf r \<Longrightarrow> request_wf (append_output_token_ids ts r)"
  by (simp add: request_wf_def append_output_token_ids_def)

lemma kv_hashes_wf [simp]:
  "request_wf (set_kv_block_hashes hs r) = request_wf r"
  "request_wf (append_kv_block_hashes h r) = request_wf r"
  "request_wf (clear_kv_block_hashes r) = request_wf r"
  by (simp_all add: request_wf_def set_kv_block_hashes_def append_kv_block_hashes_def
      clear_kv_block_hashes_def)

lemma num_tokens_split:
  "request_wf r \<Longrightarrow> \<not> lookahead r \<Longrightarrow> num_tokens r = num_prompt_tokens r + num_output_tokens r"
  by (simp add: request_wf_def num_tokens_def num_output_tokens_def)

lemma status_finished_iff:
  "status_is_finished st \<longleftrightarrow> st \<notin> {WAITING, RUNNING, PREEMPTED, SWAPPED}"
  by (cases st) (simp_all add: status_is_finished_def)

lemma finished_reason_iff:
  "status_get_finished_reason st \<noteq> None \<longleftrightarrow> status_is_finished st"
  by (cases st)
    (simp_all add: status_get_finished_reason_def finished_reason_map_def status_is_finished_def)

lemma index_from_Inr:
  "index_from x k stop ys = Inr i \<longleftrightarrow>
     (\<exists>j < length ys. i = k + j \<and> i < stop \<and> ys ! j = x \<and> (\<forall>l < j. ys ! l \<noteq> x))"
proof (induction ys arbitrary: k)
  case (Cons y ys)
  show ?case
  proof (cases "k \<ge> stop \<or> y = x")
    case True
    show ?thesis
    proof (cases "k \<ge> stop")
      case False
      with True have "y = x" by simp
      have "j = 0" if "\<forall>l < j. (y # ys) ! l \<noteq> x" for j
        using that \<open>y = x\<close> by (cases j) auto
      with False \<open>y = x\<close> show ?thesis by fastforce
    qed auto
  next
    case False
    then show ?thesis
      by (auto simp: Cons.IH Ex_less_Suc2 All_less_Suc2 simp del: upt_Suc)
  qed
qed simp

end
