(* ===== verification/KVCacheUtils.thy ===== *)
theory KVCacheUtils
  imports Request "HOL-Library.Countable"
begin

text \<open>
  \<^verbatim>\<open>src/vllm/v1/core/kv_cache_utils.py\<close>: the metadata of a KV-cache block with its status
  machine and reference count, the intrusive doubly linked list of free blocks
  (\<open>FreeKVCacheBlockQueue\<close>), and the chained block hashes of prefix caching.

  Block objects live in a store indexed by \<open>block_id\<close>: a pool is created as
  \<^verbatim>\<open>[KVCacheBlock(idx) for idx in range(n)]\<close> and ids are never reassigned, so the id
  identifies the object within its pool (which is also what the dataclass \<open>==\<close> of the source
  decides, as it compares the ids first). The GPU and the CPU pool are two stores;
  \<open>mapped_cpu_block\<close> of a GPU block is an id of the CPU store, and CPU blocks have none.
\<close>

section \<open>Block metadata\<close>

datatype block_status =
  FREE | FULL_CLEAN | FULL_DIRTY | FULL_SWAPPED | HALF_CLEAN | HALF_DIRTY | HALF_SWAPPED | EMPTY

record kv_block =
  ref_cnt :: int
  block_hash :: "block_hash_type option"
  prev_free_block :: "nat option"
  next_free_block :: "nat option"
  blk_status :: block_status
  mapped_cpu_block :: "nat option"

type_synonym block_store = "nat \<Rightarrow> kv_block"

definition new_block :: kv_block where
  "new_block = \<lparr>ref_cnt = 0, block_hash = None, prev_free_block = None,
     next_free_block = None, blk_status = FREE, mapped_cpu_block = None\<rparr>"

text \<open>
  \<open>incr_ref\<close> and \<open>decr_ref\<close> on a GPU block also count on the CPU block it is mapped to;
  on a CPU block (no mapping of its own) they only change its own counter.
\<close>

definition add_ref :: "int \<Rightarrow> nat \<Rightarrow> block_store \<Rightarrow> block_store" where
  "add_ref d b st = st(b := (st b)\<lparr>ref_cnt := ref_cnt (st b) + d\<rparr>)"

definition incr_ref :: "nat \<Rightarrow> block_store \<times> block_store \<Rightarrow> block_store \<times> block_store" where
  "incr_ref b = (\<lambda>(gpu, cpu).
     (add_ref 1 b gpu,
      case mapped_cpu_block (gpu b) of Some c \<Rightarrow> add_ref 1 c cpu | None \<Rightarrow> cpu))"

definition decr_ref :: "bool \<Rightarrow> nat \<Rightarrow> block_store \<times> block_store \<Rightarrow> block_store \<times> block_store" where
  "decr_ref keep_cpu b = (\<lambda>(gpu, cpu).
     (add_ref (-1) b gpu,
      case mapped_cpu_block (gpu b) of
        Some c \<Rightarrow> if \<not> keep_cpu then add_ref (-1) c cpu else cpu
      | None \<Rightarrow> cpu))"

definition set_block_hash :: "block_hash_type \<Rightarrow> kv_block \<Rightarrow> kv_block result" where
  "set_block_hash h blk =
     (if block_hash blk = None then Inr (blk\<lparr>block_hash := Some h\<rparr>) else Inl AssertionError)"

definition reset_hash :: "kv_block \<Rightarrow> kv_block" where
  "reset_hash blk = blk\<lparr>block_hash := None\<rparr>"

definition is_clean :: "kv_block \<Rightarrow> bool" where
  "is_clean blk \<longleftrightarrow> blk_status blk = FULL_CLEAN \<or> blk_status blk = HALF_CLEAN"

definition is_dirty :: "kv_block \<Rightarrow> bool" where
  "is_dirty blk \<longleftrightarrow> blk_status blk = FULL_DIRTY \<or> blk_status blk = HALF_DIRTY"

definition is_swapped :: "kv_block \<Rightarrow> bool" where
  "is_swapped blk \<longleftrightarrow> blk_status blk = FULL_SWAPPED \<or> blk_status blk = HALF_SWAPPED"

definition is_full :: "kv_block \<Rightarrow> bool" where
  "is_full blk \<longleftrightarrow> blk_status blk = FULL_CLEAN \<or> blk_status blk = FULL_DIRTY
     \<or> blk_status blk = FULL_SWAPPED"

definition is_free :: "kv_block \<Rightarrow> bool" where
  "is_free blk \<longleftrightarrow> blk_status blk = FREE"

definition is_half :: "kv_block \<Rightarrow> bool" where
  "is_half blk \<longleftrightarrow> blk_status blk = HALF_CLEAN \<or> blk_status blk = HALF_DIRTY
     \<or> blk_status blk = HALF_SWAPPED"

definition is_used :: "kv_block \<Rightarrow> bool" where
  "is_used blk \<longleftrightarrow> is_full blk \<or> is_half blk"

definition mark_free :: "kv_block \<Rightarrow> kv_block" where
  "mark_free blk = blk\<lparr>blk_status := FREE\<rparr>"

definition mark_empty :: "kv_block \<Rightarrow> kv_block" where
  "mark_empty blk = blk\<lparr>blk_status := EMPTY\<rparr>"

definition mark_clean :: "kv_block \<Rightarrow> kv_block result" where
  "mark_clean blk =
     (if is_full blk then Inr (blk\<lparr>blk_status := FULL_CLEAN\<rparr>)
      else if is_half blk then Inr (blk\<lparr>blk_status := HALF_CLEAN\<rparr>)
      else Inl ValueError)"

definition mark_swapped :: "kv_block \<Rightarrow> kv_block result" where
  "mark_swapped blk =
     (if is_full blk then Inr (blk\<lparr>blk_status := FULL_SWAPPED\<rparr>)
      else if is_half blk then Inr (blk\<lparr>blk_status := HALF_SWAPPED\<rparr>)
      else Inl ValueError)"

text \<open>The three flags are keyword arguments; the source asserts that exactly one is set.\<close>

definition mark_full :: "bool \<Rightarrow> bool \<Rightarrow> bool \<Rightarrow> kv_block \<Rightarrow> kv_block result" where
  "mark_full clean dirty swapped blk =
     (if of_bool clean + of_bool dirty + of_bool swapped \<noteq> (1::int) then Inl AssertionError
      else if clean then Inr (blk\<lparr>blk_status := FULL_CLEAN\<rparr>)
      else if dirty then Inr (blk\<lparr>blk_status := FULL_DIRTY\<rparr>)
      else if swapped then Inr (blk\<lparr>blk_status := FULL_SWAPPED\<rparr>)
      else Inl ValueError)"

definition mark_half :: "bool \<Rightarrow> bool \<Rightarrow> bool \<Rightarrow> kv_block \<Rightarrow> kv_block result" where
  "mark_half clean dirty swapped blk =
     (if of_bool clean + of_bool dirty + of_bool swapped \<noteq> (1::int) then Inl AssertionError
      else if clean then Inr (blk\<lparr>blk_status := HALF_CLEAN\<rparr>)
      else if dirty then Inr (blk\<lparr>blk_status := HALF_DIRTY\<rparr>)
      else if swapped then Inr (blk\<lparr>blk_status := HALF_SWAPPED\<rparr>)
      else Inl ValueError)"

text \<open>The calls with literal flags that the manager makes.\<close>

lemma mark_flags [simp]:
  "mark_full True False False blk = Inr (blk\<lparr>blk_status := FULL_CLEAN\<rparr>)"
  "mark_half False True False blk = Inr (blk\<lparr>blk_status := HALF_DIRTY\<rparr>)"
  by (simp_all add: mark_full_def mark_half_def)

section \<open>The free-block queue\<close>

record free_queue =
  num_free_blocks :: int
  free_list_head :: "nat option"
  free_list_tail :: "nat option"

type_synonym queue_state = "block_store \<times> free_queue"

definition link_block :: "nat \<Rightarrow> nat \<Rightarrow> block_store \<Rightarrow> block_store" where
  "link_block n i st =
     (let st1 = (if i > 0 then st(i := (st i)\<lparr>prev_free_block := Some (i - 1)\<rparr>) else st)
      in if Suc i < n then st1(i := (st1 i)\<lparr>next_free_block := Some (Suc i)\<rparr>) else st1)"

definition fq_init :: "nat \<Rightarrow> block_store \<Rightarrow> queue_state result" where
  "fq_init n st =
     (if n = 0 then Inl IndexError
      else Inr (fold (link_block n) [0..<n] st,
                \<lparr>num_free_blocks = int n, free_list_head = Some 0,
                 free_list_tail = Some (n - 1)\<rparr>))"

definition fq_remove :: "nat \<Rightarrow> queue_state \<Rightarrow> queue_state" where
  "fq_remove b = (\<lambda>(st, q).
     let st1 = (case prev_free_block (st b) of
                  Some p \<Rightarrow> st(p := (st p)\<lparr>next_free_block := next_free_block (st b)\<rparr>)
                | None \<Rightarrow> st);
         st2 = (case next_free_block (st1 b) of
                  Some n \<Rightarrow> st1(n := (st1 n)\<lparr>prev_free_block := prev_free_block (st1 b)\<rparr>)
                | None \<Rightarrow> st1);
         q1 = (if free_list_head q = Some b
               then q\<lparr>free_list_head := next_free_block (st2 b)\<rparr> else q);
         q2 = (if free_list_tail q1 = Some b
               then q1\<lparr>free_list_tail := prev_free_block (st2 b)\<rparr> else q1);
         st3 = st2(b := (st2 b)\<lparr>prev_free_block := None, next_free_block := None\<rparr>)
     in (st3, q2\<lparr>num_free_blocks := num_free_blocks q2 - 1\<rparr>))"

definition fq_popleft :: "queue_state \<Rightarrow> (nat \<times> queue_state) result" where
  "fq_popleft s =
     (case free_list_head (snd s) of
        None \<Rightarrow> Inl ValueError
      | Some b \<Rightarrow> Inr (b, fq_remove b s))"

definition fq_append :: "nat \<Rightarrow> queue_state \<Rightarrow> queue_state result" where
  "fq_append b = (\<lambda>(st, q).
     andthen
       (case free_list_tail q of
          Some t \<Rightarrow>
            (let st1 = st(t := (st t)\<lparr>next_free_block := Some b\<rparr>);
                 st2 = st1(b := (st1 b)\<lparr>prev_free_block := Some t\<rparr>)
             in Inr (st2, q\<lparr>free_list_tail := Some b\<rparr>))
        | None \<Rightarrow>
            andthen (py_assert (free_list_head q = None))
              (\<lambda>_. Inr (st, q\<lparr>free_list_head := Some b, free_list_tail := Some b\<rparr>)))
       (\<lambda>(st, q). Inr (st(b := (st b)\<lparr>next_free_block := None\<rparr>),
                      q\<lparr>num_free_blocks := num_free_blocks q + 1\<rparr>)))"

text \<open>The walk from the head: it returns only when the links are not cyclic.\<close>

partial_function (option) walk_free ::
  "block_store \<Rightarrow> nat list \<Rightarrow> nat option \<Rightarrow> nat list option" where
  "walk_free st acc cur =
     (case cur of None \<Rightarrow> Some acc
      | Some b \<Rightarrow> walk_free st (acc @ [b]) (next_free_block (st b)))"

definition get_all_free_blocks :: "queue_state \<Rightarrow> nat list option" where
  "get_all_free_blocks s = walk_free (fst s) [] (free_list_head (snd s))"

section \<open>Block hashes\<close>

text \<open>
  Python's \<open>hash\<close> of the tuple \<^verbatim>\<open>(parent_block_hash, *curr_block_token_ids)\<close> is the
  parameter \<open>hsh\<close>.
\<close>

type_synonym hash_fun = "int option \<Rightarrow> token list \<Rightarrow> int"

definition hash_block_tokens ::
  "hash_fun \<Rightarrow> int option \<Rightarrow> token list \<Rightarrow> (string \<times> int) list option \<Rightarrow> block_hash_type" where
  "hash_block_tokens hsh parent toks keys =
     \<lparr>hash_value = hsh parent toks, hash_token_ids = toks, extra_keys = keys\<rparr>"

function extra_keys_loop ::
  "placeholder_range list \<Rightarrow> string list \<Rightarrow> int \<Rightarrow> int \<Rightarrow> nat \<Rightarrow> (string \<times> int) list
   \<Rightarrow> (string \<times> int) list \<times> nat" where
  "extra_keys_loop ps hs start_tok end_tok i acc =
     (if i < length ps then
        let off = offset (ps ! i); len = range_length (ps ! i)
        in if end_tok > off then
             if start_tok > off + len then extra_keys_loop ps hs start_tok end_tok (Suc i) acc
             else
               let acc' = acc @ [(hs ! i, max 0 (start_tok - off))]
               in if end_tok \<ge> off + len
                  then extra_keys_loop ps hs start_tok end_tok (Suc i) acc'
                  else (acc', i)
           else (acc, i)
      else (acc, i))"
  by pat_completeness auto
termination
  by (relation "measure (\<lambda>(ps, hs, s, e, i, acc). length ps - i)") auto

declare extra_keys_loop.simps [simp del]

definition generate_block_hash_extra_keys ::
  "request \<Rightarrow> int \<Rightarrow> int \<Rightarrow> int \<Rightarrow> ((string \<times> int) list option \<times> int) result" where
  "generate_block_hash_extra_keys r start_tok end_tok start_mm =
     (let ps = mm_positions r; hs = mm_hashes r in
      if ps = [] then Inr (None, start_mm)
      else if length ps \<noteq> length hs then Inl ValueError
      else if offset (last ps) + range_length (last ps) < start_tok then Inr (None, start_mm)
      else if start_mm < 0 \<and> \<not> - start_mm \<le> int (length ps) then Inl AssertionError
      else
        let i0 = (if start_mm < 0 then int (length ps) + start_mm else start_mm);
            (keys, i) = extra_keys_loop ps hs start_tok end_tok (nat i0) []
        in Inr (Some keys, int i))"

text \<open>
  The loop of \<open>hash_request_tokens\<close> over \<^verbatim>\<open>range(0, len(token_ids), block_size)\<close>: \<open>toks\<close>
  are the tokens from \<open>start\<close> on.
\<close>

function hash_blocks_from ::
  "hash_fun \<Rightarrow> nat \<Rightarrow> request \<Rightarrow> nat \<Rightarrow> int \<Rightarrow> int option \<Rightarrow> token list
   \<Rightarrow> block_hash_type list result" where
  "hash_blocks_from hsh bs r start mm parent toks =
     (if bs = 0 \<or> toks = [] then Inr []
      else if length (take bs toks) < bs then Inr []
      else
        andthen
          (if mm_positions r \<noteq> []
           then generate_block_hash_extra_keys r (int start) (int (start + bs)) mm
           else Inr (None, mm))
          (\<lambda>(keys, mm').
             let h = hash_block_tokens hsh parent (take bs toks) keys
             in andthen
                  (hash_blocks_from hsh bs r (start + bs) mm' (Some (hash_value h)) (drop bs toks))
                  (\<lambda>hs. Inr (h # hs))))"
  by pat_completeness auto
termination
  by (relation "measure (\<lambda>(hsh, bs, r, start, mm, parent, toks). length toks)") auto

declare hash_blocks_from.simps [simp del]

definition hash_request_tokens ::
  "hash_fun \<Rightarrow> int \<Rightarrow> request \<Rightarrow> block_hash_type list result" where
  "hash_request_tokens hsh bs r =
     (if mm_positions r \<noteq> [] \<and> length (mm_positions r) \<noteq> length (mm_hashes r) then Inl ValueError
      else if bs = 0 then Inl ValueError
      else if bs < 0 then Inr []
      else hash_blocks_from hsh (nat bs) r 0 0 None (all_ids r))"


section \<open>The queue as a list: the representation relation\<close>

text \<open>
  \<open>linked st p xs n\<close>: the blocks \<open>xs\<close> are chained in this order by their
  \<open>next\<close>/\<open>prev\<close> fields, the first one pointing back to \<open>p\<close>, the last one on to \<open>n\<close>.
\<close>

definition first_or :: "nat list \<Rightarrow> nat option \<Rightarrow> nat option" where
  "first_or xs n = (case xs of [] \<Rightarrow> n | x # _ \<Rightarrow> Some x)"

definition last_or :: "nat list \<Rightarrow> nat option \<Rightarrow> nat option" where
  "last_or xs p = (if xs = [] then p else Some (last xs))"

primrec linked :: "block_store \<Rightarrow> nat option \<Rightarrow> nat list \<Rightarrow> nat option \<Rightarrow> bool" where
  "linked st p [] n \<longleftrightarrow> True"
| "linked st p (x # xs) n \<longleftrightarrow>
     prev_free_block (st x) = p \<and> next_free_block (st x) = first_or xs n
     \<and> linked st (Some x) xs n"

definition dll :: "queue_state \<Rightarrow> nat list \<Rightarrow> bool" where
  "dll s xs \<longleftrightarrow>
     distinct xs \<and> linked (fst s) None xs None
     \<and> free_list_head (snd s) = first_or xs None \<and> free_list_tail (snd s) = last_or xs None
     \<and> num_free_blocks (snd s) = int (length xs)
     \<and> (\<forall>b. b \<notin> set xs \<longrightarrow>
           prev_free_block (fst s b) = None \<and> next_free_block (fst s b) = None)"

text \<open>The links are the only fields the relation reads.\<close>

definition same_links :: "block_store \<Rightarrow> block_store \<Rightarrow> nat set \<Rightarrow> bool" where
  "same_links st st' A \<longleftrightarrow>
     (\<forall>b \<in> A. prev_free_block (st' b) = prev_free_block (st b)
       \<and> next_free_block (st' b) = next_free_block (st b))"

text \<open>Everything but the links.\<close>

definition same_data :: "block_store \<Rightarrow> block_store \<Rightarrow> bool" where
  "same_data st st' \<longleftrightarrow>
     (\<forall>b. ref_cnt (st' b) = ref_cnt (st b) \<and> block_hash (st' b) = block_hash (st b)
       \<and> blk_status (st' b) = blk_status (st b)
       \<and> mapped_cpu_block (st' b) = mapped_cpu_block (st b))"

lemma first_or_simps [simp]: "first_or [] n = n" "first_or (x # xs) n = Some x"
  by (simp_all add: first_or_def)

lemma last_or_simps [simp]:
  "last_or [] p = p" "last_or (xs @ [x]) p = Some x" "last_or (x # xs) p = last_or xs (Some x)"
  by (simp_all add: last_or_def)

lemma first_or_append: "first_or (xs @ ys) n = first_or xs (first_or ys n)"
  by (cases xs) simp_all

lemma linked_append:
  "linked st p (xs @ ys) n \<longleftrightarrow>
     linked st p xs (first_or ys n) \<and> linked st (last_or xs p) ys n"
  by (induction xs arbitrary: p) (auto simp: first_or_append)

lemma linked_cong: "same_links st st' (set xs) \<Longrightarrow> linked st' p xs n = linked st p xs n"
  by (induction xs arbitrary: p) (auto simp: same_links_def)

lemma linked_upd_other:
  "b \<notin> set xs \<Longrightarrow> linked (st(b := blk)) p xs n = linked st p xs n"
  by (rule linked_cong) (simp add: same_links_def)

lemma linked_set_prev:
  "linked st p (x # xs) n \<Longrightarrow> distinct (x # xs) \<Longrightarrow>
   linked (st(x := (st x)\<lparr>prev_free_block := q\<rparr>)) q (x # xs) n"
  by (simp add: linked_upd_other)

lemma linked_set_next:
  "linked st p (xs @ [x]) n \<Longrightarrow> distinct (xs @ [x]) \<Longrightarrow>
   linked (st(x := (st x)\<lparr>next_free_block := m\<rparr>)) p (xs @ [x]) m"
  by (simp add: linked_append linked_upd_other)

lemma same_data_refl [simp]: "same_data st st"
  by (simp add: same_data_def)

lemma same_data_trans: "same_data a b \<Longrightarrow> same_data b c \<Longrightarrow> same_data a c"
  by (simp add: same_data_def)

lemma dll_cong:
  "same_links st st' UNIV \<Longrightarrow> dll (st', q) xs = dll (st, q) xs"
  using linked_cong [of st st' xs] by (auto simp: dll_def same_links_def)

lemma dll_upd_field:
  assumes "prev_free_block blk = prev_free_block (st b)"
    and "next_free_block blk = next_free_block (st b)"
  shows "dll (st(b := blk), q) xs = dll (st, q) xs"
  by (rule dll_cong) (simp add: same_links_def assms)

lemma dll_distinct: "dll s xs \<Longrightarrow> distinct xs"
  by (simp add: dll_def)

lemma dll_num: "dll s xs \<Longrightarrow> num_free_blocks (snd s) = int (length xs)"
  by (simp add: dll_def)

lemma dll_unique: "dll s xs \<Longrightarrow> dll s ys \<Longrightarrow> xs = ys"
proof -
  have "linked st p xs None \<Longrightarrow> linked st p' ys None \<Longrightarrow> first_or xs None = first_or ys None \<Longrightarrow> xs = ys"
    for st p p'
  proof (induction xs arbitrary: p p' ys)
    case Nil
    then show ?case by (cases ys) auto
  next
    case (Cons x xs)
    then obtain zs where "ys = x # zs" by (cases ys) auto
    with Cons show ?case by auto
  qed
  then show "dll s xs \<Longrightarrow> dll s ys \<Longrightarrow> xs = ys"
    by (auto simp: dll_def)
qed

subsection \<open>Removal\<close>

lemma fq_remove_same_data: "same_data (fst s) (fst (fq_remove b s))"
  by (cases s) (auto simp: fq_remove_def same_data_def Let_def split: option.splits)

lemma dll_middle:
  assumes "dll (st, q) (ys @ b # zs)"
  shows "prev_free_block (st b) = last_or ys None" "next_free_block (st b) = first_or zs None"
    and "last_or ys None \<noteq> Some b" "first_or zs None \<noteq> Some b"
proof -
  show "prev_free_block (st b) = last_or ys None" "next_free_block (st b) = first_or zs None"
    using assms by (simp_all add: dll_def linked_append)
  have "distinct (ys @ b # zs)" using assms by (rule dll_distinct)
  then show "last_or ys None \<noteq> Some b" "first_or zs None \<noteq> Some b"
    by (auto simp: last_or_def first_or_def split: list.splits)
qed

text \<open>The store after a removal, with the neighbours read off the list.\<close>

lemma fq_remove_links:
  assumes d: "dll (st, q) (ys @ b # zs)"
  shows "fst (fq_remove b (st, q)) =
    (let st1 = (case last_or ys None of None \<Rightarrow> st
                | Some p \<Rightarrow> st(p := (st p)\<lparr>next_free_block := first_or zs None\<rparr>));
         st2 = (case first_or zs None of None \<Rightarrow> st1
                | Some n \<Rightarrow> st1(n := (st1 n)\<lparr>prev_free_block := last_or ys None\<rparr>))
     in st2(b := (st2 b)\<lparr>prev_free_block := None, next_free_block := None\<rparr>))"
  using dll_middle [OF d] by (auto simp: fq_remove_def Let_def split: option.splits)

lemma fq_remove_linked:
  assumes d: "dll (st, q) (ys @ b # zs)"
  shows "linked (fst (fq_remove b (st, q))) None (ys @ zs) None"
proof -
  let ?p = "last_or ys None" and ?n = "first_or zs None"
  from d have dist: "distinct (ys @ b # zs)" and ly: "linked st None ys (Some b)"
    and lz: "linked st (Some b) zs None"
    by (auto simp: dll_def linked_append)
  let ?s1 = "case ?p of None \<Rightarrow> st | Some p \<Rightarrow> st(p := (st p)\<lparr>next_free_block := ?n\<rparr>)"
  have y1: "linked ?s1 None ys ?n"
    using ly dist by (cases ys rule: rev_cases) (auto simp: linked_set_next)
  have z1: "linked ?s1 (Some b) zs None"
    using lz dist by (cases ys rule: rev_cases) (auto simp: linked_upd_other)
  let ?s2 = "case ?n of None \<Rightarrow> ?s1 | Some n \<Rightarrow> ?s1(n := (?s1 n)\<lparr>prev_free_block := ?p\<rparr>)"
  have y2: "linked ?s2 None ys ?n"
    using y1 dist by (cases zs) (auto simp: linked_upd_other)
  have z2: "linked ?s2 ?p zs None"
    using z1 dist by (cases zs) (simp_all add: linked_upd_other)
  let ?s3 = "?s2(b := (?s2 b)\<lparr>prev_free_block := None, next_free_block := None\<rparr>)"
  have "linked ?s3 None ys ?n" "linked ?s3 ?p zs None"
    using y2 z2 dist by (simp_all add: linked_upd_other)
  then show ?thesis
    unfolding fq_remove_links [OF d] by (simp add: Let_def linked_append)
qed

lemma fq_remove_dll:
  assumes d: "dll (st, q) (ys @ b # zs)"
  shows "dll (fq_remove b (st, q)) (ys @ zs)"
proof -
  obtain st' q' where s': "fq_remove b (st, q) = (st', q')" by fastforce
  from d have dist: "distinct (ys @ b # zs)"
    and hd: "free_list_head q = first_or (ys @ b # zs) None"
    and tl: "free_list_tail q = last_or (ys @ b # zs) None"
    and num: "num_free_blocks q = int (length (ys @ b # zs))"
    by (auto simp: dll_def)
  note mid = dll_middle [OF d]
  have "free_list_head q' = first_or (ys @ zs) None"
    using s' hd mid dist
    by (cases ys) (auto simp: fq_remove_def Let_def split: option.splits if_splits)
  moreover have "free_list_tail q' = last_or (ys @ zs) None"
    using s' tl mid dist
    by (cases zs rule: rev_cases)
      (auto simp: fq_remove_def Let_def last_or_def split: option.splits if_splits)
  moreover have "num_free_blocks q' = int (length (ys @ zs))"
    using s' num by (auto simp: fq_remove_def Let_def split: option.splits if_splits)
  moreover have "linked st' None (ys @ zs) None"
    using fq_remove_linked [OF d] s' by simp
  moreover have "prev_free_block (st' c) = None \<and> next_free_block (st' c) = None"
    if "c \<notin> set (ys @ zs)" for c
  proof -
    have "last_or ys None \<noteq> Some c" "first_or zs None \<noteq> Some c"
      using that by (auto simp: last_or_def first_or_def split: list.splits)
    moreover have "c = b \<or> prev_free_block (st c) = None \<and> next_free_block (st c) = None"
      using d that by (auto simp: dll_def)
    ultimately show ?thesis
      using fq_remove_links [OF d] s' by (auto simp: Let_def split: option.splits)
  qed
  ultimately show ?thesis using dist s' by (simp add: dll_def)
qed

lemma fq_remove_mem:
  assumes "dll s xs" "b \<in> set xs"
  shows "dll (fq_remove b s) (remove1 b xs)"
proof -
  from assms(2) obtain ys zs where xs: "xs = ys @ b # zs" by (meson split_list)
  then have "b \<notin> set ys" using assms(1) by (auto simp: dll_def)
  then show ?thesis
    using fq_remove_dll [of "fst s" "snd s" ys b zs] assms(1) xs by (simp add: remove1_append)
qed

subsection \<open>Popping, appending, initialisation, walking\<close>

lemma fq_popleft_Cons:
  "dll s (x # xs) \<Longrightarrow> \<exists>s'. fq_popleft s = Inr (x, s') \<and> dll s' xs \<and> same_data (fst s) (fst s')"
  using fq_remove_dll [of "fst s" "snd s" "[]" x xs] fq_remove_same_data [of s x]
  by (auto simp: fq_popleft_def dll_def)

lemma fq_popleft_same_data: "fq_popleft s = Inr (b, s') \<Longrightarrow> same_data (fst s) (fst s')"
  by (auto simp: fq_popleft_def fq_remove_same_data split: option.splits)

lemma fq_popleft_Nil: "dll s [] \<Longrightarrow> fq_popleft s = Inl ValueError"
  by (simp add: fq_popleft_def dll_def)

lemma fq_append_dll:
  assumes d: "dll s xs" and b: "b \<notin> set xs"
  shows "\<exists>s'. fq_append b s = Inr s' \<and> dll s' (xs @ [b]) \<and> same_data (fst s) (fst s')"
proof (cases xs rule: rev_cases)
  case Nil
  with d show ?thesis
    by (cases s) (auto simp: fq_append_def dll_def same_data_def)
next
  case (snoc ys t)
  obtain st q where s: "s = (st, q)" by fastforce
  let ?st1 = "st(t := (st t)\<lparr>next_free_block := Some b\<rparr>)"
  let ?st2 = "?st1(b := (?st1 b)\<lparr>prev_free_block := Some t\<rparr>)"
  let ?st3 = "?st2(b := (?st2 b)\<lparr>next_free_block := None\<rparr>)"
  from b snoc have tb: "t \<noteq> b" "b \<notin> set ys" by auto
  from d s snoc have l: "linked st None (ys @ [t]) None" "distinct (ys @ [t])"
    by (auto simp: dll_def)
  have "linked ?st1 None (ys @ [t]) (Some b)"
    using linked_set_next [OF l] by simp
  then have "linked ?st3 None (ys @ [t]) (Some b)"
    using b snoc by (simp add: linked_upd_other del: fun_upd_apply)
  then have "linked ?st3 None ((ys @ [t]) @ [b]) None"
    unfolding linked_append by simp
  moreover have "fq_append b s = Inr (?st3, q\<lparr>free_list_tail := Some b,
      num_free_blocks := num_free_blocks q + 1\<rparr>)"
    using d s snoc by (simp add: fq_append_def dll_def Let_def)
  moreover have "same_data st ?st3"
    by (simp add: same_data_def)
  moreover have "first_or (ys @ [t]) None = first_or ((ys @ [t]) @ [b]) None"
    by (cases ys) simp_all
  moreover have "last_or ((ys @ [t]) @ [b]) None = Some b"
    by (simp only: last_or_simps)
  ultimately show ?thesis
    using d s snoc b by (auto simp: dll_def)
qed

lemma fold_link_block:
  "k \<le> n \<Longrightarrow> fold (link_block n) [0..<k] st b =
     (if b < k then (st b)\<lparr>prev_free_block := (if b > 0 then Some (b - 1) else prev_free_block (st b)),
        next_free_block := (if Suc b < n then Some (Suc b) else next_free_block (st b))\<rparr>
      else st b)"
  by (induction k) (auto simp: link_block_def Let_def less_Suc_eq)

lemma linked_upt:
  assumes "\<And>b. i \<le> b \<Longrightarrow> b < n \<Longrightarrow> prev_free_block (st b) = (if b = i then p else Some (b - 1))
      \<and> next_free_block (st b) = (if Suc b < n then Some (Suc b) else None)"
  shows "linked st p [i..<n] None"
  using assms
proof (induction "n - i" arbitrary: i p)
  case (Suc k)
  then have "i < n" by simp
  then have eq: "[i..<n] = i # [Suc i..<n]" by (rule upt_conv_Cons)
  have "linked st (Some i) [Suc i..<n] None"
    by (rule Suc.hyps(1)) (use Suc in auto)
  moreover have "first_or [Suc i..<n] None = (if Suc i < n then Some (Suc i) else None)"
    using upt_conv_Cons [of "Suc i" n] by simp
  ultimately show ?case using Suc.prems [of i] \<open>i < n\<close> by (simp add: eq)
qed simp

lemma fq_init_dll:
  assumes "0 < n" and det: "\<And>b. prev_free_block (st b) = None \<and> next_free_block (st b) = None"
  shows "\<exists>s. fq_init n st = Inr s \<and> dll s [0..<n] \<and> same_data st (fst s)"
proof -
  let ?st = "fold (link_block n) [0..<n] st"
  have st: "?st b = (if b < n then (st b)\<lparr>prev_free_block := (if b > 0 then Some (b - 1) else None),
        next_free_block := (if Suc b < n then Some (Suc b) else None)\<rparr> else st b)" for b
    using fold_link_block [of n n st b] det by simp
  have "linked ?st None [0..<n] None"
    by (rule linked_upt) (simp add: st)
  moreover have "first_or [0..<n] None = Some 0" "last_or [0..<n] None = Some (n - 1)"
    using assms(1) by (simp_all add: upt_conv_Cons [of 0 n] last_or_def del: upt_Suc)
  moreover have "prev_free_block (?st b) = None \<and> next_free_block (?st b) = None" if "\<not> b < n" for b
    using that det by (simp add: st)
  moreover have "same_data st ?st"
    by (simp add: same_data_def st)
  ultimately show ?thesis
    using assms(1) by (simp add: fq_init_def dll_def)
qed

lemma walk_free_linked:
  "linked st p xs None \<Longrightarrow> walk_free st acc (first_or xs None) = Some (acc @ xs)"
proof (induction xs arbitrary: p acc)
  case Nil
  then show ?case by (simp add: walk_free.simps)
next
  case (Cons x xs)
  then have "walk_free st (acc @ [x]) (first_or xs None) = Some ((acc @ [x]) @ xs)"
    by (intro Cons.IH [of "Some x"]) simp
  with Cons.prems show ?case by (subst walk_free.simps) simp
qed

lemma get_all_free_blocks_dll: "dll s xs \<Longrightarrow> get_all_free_blocks s = Some xs"
  using walk_free_linked [of "fst s" None xs "[]"] by (simp add: get_all_free_blocks_def dll_def)

section \<open>The queue interface\<close>

text \<open>
  What a client of \<open>FreeKVCacheBlockQueue\<close> relies on: a first-in first-out list of distinct
  blocks from which any member can be removed.
\<close>

locale block_queue =
  fixes repr :: "'s \<Rightarrow> nat list \<Rightarrow> bool"
    and popleft :: "'s \<Rightarrow> (nat \<times> 's) result"
    and remove :: "nat \<Rightarrow> 's \<Rightarrow> 's"
    and append :: "nat \<Rightarrow> 's \<Rightarrow> 's result"
    and num :: "'s \<Rightarrow> int"
  assumes num: "repr s xs \<Longrightarrow> num s = int (length xs)"
    and distinct: "repr s xs \<Longrightarrow> distinct xs"
    and popleft_Nil: "repr s [] \<Longrightarrow> popleft s = Inl ValueError"
    and popleft_Cons: "repr s (x # xs) \<Longrightarrow> \<exists>s'. popleft s = Inr (x, s') \<and> repr s' xs"
    and remove: "repr s xs \<Longrightarrow> b \<in> set xs \<Longrightarrow> repr (remove b s) (remove1 b xs)"
    and append: "repr s xs \<Longrightarrow> b \<notin> set xs \<Longrightarrow> \<exists>s'. append b s = Inr s' \<and> repr s' (xs @ [b])"
begin

fun pop_many :: "nat \<Rightarrow> 's \<Rightarrow> (nat list \<times> 's) result" where
  "pop_many 0 s = Inr ([], s)"
| "pop_many (Suc k) s = andthen (popleft s) (\<lambda>(b, s).
     andthen (pop_many k s) (\<lambda>(bs, s). Inr (b # bs, s)))"

lemma append_many:
  "repr s xs \<Longrightarrow> distinct bs \<Longrightarrow> set bs \<inter> set xs = {} \<Longrightarrow>
   \<exists>s'. fold_result append bs s = Inr s' \<and> repr s' (xs @ bs)"
proof (induction bs arbitrary: s xs)
  case (Cons b bs)
  from append [of s xs b] Cons.prems obtain s' where
    s': "append b s = Inr s'" "repr s' (xs @ [b])" by auto
  from Cons.IH [OF s'(2)] Cons.prems obtain t where
    "fold_result append bs s' = Inr t" "repr t ((xs @ [b]) @ bs)" by auto
  with s' show ?case by simp
qed simp

lemma pop_many_take:
  "repr s xs \<Longrightarrow> k \<le> length xs \<Longrightarrow> \<exists>s'. pop_many k s = Inr (take k xs, s') \<and> repr s' (drop k xs)"
proof (induction k arbitrary: s xs)
  case (Suc k)
  then obtain x ys where xs: "xs = x # ys" by (cases xs) auto
  with popleft_Cons Suc.prems obtain s' where s': "popleft s = Inr (x, s')" "repr s' ys" by blast
  with Suc xs show ?case by fastforce
qed simp

lemma pop_many_underflow:
  "repr s xs \<Longrightarrow> length xs < k \<Longrightarrow> pop_many k s = Inl ValueError"
proof (induction k arbitrary: s xs)
  case (Suc k)
  show ?case
  proof (cases xs)
    case Nil
    with Suc.prems show ?thesis by (simp add: popleft_Nil)
  next
    case (Cons x ys)
    with popleft_Cons Suc.prems obtain s' where "popleft s = Inr (x, s')" "repr s' ys" by blast
    with Suc Cons show ?thesis by simp
  qed
qed simp

text \<open>Blocks given back are handed out again last, in the order they were given back.\<close>

lemma fifo:
  assumes "repr s xs" "distinct bs" "set bs \<inter> set xs = {}" "fold_result append bs s = Inr s'"
  shows "\<exists>t. pop_many (length xs + length bs) s' = Inr (xs @ bs, t) \<and> repr t []"
  using append_many [OF assms(1-3)] assms(4) pop_many_take [of s' "xs @ bs" "length xs + length bs"]
  by auto

end

interpretation fq: block_queue dll fq_popleft fq_remove fq_append "\<lambda>s. num_free_blocks (snd s)"
proof unfold_locales
  fix s xs
  show "dll s xs \<Longrightarrow> num_free_blocks (snd s) = int (length xs)" by (rule dll_num)
  show "dll s xs \<Longrightarrow> distinct xs" by (rule dll_distinct)
  show "dll s [] \<Longrightarrow> fq_popleft s = Inl ValueError" by (rule fq_popleft_Nil)
  show "dll s (x # xs) \<Longrightarrow> \<exists>s'. fq_popleft s = Inr (x, s') \<and> dll s' xs" for x
    using fq_popleft_Cons by blast
  show "dll s xs \<Longrightarrow> b \<in> set xs \<Longrightarrow> dll (fq_remove b s) (remove1 b xs)" for b
    by (rule fq_remove_mem)
  show "dll s xs \<Longrightarrow> b \<notin> set xs \<Longrightarrow> \<exists>s'. fq_append b s = Inr s' \<and> dll s' (xs @ [b])" for b
    using fq_append_dll by blast
qed

section \<open>Facts on block hashes\<close>

definition block_extra_keys ::
  "request \<Rightarrow> nat \<Rightarrow> nat \<Rightarrow> int \<Rightarrow> ((string \<times> int) list option \<times> int) result" where
  "block_extra_keys r bs start mm =
     (if mm_positions r \<noteq> []
      then generate_block_hash_extra_keys r (int start) (int (start + bs)) mm
      else Inr (None, mm))"

text \<open>A full block is hashed and the rest follows; an incomplete tail is not hashed.\<close>

lemma hash_blocks_from_full:
  assumes "0 < bs" "bs \<le> length toks"
  shows "hash_blocks_from hsh bs r start mm parent toks =
    andthen (block_extra_keys r bs start mm) (\<lambda>(keys, mm').
      let h = hash_block_tokens hsh parent (take bs toks) keys
      in andthen (hash_blocks_from hsh bs r (start + bs) mm' (Some (hash_value h)) (drop bs toks))
           (\<lambda>hs. Inr (h # hs)))"
  using assms
  by (subst hash_blocks_from.simps) (auto simp: block_extra_keys_def min_def)

lemma hash_blocks_from_short:
  "length toks < bs \<Longrightarrow> hash_blocks_from hsh bs r start mm parent toks = Inr []"
  by (subst hash_blocks_from.simps) (auto simp: min_def)

lemma hash_blocks_from_Cons:
  assumes "0 < bs" "hash_blocks_from hsh bs r start mm parent toks = Inr (h # hs)"
  obtains keys mm' where "bs \<le> length toks" "block_extra_keys r bs start mm = Inr (keys, mm')"
    "h = hash_block_tokens hsh parent (take bs toks) keys"
    "hash_blocks_from hsh bs r (start + bs) mm' (Some (hash_value h)) (drop bs toks) = Inr hs"
proof (cases "bs \<le> length toks")
  case True
  with assms that show ?thesis
    by (auto simp: hash_blocks_from_full Let_def split: prod.splits)
next
  case False
  with assms show ?thesis by (simp add: hash_blocks_from_short)
qed

lemma hash_blocks_from_Nil:
  assumes "0 < bs" "hash_blocks_from hsh bs r start mm parent toks = Inr []"
  shows "length toks < bs"
  using assms by (cases "bs \<le> length toks") (auto simp: hash_blocks_from_full Let_def split: prod.splits)

lemma hash_blocks_from_length:
  assumes "0 < bs" "hash_blocks_from hsh bs r start mm parent toks = Inr hs"
  shows "length hs = length toks div bs"
  using assms(2)
proof (induction hs arbitrary: start mm parent toks)
  case Nil
  then show ?case using hash_blocks_from_Nil [OF assms(1)] by simp
next
  case (Cons h hs)
  from assms(1) Cons.prems obtain mm' where "bs \<le> length toks"
    "hash_blocks_from hsh bs r (start + bs) mm' (Some (hash_value h)) (drop bs toks) = Inr hs"
    by (rule hash_blocks_from_Cons)
  with Cons.IH assms(1) show ?case by (simp add: le_div_geq)
qed

lemma hash_blocks_from_prefix:
  assumes "0 < bs"
    and "hash_blocks_from hsh bs r start mm parent toks = Inr hs"
    and "hash_blocks_from hsh bs r start mm parent (toks @ toks2) = Inr hs'"
  shows "\<exists>ext. hs' = hs @ ext"
  using assms(2,3)
proof (induction hs arbitrary: start mm parent toks hs')
  case (Cons h hs)
  from assms(1) Cons.prems(1) obtain keys mm' where 1: "bs \<le> length toks"
    "block_extra_keys r bs start mm = Inr (keys, mm')"
    "h = hash_block_tokens hsh parent (take bs toks) keys"
    "hash_blocks_from hsh bs r (start + bs) mm' (Some (hash_value h)) (drop bs toks) = Inr hs"
    by (rule hash_blocks_from_Cons)
  with Cons.prems(2) assms(1) obtain hs'' where "hs' = h # hs''"
    "hash_blocks_from hsh bs r (start + bs) mm' (Some (hash_value h)) (drop bs toks @ toks2) = Inr hs''"
    by (auto simp: hash_blocks_from_full Let_def)
  with Cons.IH [OF 1(4)] show ?case by simp
qed simp

text \<open>
  When the hash of a \<open>(parent, tokens)\<close> tuple determines the tuple, one equal block hash
  makes the whole token prefixes equal: the hash of a block covers all blocks before it.
\<close>

definition hash_injective :: "hash_fun \<Rightarrow> bool" where
  "hash_injective hsh \<longleftrightarrow> (\<forall>p ts p' ts'. hsh p ts = hsh p' ts' \<longrightarrow> p = p' \<and> ts = ts')"

definition countable_hash :: hash_fun where
  "countable_hash p ts = int (to_nat (p, ts))"

lemma countable_hash_injective: "hash_injective countable_hash"
  by (simp add: hash_injective_def countable_hash_def)

lemma hash_chain_sound_from:
  assumes inj: "hash_injective hsh" and bs: "0 < bs"
    and "hash_blocks_from hsh bs r start mm parent toks = Inr hs"
    and "hash_blocks_from hsh bs r' start' mm' parent' toks' = Inr hs'"
    and "k < length hs" "k < length hs'" "hash_value (hs ! k) = hash_value (hs' ! k)"
  shows "parent = parent' \<and> take (Suc k * bs) toks = take (Suc k * bs) toks'"
  using assms(3-7)
proof (induction k arbitrary: start mm parent toks hs start' mm' parent' toks' hs')
  case 0
  from "0.prems" obtain h t h' t' where "hs = h # t" "hs' = h' # t'"
    by (metis length_greater_0_conv neq_Nil_conv)
  with "0.prems" obtain keys keys' where
    "h = hash_block_tokens hsh parent (take bs toks) keys"
    "h' = hash_block_tokens hsh parent' (take bs toks') keys'"
    by (metis bs hash_blocks_from_Cons)
  with "0.prems"(5) \<open>hs = h # t\<close> \<open>hs' = h' # t'\<close> inj show ?case
    by (auto simp: hash_block_tokens_def hash_injective_def)
next
  case (Suc k)
  from Suc.prems obtain h t h' t' where hs: "hs = h # t" "hs' = h' # t'"
    by (metis Suc_less_eq2 length_Suc_conv)
  from hs(1) Suc.prems(1) obtain keys m1 where
    1: "h = hash_block_tokens hsh parent (take bs toks) keys"
    "hash_blocks_from hsh bs r (start + bs) m1 (Some (hash_value h)) (drop bs toks) = Inr t"
    by (metis bs hash_blocks_from_Cons)
  from hs(2) Suc.prems(2) obtain keys' m2 where
    2: "h' = hash_block_tokens hsh parent' (take bs toks') keys'"
    "hash_blocks_from hsh bs r' (start' + bs) m2 (Some (hash_value h')) (drop bs toks') = Inr t'"
    by (metis bs hash_blocks_from_Cons)
  from Suc.IH [OF 1(2) 2(2)] Suc.prems(3-5) hs
  have "hash_value h = hash_value h'"
    and rest: "take (Suc k * bs) (drop bs toks) = take (Suc k * bs) (drop bs toks')" by auto
  then have "parent = parent'" "take bs toks = take bs toks'"
    using 1 2 inj by (auto simp: hash_block_tokens_def hash_injective_def)
  moreover have "take (Suc (Suc k) * bs) ts = take bs ts @ take (Suc k * bs) (drop bs ts)"
    for ts :: "token list"
    by (simp only: mult_Suc [of "Suc k"] take_add)
  ultimately show ?case using rest by simp
qed

end
