(* ===== verification/KVCacheManager.thy ===== *)
theory KVCacheManager
  imports KVCacheUtils
begin

text \<open>
  \<^verbatim>\<open>src/vllm/v1/core/kv_cache_manager.py\<close>: the paired GPU and CPU block pools, prefix
  caching, slot allocation, and the swapping of whole requests between the pools.

  The manager object is the record \<open>kv_manager\<close>. The two pools and their queues are stores
  and queue heads of \<^verbatim>\<open>KVCacheUtils\<close>; a block is referred to by its id. The inner
  dictionaries of \<open>cached_block_hash_to_block\<close> map an id to the block with that id, so only
  their key order is kept. Methods that change the request they are given return it.
\<close>

section \<open>State\<close>

record kv_manager =
  block_size :: int
  num_gpu_blocks :: nat
  num_cpu_blocks :: nat
  kv_max_model_len :: int
  max_num_blocks_per_req :: int
  sliding_window :: "int option"
  enable_caching :: bool
  fix_wrong_prefix_caching :: bool
  num_preallocate_tokens :: int
  num_preallocate_blocks :: int
  pool :: block_store
  pool_cpu :: block_store
  queue :: free_queue
  queue_cpu :: free_queue
  cached_blocks :: "block_hash_type \<rightharpoonup> nat list"
  req_to_blocks :: "req_id \<rightharpoonup> nat list"
  req_to_blocks_cpu :: "req_id \<rightharpoonup> nat list"
  pending_swap_out :: "(nat \<times> nat) list"
  pending_swap_in :: "(nat \<times> nat) list"

text \<open>The pool operations of the previous theory, lifted to the manager.\<close>

definition upd_block :: "nat \<Rightarrow> (kv_block \<Rightarrow> kv_block) \<Rightarrow> kv_manager \<Rightarrow> kv_manager" where
  "upd_block b f m = m\<lparr>pool := (pool m)(b := f (pool m b))\<rparr>"

definition try_upd_block :: "nat \<Rightarrow> (kv_block \<Rightarrow> kv_block result) \<Rightarrow> kv_manager \<Rightarrow> kv_manager result" where
  "try_upd_block b f m = andthen (f (pool m b)) (\<lambda>blk. Inr (upd_block b (\<lambda>_. blk) m))"

definition gpu_popleft :: "kv_manager \<Rightarrow> (nat \<times> kv_manager) result" where
  "gpu_popleft m = andthen (fq_popleft (pool m, queue m))
     (\<lambda>(b, st, q). Inr (b, m\<lparr>pool := st, queue := q\<rparr>))"

definition gpu_remove :: "nat \<Rightarrow> kv_manager \<Rightarrow> kv_manager" where
  "gpu_remove b m = (case fq_remove b (pool m, queue m) of (st, q) \<Rightarrow> m\<lparr>pool := st, queue := q\<rparr>)"

definition gpu_append :: "nat \<Rightarrow> kv_manager \<Rightarrow> kv_manager result" where
  "gpu_append b m = andthen (fq_append b (pool m, queue m))
     (\<lambda>(st, q). Inr (m\<lparr>pool := st, queue := q\<rparr>))"

definition cpu_popleft :: "kv_manager \<Rightarrow> (nat \<times> kv_manager) result" where
  "cpu_popleft m = andthen (fq_popleft (pool_cpu m, queue_cpu m))
     (\<lambda>(b, st, q). Inr (b, m\<lparr>pool_cpu := st, queue_cpu := q\<rparr>))"

definition cpu_append :: "nat \<Rightarrow> kv_manager \<Rightarrow> kv_manager result" where
  "cpu_append b m = andthen (fq_append b (pool_cpu m, queue_cpu m))
     (\<lambda>(st, q). Inr (m\<lparr>pool_cpu := st, queue_cpu := q\<rparr>))"

definition kv_incr_ref :: "nat \<Rightarrow> kv_manager \<Rightarrow> kv_manager" where
  "kv_incr_ref b m = (case incr_ref b (pool m, pool_cpu m) of (g, c) \<Rightarrow> m\<lparr>pool := g, pool_cpu := c\<rparr>)"

definition kv_decr_ref :: "bool \<Rightarrow> nat \<Rightarrow> kv_manager \<Rightarrow> kv_manager" where
  "kv_decr_ref keep_cpu b m =
     (case decr_ref keep_cpu b (pool m, pool_cpu m) of (g, c) \<Rightarrow> m\<lparr>pool := g, pool_cpu := c\<rparr>)"

definition cpu_decr_ref :: "nat \<Rightarrow> kv_manager \<Rightarrow> kv_manager" where
  "cpu_decr_ref c m = m\<lparr>pool_cpu := add_ref (-1) c (pool_cpu m)\<rparr>"

text \<open>An attribute of \<^verbatim>\<open>None\<close> raises.\<close>

definition mapped_of :: "nat \<Rightarrow> kv_manager \<Rightarrow> nat result" where
  "mapped_of b m = (case mapped_cpu_block (pool m b) of None \<Rightarrow> Inl AttributeError | Some c \<Rightarrow> Inr c)"

definition lookup_key :: "('k \<rightharpoonup> 'v) \<Rightarrow> 'k \<Rightarrow> 'v result" where
  "lookup_key d k = (case d k of None \<Rightarrow> Inl KeyError | Some v \<Rightarrow> Inr v)"

section \<open>Construction\<close>

definition init_block :: "nat \<Rightarrow> kv_manager \<Rightarrow> kv_manager result" where
  "init_block b m =
     andthen (cpu_popleft (upd_block b mark_free m))
       (\<lambda>(c, m). Inr (upd_block b (\<lambda>blk. blk\<lparr>mapped_cpu_block := Some c\<rparr>) m))"

definition kv_init ::
  "int \<Rightarrow> nat \<Rightarrow> nat \<Rightarrow> int \<Rightarrow> int option \<Rightarrow> bool \<Rightarrow> int \<Rightarrow> bool \<Rightarrow> kv_manager result" where
  "kv_init bs n_gpu n_cpu mml window caching prealloc fix_flag =
     (if bs = 0 then Inl ZeroDivisionError else
      andthen (fq_init n_gpu (\<lambda>_. new_block)) (\<lambda>(gst, gq).
      andthen (fq_init n_cpu (\<lambda>_. new_block)) (\<lambda>(cst, cq).
        fold_result init_block [0..<n_gpu]
          \<lparr>block_size = bs, num_gpu_blocks = n_gpu, num_cpu_blocks = n_cpu,
           kv_max_model_len = mml, max_num_blocks_per_req = cdiv mml bs,
           sliding_window = window, enable_caching = caching,
           fix_wrong_prefix_caching = fix_flag, num_preallocate_tokens = prealloc,
           num_preallocate_blocks = cdiv prealloc bs,
           pool = gst, pool_cpu = cst, queue = gq, queue_cpu = cq,
           cached_blocks = Map.empty, req_to_blocks = Map.empty,
           req_to_blocks_cpu = Map.empty, pending_swap_out = [], pending_swap_in = []\<rparr>)))"

definition get_and_reset_pending_blocks_to_swap_in ::
  "kv_manager \<Rightarrow> (nat \<times> nat) list \<times> kv_manager" where
  "get_and_reset_pending_blocks_to_swap_in m = (pending_swap_in m, m\<lparr>pending_swap_in := []\<rparr>)"

definition get_and_reset_pending_blocks_to_swap_out ::
  "kv_manager \<Rightarrow> (nat \<times> nat) list \<times> kv_manager" where
  "get_and_reset_pending_blocks_to_swap_out m = (pending_swap_out m, m\<lparr>pending_swap_out := []\<rparr>)"

section \<open>Prefix cache\<close>

definition get_cached_block :: "kv_manager \<Rightarrow> block_hash_type \<Rightarrow> nat option result" where
  "get_cached_block m h =
     (case cached_blocks m h of
        None \<Rightarrow> Inr None
      | Some [] \<Rightarrow> Inl IndexError
      | Some (b # _) \<Rightarrow> Inr (Some b))"

fun cached_prefix :: "kv_manager \<Rightarrow> block_hash_type list \<Rightarrow> nat list result" where
  "cached_prefix m [] = Inr []"
| "cached_prefix m (h # hs) =
     andthen (get_cached_block m h) (\<lambda>c.
       case c of None \<Rightarrow> Inr []
       | Some b \<Rightarrow> andthen (cached_prefix m hs) (\<lambda>bs. Inr (b # bs)))"

definition get_computed_blocks ::
  "hash_fun \<Rightarrow> request \<Rightarrow> kv_manager \<Rightarrow> (nat list \<times> request) result" where
  "get_computed_blocks hsh r m =
     (if \<not> enable_caching m then Inr ([], r)
      else
        andthen
          (if kv_block_hashes r = []
           then andthen (hash_request_tokens hsh (block_size m) r)
                  (\<lambda>hs. Inr (set_kv_block_hashes hs r))
           else Inr r)
          (\<lambda>r. andthen (cached_prefix m (kv_block_hashes r)) (\<lambda>bs. Inr (bs, r))))"

definition evict_cached_block :: "nat \<Rightarrow> kv_manager \<Rightarrow> kv_manager result" where
  "evict_cached_block b m =
     (case block_hash (pool m b) of
        None \<Rightarrow> Inr m
      | Some h \<Rightarrow>
          (case cached_blocks m h of
             None \<Rightarrow> Inr m
           | Some ids \<Rightarrow>
               let m1 = upd_block b reset_hash m in
               if b \<notin> set ids then Inl KeyError
               else
                 let ids' = remove1 b ids
                 in Inr (m1\<lparr>cached_blocks :=
                      (if ids' = [] then (cached_blocks m1)(h := None)
                       else (cached_blocks m1)(h \<mapsto> ids'))\<rparr>)))"

definition touch_block :: "nat \<Rightarrow> kv_manager \<Rightarrow> kv_manager result" where
  "touch_block b m =
     andthen
       (if ref_cnt (pool m b) = 0
        then try_upd_block b (mark_full True False False) (gpu_remove b m)
        else Inr m)
       (\<lambda>m. Inr (kv_incr_ref b m))"

definition touch :: "nat list \<Rightarrow> kv_manager \<Rightarrow> kv_manager result" where
  "touch bs m = fold_result touch_block bs m"

text \<open>One iteration of \<open>_cache_full_blocks\<close>; the accumulator is (manager, request, previous hash).\<close>

definition cache_full_block ::
  "hash_fun \<Rightarrow> nat \<Rightarrow> nat \<times> nat \<Rightarrow> kv_manager \<times> request \<times> int option
   \<Rightarrow> (kv_manager \<times> request \<times> int option) result" where
  "cache_full_block hsh num_cached = (\<lambda>(blk_idx, b) (m, r, prev).
     andthen
       (if blk_idx < num_cached then Inr (kv_block_hashes r ! blk_idx, r)
        else
          let start_tok = int blk_idx * block_size m;
              end_tok = (int blk_idx + 1) * block_size m;
              toks = py_slice (all_ids r) start_tok end_tok
          in andthen (py_assert (int (length toks) = block_size m)) (\<lambda>_.
             andthen (generate_block_hash_extra_keys r start_tok end_tok (-1)) (\<lambda>(keys, _).
               let h = hash_block_tokens hsh prev toks keys
               in Inr (h, append_kv_block_hashes h r))))
       (\<lambda>(h, r).
          andthen (try_upd_block b (set_block_hash h) m) (\<lambda>m.
            Inr (m\<lparr>cached_blocks := (cached_blocks m)
                     (h \<mapsto> dict_add b (case cached_blocks m h of None \<Rightarrow> [] | Some ids \<Rightarrow> ids))\<rparr>,
                 r, Some (hash_value h)))))"

definition cache_full_blocks ::
  "hash_fun \<Rightarrow> request \<Rightarrow> nat \<Rightarrow> nat list \<Rightarrow> nat option \<Rightarrow> kv_manager
   \<Rightarrow> (request \<times> kv_manager) result" where
  "cache_full_blocks hsh r start blocks prev_block m =
     andthen
       (case prev_block of
          None \<Rightarrow> Inr None
        | Some p \<Rightarrow> (case block_hash (pool m p) of
                       None \<Rightarrow> Inl AssertionError
                     | Some h \<Rightarrow> Inr (Some (hash_value h))))
       (\<lambda>prev.
          andthen (fold_result (cache_full_block hsh (length (kv_block_hashes r)))
                     (zip [start..<start + length blocks] blocks) (m, r, prev))
            (\<lambda>(m, r, _). Inr (r, m)))"

section \<open>Taking blocks from the pool\<close>

text \<open>Copy on write: a block whose CPU block is still referenced gets a fresh one.\<close>

definition cow_cpu_mapping :: "nat \<Rightarrow> kv_manager \<Rightarrow> kv_manager result" where
  "cow_cpu_mapping b m =
     (case mapped_cpu_block (pool m b) of
        None \<Rightarrow> Inl AssertionError
      | Some c \<Rightarrow>
          if ref_cnt (pool_cpu m c) > 0
          then andthen (cpu_popleft m)
                 (\<lambda>(c', m). Inr (upd_block b (\<lambda>blk. blk\<lparr>mapped_cpu_block := Some c'\<rparr>) m))
          else Inr m)"

definition get_new_block :: "kv_manager \<Rightarrow> (nat \<times> kv_manager) result" where
  "get_new_block m =
     andthen (gpu_popleft m) (\<lambda>(b, m).
     let m = upd_block b mark_empty m in
     andthen (py_assert (ref_cnt (pool m b) = 0)) (\<lambda>_.
     andthen (cow_cpu_mapping b m) (\<lambda>m.
     andthen (if enable_caching m then evict_cached_block b m else Inr m) (\<lambda>m.
     Inr (b, kv_incr_ref b m)))))"

fun get_new_blocks_loop :: "nat \<Rightarrow> kv_manager \<Rightarrow> (nat list \<times> kv_manager) result" where
  "get_new_blocks_loop 0 m = Inr ([], m)"
| "get_new_blocks_loop (Suc k) m =
     andthen (get_new_block m) (\<lambda>(b, m).
     andthen (get_new_blocks_loop k m) (\<lambda>(bs, m). Inr (b # bs, m)))"

definition get_new_blocks :: "int \<Rightarrow> kv_manager \<Rightarrow> (nat list \<times> kv_manager) result" where
  "get_new_blocks n m =
     (if n > num_free_blocks (queue m) then Inl ValueError else get_new_blocks_loop (nat n) m)"

section \<open>Slots\<close>

definition get_append_slots_num_new_blocks :: "request \<Rightarrow> int \<Rightarrow> kv_manager \<Rightarrow> int result" where
  "get_append_slots_num_new_blocks r n m =
     andthen (lookup_key (req_to_blocks m) (request_id r)) (\<lambda>bs.
       Inr (max (cdiv (num_computed_tokens r + n) (block_size m) - int (length bs)) 0))"

text \<open>The marking and queueing of the blocks that became full, and of the partially filled ones.\<close>

definition mark_cached_block :: "nat \<Rightarrow> kv_manager \<Rightarrow> kv_manager result" where
  "mark_cached_block b m =
     andthen (try_upd_block b (mark_full True False False) m) (\<lambda>m.
     andthen (mapped_of b m) (\<lambda>c.
       Inr (m\<lparr>pending_swap_out := pending_swap_out m @ [(b, c)]\<rparr>)))"

definition append_slots_caching ::
  "hash_fun \<Rightarrow> request \<Rightarrow> int \<Rightarrow> int \<Rightarrow> nat list \<Rightarrow> kv_manager \<Rightarrow> (request \<times> kv_manager) result" where
  "append_slots_caching hsh r n num_required req_blocks m =
     (if fix_wrong_prefix_caching m then
        let num_cached_full = num_cached_tokens r div block_size m;
            num_hashable = min (num_computed_tokens r) (int (length (all_ids r)));
            num_hashable_full = num_hashable div block_size m;
            new_full = py_slice req_blocks num_cached_full num_hashable_full
        in andthen
             (if new_full \<noteq> []
              then andthen
                (cache_full_blocks hsh r (nat num_cached_full) new_full
                   (if num_cached_full \<ge> 1 then Some (req_blocks ! nat (num_cached_full - 1)) else None) m)
                (\<lambda>(r, m). Inr (r\<lparr>num_cached_tokens := num_hashable_full * block_size m\<rparr>, m))
              else Inr (r, m))
             (\<lambda>(r, m).
                andthen (fold_result mark_cached_block new_full m) (\<lambda>m.
                andthen (fold_result (\<lambda>b. try_upd_block b (mark_half False True False))
                           (py_slice req_blocks num_hashable_full num_required) m)
                  (\<lambda>m. Inr (r, m))))
      else
        let num_computed_full = num_computed_tokens r div block_size m;
            num_full_after = (num_computed_tokens r + n) div block_size m
        in andthen (py_assert (num_full_after \<le> int (length req_blocks))) (\<lambda>_.
             let new_full = py_slice req_blocks num_computed_full num_full_after
             in if new_full \<noteq> []
                then cache_full_blocks hsh r (nat num_computed_full) new_full
                       (if num_computed_full \<ge> 1 then Some (req_blocks ! nat (num_computed_full - 1))
                        else None) m
                else Inr (r, m)))"

text \<open>
  The new blocks of \<open>append_slots\<close>: none when the table already suffices, else with the
  preallocated ones, as far as the pool and the table length allow.
\<close>

definition append_new_blocks ::
  "req_id \<Rightarrow> nat list \<Rightarrow> int \<Rightarrow> kv_manager \<Rightarrow> (nat list \<times> kv_manager) result" where
  "append_new_blocks rid req_blocks num_new m =
     (if num_new \<le> 0 then Inr ([], m)
      else
        let k = min (min (num_new + num_preallocate_blocks m) (num_free_blocks (queue m)))
                    (max_num_blocks_per_req m - int (length req_blocks))
        in andthen (py_assert (k > 0)) (\<lambda>_.
           andthen (get_new_blocks k m) (\<lambda>(new_blocks, m).
             Inr (new_blocks,
                  m\<lparr>req_to_blocks := (req_to_blocks m)(rid \<mapsto> req_blocks @ new_blocks)\<rparr>))))"

definition append_slots ::
  "hash_fun \<Rightarrow> request \<Rightarrow> int \<Rightarrow> kv_manager \<Rightarrow> (nat list option \<times> request \<times> kv_manager) result" where
  "append_slots hsh r n m =
     andthen (lookup_key (req_to_blocks m) (request_id r)) (\<lambda>req_blocks.
     let num_required = cdiv (num_computed_tokens r + n) (block_size m);
         num_new = num_required - int (length req_blocks)
     in if num_new > num_free_blocks (queue m) then Inr (None, r, m)
        else
          andthen (append_new_blocks (request_id r) req_blocks num_new m) (\<lambda>(new_blocks, m).
            if \<not> enable_caching m then Inr (Some new_blocks, r, m)
            else andthen (append_slots_caching hsh r n num_required (req_blocks @ new_blocks) m)
                   (\<lambda>(r, m). Inr (Some new_blocks, r, m))))"

definition get_allocated_slots_num_new_blocks :: "int \<Rightarrow> nat list \<Rightarrow> kv_manager \<Rightarrow> int" where
  "get_allocated_slots_num_new_blocks n computed m =
     (if n = 0 then 0
      else min (cdiv n (block_size m)) (max_num_blocks_per_req m - int (length computed)))"

definition allocate_slots_caching ::
  "hash_fun \<Rightarrow> request \<Rightarrow> int \<Rightarrow> int \<Rightarrow> nat list \<Rightarrow> nat list \<Rightarrow> kv_manager \<Rightarrow> (request \<times> kv_manager) result" where
  "allocate_slots_caching hsh r n num_required computed new_blocks m =
     (if fix_wrong_prefix_caching m then
        andthen
          (fold_result (\<lambda>i m. if i < length new_blocks
              then try_upd_block (new_blocks ! i) (mark_half False True False) m
              else Inl IndexError) [0..<nat num_required] m)
          (\<lambda>m. Inr (r\<lparr>num_cached_tokens := int (length computed) * block_size m\<rparr>, m))
      else
        let num_full = (int (length computed) * block_size m + n) div block_size m;
            new_full = py_slice (computed @ new_blocks) (int (length computed)) num_full
        in if new_full \<noteq> []
           then cache_full_blocks hsh r (length computed) new_full
                  (if computed \<noteq> [] then Some (last computed) else None) m
           else Inr (r, m))"

text \<open>The first phase of \<open>allocate_slots\<close>: take the cached blocks before anything is checked.\<close>

definition touch_computed :: "nat list \<Rightarrow> kv_manager \<Rightarrow> kv_manager result" where
  "touch_computed computed m =
     (if enable_caching m then touch computed m
      else andthen (py_assert (computed = [])) (\<lambda>_. Inr m))"

definition allocate_slots ::
  "hash_fun \<Rightarrow> request \<Rightarrow> int \<Rightarrow> nat list \<Rightarrow> bool \<Rightarrow> kv_manager
   \<Rightarrow> (nat list option \<times> request \<times> kv_manager) result" where
  "allocate_slots hsh r n computed no_preallocate m =
     (if n = 0 then Inl ValueError else
      andthen (touch_computed computed m) (\<lambda>m.
      let num_required = cdiv n (block_size m) in
      if num_required > num_free_blocks (queue m) then Inr (None, r, m)
      else
        let num_new = min (min (num_required + (if no_preallocate then 0 else num_preallocate_blocks m))
                               (num_free_blocks (queue m)))
                          (max_num_blocks_per_req m - int (length computed))
        in andthen (py_assert (num_new > 0)) (\<lambda>_.
           andthen (get_new_blocks num_new m) (\<lambda>(new_blocks, m).
           let m = m\<lparr>req_to_blocks := (req_to_blocks m)(request_id r \<mapsto> computed @ new_blocks)\<rparr> in
           if \<not> enable_caching m then Inr (Some new_blocks, r, m)
           else andthen (allocate_slots_caching hsh r n num_required computed new_blocks m)
                  (\<lambda>(r, m). Inr (Some new_blocks, r, m))))))"

section \<open>Freeing and swapping\<close>

definition free_block :: "bool \<Rightarrow> bool \<Rightarrow> nat \<Rightarrow> kv_manager \<Rightarrow> kv_manager result" where
  "free_block keep_cpu swapped b m =
     (let m = kv_decr_ref keep_cpu b m in
      if ref_cnt (pool m b) = 0 then gpu_append b (upd_block b mark_free m)
      else if swapped then try_upd_block b mark_clean m
      else Inr m)"

definition kv_free :: "req_id \<Rightarrow> bool \<Rightarrow> bool \<Rightarrow> kv_manager \<Rightarrow> kv_manager result" where
  "kv_free rid keep_cpu swapped m =
     (let blocks = (case req_to_blocks m rid of None \<Rightarrow> [] | Some bs \<Rightarrow> bs);
          m = m\<lparr>req_to_blocks := (req_to_blocks m)(rid := None)\<rparr>;
          ordered = (if enable_caching m then rev blocks else blocks)
      in fold_result (free_block keep_cpu swapped) ordered m)"

definition get_swap_in_num_new_blocks :: "req_id \<Rightarrow> nat list \<Rightarrow> kv_manager \<Rightarrow> int result" where
  "get_swap_in_num_new_blocks rid computed m =
     andthen (lookup_key (req_to_blocks_cpu m) rid) (\<lambda>cpu_blocks.
       Inr (get_allocated_slots_num_new_blocks
              ((int (length cpu_blocks) - int (length computed)) * block_size m) computed m))"

definition release_cpu_block :: "nat \<Rightarrow> kv_manager \<Rightarrow> kv_manager result" where
  "release_cpu_block c m =
     (let m = cpu_decr_ref c m
      in if ref_cnt (pool_cpu m c) = 0 then cpu_append c m else Inr m)"

definition relocate_block :: "nat \<times> nat \<Rightarrow> kv_manager \<Rightarrow> kv_manager result" where
  "relocate_block = (\<lambda>(g, c) m.
     (case mapped_cpu_block (pool m g) of
        None \<Rightarrow> Inl AssertionError
      | Some old \<Rightarrow>
          andthen (release_cpu_block old m)
            (\<lambda>m. Inr (upd_block g (\<lambda>blk. blk\<lparr>mapped_cpu_block := Some c\<rparr>) m))))"

definition restore_block :: "int \<Rightarrow> nat \<times> nat \<Rightarrow> kv_manager \<Rightarrow> kv_manager result" where
  "restore_block n_computed = (\<lambda>(blk_idx, b) m.
     (if int blk_idx * block_size m + 1 \<le> n_computed then
        andthen
          (if (int blk_idx + 1) * block_size m \<le> n_computed
           then try_upd_block b (mark_full True False False) m
           else try_upd_block b (mark_half False True False) m) (\<lambda>m.
        andthen (mapped_of b m) (\<lambda>c.
          Inr (m\<lparr>pending_swap_in := pending_swap_in m @ [(c, b)]\<rparr>)))
      else Inr (upd_block b mark_empty m)))"

definition swap_in ::
  "hash_fun \<Rightarrow> request \<Rightarrow> nat list \<Rightarrow> kv_manager \<Rightarrow> (nat list option \<times> request \<times> kv_manager) result" where
  "swap_in hsh r computed m =
     andthen (lookup_key (req_to_blocks_cpu m) (request_id r)) (\<lambda>cpu_blocks.
     andthen (allocate_slots hsh r
                ((int (length cpu_blocks) - int (length computed)) * block_size m) computed True m)
       (\<lambda>(new, r, m).
          case new of
            None \<Rightarrow> Inr (None, r, m)
          | Some new_blocks \<Rightarrow>
              andthen (fold_result release_cpu_block (take (length computed) cpu_blocks) m) (\<lambda>m.
              andthen (fold_result relocate_block (zip new_blocks (drop (length computed) cpu_blocks)) m) (\<lambda>m.
              andthen (fold_result (restore_block (num_computed_tokens r))
                         (zip [length computed..<length computed + length new_blocks] new_blocks) m) (\<lambda>m.
                Inr (Some new_blocks, r,
                     m\<lparr>req_to_blocks_cpu := (req_to_blocks_cpu m)(request_id r := None)\<rparr>))))))"

definition swap_out :: "req_id \<Rightarrow> kv_manager \<Rightarrow> (int \<times> kv_manager) result" where
  "swap_out rid m =
     (let start = num_free_blocks (queue m) in
      andthen (lookup_key (req_to_blocks m) rid) (\<lambda>gpu_blocks.
      let cpu_blocks = map (\<lambda>b. mapped_cpu_block (pool m b)) gpu_blocks in
      if None \<in> set cpu_blocks then Inl AttributeError
      else
        let m1 = m\<lparr>pending_swap_out := pending_swap_out m @
              map (\<lambda>b. (b, the (mapped_cpu_block (pool m b))))
                (filter (\<lambda>b. is_dirty (pool m b)) gpu_blocks)\<rparr>
        in andthen (kv_free rid True True m1) (\<lambda>m2.
             Inr (num_free_blocks (queue m2) - start,
                  m2\<lparr>req_to_blocks_cpu := (req_to_blocks_cpu m2)(rid \<mapsto> map the cpu_blocks)\<rparr>))))"

section \<open>Queries\<close>

definition get_num_blocks_to_free :: "req_id \<Rightarrow> kv_manager \<Rightarrow> int result" where
  "get_num_blocks_to_free rid m =
     andthen (lookup_key (req_to_blocks m) rid) (\<lambda>bs.
       Inr (int (length (filter (\<lambda>b. ref_cnt (pool m b) = 1) bs))))"

definition get_num_free_blocks :: "kv_manager \<Rightarrow> int" where
  "get_num_free_blocks m = num_free_blocks (queue m)"

definition get_kv_caches_usage :: "kv_manager \<Rightarrow> (rat \<times> rat) result" where
  "get_kv_caches_usage m =
     (if num_gpu_blocks m = 0 \<or> num_cpu_blocks m = 0 then Inl ZeroDivisionError
      else Inr (1 - of_int (num_free_blocks (queue m)) / of_nat (num_gpu_blocks m),
                1 - of_int (num_free_blocks (queue_cpu m)) / of_nat (num_cpu_blocks m)))"

text \<open>
  \<open>can_hold_all_requests\<close> reads the running requests and may cache block hashes in the waiting
  ones; requests are references into the store \<open>rs\<close>.
\<close>

fun hold_running :: "(nat \<Rightarrow> request) \<Rightarrow> kv_manager \<Rightarrow> nat list \<Rightarrow> int \<Rightarrow> int option result" where
  "hold_running rs m [] free = Inr (Some free)"
| "hold_running rs m (x # xs) free =
     andthen (get_append_slots_num_new_blocks (rs x) (num_tokens (rs x) - num_computed_tokens (rs x)) m)
       (\<lambda>n. if free - n < 0 then Inr None else hold_running rs m xs (free - n))"

fun hold_waiting ::
  "hash_fun \<Rightarrow> kv_manager \<Rightarrow> nat list \<Rightarrow> int \<Rightarrow> (nat \<Rightarrow> request) \<Rightarrow> (bool \<times> (nat \<Rightarrow> request)) result" where
  "hold_waiting hsh m [] free rs = Inr (True, rs)"
| "hold_waiting hsh m (x # xs) free rs =
     andthen (get_computed_blocks hsh (rs x) m) (\<lambda>(computed, r).
       let rs = rs(x := r);
           n = get_allocated_slots_num_new_blocks
                 (num_tokens r - int (length computed) * block_size m) computed m
       in if free - n < 0 then Inr (False, rs) else hold_waiting hsh m xs (free - n) rs)"

definition can_hold_all_requests ::
  "hash_fun \<Rightarrow> nat list \<Rightarrow> nat list \<Rightarrow> (nat \<Rightarrow> request) \<Rightarrow> kv_manager
   \<Rightarrow> (bool \<times> (nat \<Rightarrow> request)) result" where
  "can_hold_all_requests hsh running waiting rs m =
     andthen (hold_running rs m running (num_free_blocks (queue m))) (\<lambda>free.
       case free of None \<Rightarrow> Inr (False, rs) | Some n \<Rightarrow> hold_waiting hsh m waiting n rs)"

end
