(* ===== verification/EncoderCache.thy ===== *)
theory EncoderCache
  imports Request
begin

text \<open>
  \<^verbatim>\<open>src/vllm/v1/core/encoder_cache_manager.py\<close>: the budget of encoder cache slots and
  the set of cached multi-modal inputs per request.

  The slot counter is right exactly when an input is allocated once and freed while it is
  cached; \<open>slots_ok\<close> states it against the token counts the requests report.
\<close>

section \<open>Operations\<close>

record encoder_cache =
  cache_size :: int
  num_free_slots :: int
  cached :: "req_id \<rightharpoonup> nat set"
  freed :: "(req_id \<times> nat) list"

definition encoder_cache_init :: "int \<Rightarrow> encoder_cache" where
  "encoder_cache_init n = \<lparr>cache_size = n, num_free_slots = n, cached = Map.empty, freed = []\<rparr>"

definition has_cache :: "request \<Rightarrow> nat \<Rightarrow> encoder_cache \<Rightarrow> bool" where
  "has_cache r i ec = (case cached ec (request_id r) of None \<Rightarrow> False | Some A \<Rightarrow> i \<in> A)"

definition can_allocate :: "request \<Rightarrow> nat \<Rightarrow> encoder_cache \<Rightarrow> bool result" where
  "can_allocate r i ec =
     andthen (get_num_encoder_tokens r i) (\<lambda>n. Inr (n \<le> num_free_slots ec))"

definition get_cached_input_ids :: "request \<Rightarrow> encoder_cache \<Rightarrow> nat set" where
  "get_cached_input_ids r ec = (case cached ec (request_id r) of None \<Rightarrow> {} | Some A \<Rightarrow> A)"

definition ec_allocate :: "request \<Rightarrow> nat \<Rightarrow> encoder_cache \<Rightarrow> encoder_cache result" where
  "ec_allocate r i ec =
     (let ec = ec\<lparr>cached := (cached ec)(request_id r \<mapsto> insert i (get_cached_input_ids r ec))\<rparr>
      in andthen (get_num_encoder_tokens r i)
           (\<lambda>n. Inr (ec\<lparr>num_free_slots := num_free_slots ec - n\<rparr>)))"

definition ec_free :: "request \<Rightarrow> nat \<Rightarrow> encoder_cache \<Rightarrow> encoder_cache result" where
  "ec_free r i ec =
     (case cached ec (request_id r) of
        None \<Rightarrow> Inr ec
      | Some A \<Rightarrow>
          let A' = A - {i};
              ec = ec\<lparr>cached := (cached ec)(request_id r := (if A' = {} then None else Some A'))\<rparr>
          in andthen (get_num_encoder_tokens r i) (\<lambda>n.
               Inr (ec\<lparr>num_free_slots := num_free_slots ec + n,
                      freed := freed ec @ [(request_id r, i)]\<rparr>)))"

definition get_freed_ids :: "encoder_cache \<Rightarrow> (req_id \<times> nat) list \<times> encoder_cache" where
  "get_freed_ids ec = (freed ec, ec\<lparr>freed := []\<rparr>)"

section \<open>Slot accounting\<close>

text \<open>
  \<open>tok rid i\<close> is the number of encoder tokens of input \<open>i\<close> of request \<open>rid\<close>; every
  request passed in must report it.
\<close>

definition entries :: "encoder_cache \<Rightarrow> (req_id \<times> nat) set" where
  "entries ec = {(rid, i). \<exists>A. cached ec rid = Some A \<and> i \<in> A}"

definition slots_ok :: "(req_id \<Rightarrow> nat \<Rightarrow> int) \<Rightarrow> encoder_cache \<Rightarrow> bool" where
  "slots_ok tok ec \<longleftrightarrow>
     finite (entries ec) \<and> (\<forall>rid A. cached ec rid = Some A \<longrightarrow> A \<noteq> {})
     \<and> num_free_slots ec = cache_size ec - (\<Sum>(rid, i) \<in> entries ec. tok rid i)"

definition reports :: "(req_id \<Rightarrow> nat \<Rightarrow> int) \<Rightarrow> request \<Rightarrow> bool" where
  "reports tok r \<longleftrightarrow>
     (\<forall>i < length (mm_positions r). range_length (mm_positions r ! i) = tok (request_id r) i)"

lemma has_cache_entries: "has_cache r i ec \<longleftrightarrow> (request_id r, i) \<in> entries ec"
  by (auto simp: has_cache_def entries_def split: option.splits)

lemma get_num_encoder_tokens_reports:
  "reports tok r \<Longrightarrow> get_num_encoder_tokens r i = Inr n \<Longrightarrow> n = tok (request_id r) i"
  by (auto simp: get_num_encoder_tokens_def reports_def split: if_splits)

lemma slots_ok_init: "slots_ok tok (encoder_cache_init n)"
  by (simp add: slots_ok_def encoder_cache_init_def entries_def)

lemma entries_allocate:
  "entries (ec\<lparr>cached := (cached ec)(request_id r \<mapsto> insert i (get_cached_input_ids r ec)),
     num_free_slots := n\<rparr>) = insert (request_id r, i) (entries ec)"
  by (auto simp: entries_def get_cached_input_ids_def split: option.splits if_splits)

lemma ec_allocate_slots_ok:
  assumes "slots_ok tok ec" "reports tok r" "\<not> has_cache r i ec" "ec_allocate r i ec = Inr ec'"
  shows "slots_ok tok ec'" "entries ec' = insert (request_id r, i) (entries ec)"
    "cache_size ec' = cache_size ec"
proof -
  from assms(4) have g: "get_num_encoder_tokens r i = Inr (tok (request_id r) i)"
    and ec': "ec' = ec\<lparr>cached := (cached ec)(request_id r \<mapsto> insert i (get_cached_input_ids r ec)),
        num_free_slots := num_free_slots ec - tok (request_id r) i\<rparr>"
    using get_num_encoder_tokens_reports [OF assms(2)] by (auto simp: ec_allocate_def Let_def)
  show e: "entries ec' = insert (request_id r, i) (entries ec)"
    unfolding ec' by (rule entries_allocate)
  show "cache_size ec' = cache_size ec" by (simp add: ec')
  have "\<forall>rid A. cached ec' rid = Some A \<longrightarrow> A \<noteq> {}"
    using assms(1) by (auto simp: ec' slots_ok_def)
  with e assms(1,3) show "slots_ok tok ec'"
    by (simp add: slots_ok_def has_cache_entries) (simp add: ec')
qed

lemma ec_free_slots_ok:
  assumes "slots_ok tok ec" "reports tok r" "has_cache r i ec" "ec_free r i ec = Inr ec'"
  shows "slots_ok tok ec'" "entries ec' = entries ec - {(request_id r, i)}"
    "cache_size ec' = cache_size ec"
proof -
  from assms(3) obtain A where A: "cached ec (request_id r) = Some A" "i \<in> A"
    by (auto simp: has_cache_def split: option.splits)
  from assms(4) A obtain n where n: "get_num_encoder_tokens r i = Inr n"
    and eq: "ec' = ec\<lparr>cached := (cached ec)(request_id r := (if A - {i} = {} then None else Some (A - {i}))),
        num_free_slots := num_free_slots ec + n, freed := freed ec @ [(request_id r, i)]\<rparr>"
    by (cases "get_num_encoder_tokens r i") (simp_all add: ec_free_def Let_def)
  have ec': "ec' = ec\<lparr>cached := (cached ec)(request_id r := (if A - {i} = {} then None else Some (A - {i}))),
        num_free_slots := num_free_slots ec + tok (request_id r) i, freed := freed ec @ [(request_id r, i)]\<rparr>"
    using eq get_num_encoder_tokens_reports [OF assms(2) n] by simp
  show e: "entries ec' = entries ec - {(request_id r, i)}"
    using A by (auto simp: ec' entries_def split: if_splits)
  show "cache_size ec' = cache_size ec" by (simp add: ec')
  have "\<forall>rid B. cached ec' rid = Some B \<longrightarrow> B \<noteq> {}"
    using assms(1) by (auto simp: ec' slots_ok_def split: if_splits)
  with e assms(1,3) show "slots_ok tok ec'"
    by (simp add: slots_ok_def has_cache_entries sum_diff1) (simp add: ec')
qed

text \<open>
  Freeing an input that is not cached, of a request that has another one cached, still gives
  its slots back.
\<close>

lemma ec_free_uncached:
  assumes "cached ec (request_id r) = Some A" "i \<notin> A" "A \<noteq> {}" "get_num_encoder_tokens r i = Inr n"
  shows "ec_free r i ec = Inr (ec\<lparr>num_free_slots := num_free_slots ec + n,
    freed := freed ec @ [(request_id r, i)]\<rparr>)"
  using assms by (simp add: ec_free_def Let_def) (simp add: fun_upd_idem)

end
