(* ===== verification/Scheduler.thy ===== *)
theory Scheduler
  imports KVCacheManager EncoderCache
begin

text \<open>
  \<^verbatim>\<open>src/vllm/v1/core/scheduler.py\<close>: the LVF scheduler with proactive swapping, look-ahead
  scheduling and preemption.

  \<open>Request\<close> and \<open>RunningRequestData\<close> objects are shared by reference (the queues, the
  dictionaries and the outputs of earlier steps hold the same object), so they live in the
  stores \<open>heap\<close> and \<open>data_heap\<close> and are referred to by address. \<^verbatim>\<open>time.time()\<close> is the
  parameter \<open>clk\<close>: its \<open>k\<close>-th call returns \<open>clk k\<close>, and \<open>ticks\<close> counts the calls.
  A line of \<open>time_record\<close> is the triple of its tag, the time and the request id; its
  formatting is not modelled. Usage ratios are exact rationals where the code has floats.
\<close>

section \<open>Data\<close>

type_synonym clock = "nat \<Rightarrow> time"
type_synonym ref = nat

record scheduler_config =
  max_num_seqs :: int
  max_num_batched_tokens :: int
  sc_max_model_len :: int
  prefix_cache_fix :: bool
  sc_max_num_encoder_input_tokens :: int
  encoder_cache_size :: int
  proactive_swap_budget :: int
  sc_preemption_mode :: "string option"

record cache_config =
  cc_block_size :: int
  cc_num_gpu_blocks :: "int option"
  cc_num_cpu_blocks :: "int option"
  cc_sliding_window :: "int option"
  enable_prefix_caching :: bool

record new_request_data =
  nrd_req_id :: req_id
  nrd_prompt_token_ids :: "token list"
  nrd_prompt :: "string option"
  nrd_mm_inputs :: "mm_kwargs option list"
  nrd_mm_hashes :: "string list"
  nrd_mm_positions :: "placeholder_range list"
  nrd_sampling_params :: sampling_params
  nrd_block_ids :: "nat list"
  nrd_num_computed_tokens :: int
  nrd_num_tokens :: int

record resumed_request_data =
  rsd_req_id :: req_id
  rsd_block_ids :: "nat list"
  rsd_num_computed_tokens :: int
  rsd_num_tokens :: int

record running_request_data =
  rrd_req_id :: req_id
  rrd_new_block_ids :: "nat list"
  rrd_num_computed_tokens :: int
  rrd_num_tokens :: int

record scheduler_output =
  scheduled_new_reqs :: "new_request_data list"
  scheduled_resumed_reqs :: "resumed_request_data list"
  scheduled_running_reqs :: "ref list"
  num_scheduled_tokens :: "(req_id \<times> int) list"
  total_num_scheduled_tokens :: int
  scheduled_encoder_inputs :: "req_id \<rightharpoonup> nat list"
  preempted_req_ids :: "req_id set"
  out_finished_req_ids :: "req_id set"
  free_encoder_input_ids :: "(req_id \<times> nat) list"
  blocks_to_swap_in :: "(nat \<times> nat) list"
  blocks_to_swap_out :: "(nat \<times> nat) list"
  counter :: int

record engine_core_output =
  eco_request_id :: req_id
  eco_new_token_ids :: "token list"
  eco_finished :: bool
  eco_finish_reason :: "string option"
  eco_stop_reason :: "stop_reason_t option"

text \<open>\<open>ModelRunnerOutput\<close> of \<^verbatim>\<open>src/vllm/v1/outputs.py\<close>, without the log probabilities.\<close>

record model_runner_output =
  mro_req_ids :: "req_id list"
  req_id_to_index :: "req_id \<rightharpoonup> nat"
  sampled_token_ids :: "token list"
  new_token_ids :: "req_id \<rightharpoonup> token"
  bad_ids :: "req_id list"

record scheduler =
  preemption_mode :: "string option"
  max_num_running_reqs :: int
  max_num_scheduled_tokens :: int
  max_model_len :: int
  kvm :: kv_manager
  sched_block_size :: int
  heap :: "ref \<Rightarrow> request"
  requests :: "req_id \<rightharpoonup> ref"
  waiting :: "ref list"
  running :: "ref list"
  finished_req_ids :: "req_id set"
  data_heap :: "ref \<Rightarrow> running_request_data"
  next_data :: ref
  running_reqs_data :: "req_id \<rightharpoonup> ref"
  max_num_encoder_input_tokens :: int
  enc_cache :: encoder_cache
  schedule_counter :: int
  swapping_budget :: int
  proactive_swapping :: bool
  time_record :: "(string \<times> time \<times> req_id) list"
  ticks :: nat

text \<open>The lists, dictionaries and budgets that \<open>schedule\<close> threads through its helpers.\<close>

record sched_acc =
  acc_new :: "ref list"
  acc_resumed :: "ref list"
  acc_running :: "ref list"
  acc_preempted :: "ref list"
  acc_block_ids :: "req_id \<rightharpoonup> nat list"
  acc_tokens :: "(req_id \<times> int) list"
  acc_encoder :: "req_id \<rightharpoonup> nat list"
  token_budget :: int
  encoder_budget :: int

definition scheduler_init ::
  "scheduler_config \<Rightarrow> cache_config \<Rightarrow> bool \<Rightarrow> (ref \<Rightarrow> request) \<Rightarrow> (ref \<Rightarrow> running_request_data)
   \<Rightarrow> scheduler result" where
  "scheduler_init sc cc has_lora hp dh =
     andthen (py_assert (\<not> has_lora)) (\<lambda>_.
     case cc_num_gpu_blocks cc of
       None \<Rightarrow> Inl AssertionError
     | Some n_gpu \<Rightarrow>
       andthen (py_assert (n_gpu > 0)) (\<lambda>_.
       case cc_num_cpu_blocks cc of
         None \<Rightarrow> Inl TypeError
       | Some n_cpu \<Rightarrow>
         andthen (kv_init (cc_block_size cc) (nat n_gpu) (nat n_cpu) (sc_max_model_len sc)
                    (cc_sliding_window cc) (enable_prefix_caching cc) 64 (prefix_cache_fix sc)) (\<lambda>m.
           Inr \<lparr>preemption_mode = sc_preemption_mode sc, max_num_running_reqs = max_num_seqs sc,
                max_num_scheduled_tokens = max_num_batched_tokens sc,
                max_model_len = sc_max_model_len sc, kvm = m, sched_block_size = cc_block_size cc,
                heap = hp, requests = Map.empty, waiting = [], running = [],
                finished_req_ids = {}, data_heap = dh, next_data = 0, running_reqs_data = Map.empty,
                max_num_encoder_input_tokens = sc_max_num_encoder_input_tokens sc,
                enc_cache = encoder_cache_init (encoder_cache_size sc),
                schedule_counter = 0, swapping_budget = proactive_swap_budget sc,
                proactive_swapping = (proactive_swap_budget sc > 0), time_record = [], ticks = 0\<rparr>)))"

section \<open>Small steps shared by the methods\<close>

definition upd_req :: "ref \<Rightarrow> (request \<Rightarrow> request) \<Rightarrow> scheduler \<Rightarrow> scheduler" where
  "upd_req x f s = s\<lparr>heap := (heap s)(x := f (heap s x))\<rparr>"

definition put_kv :: "ref \<Rightarrow> request \<Rightarrow> kv_manager \<Rightarrow> scheduler \<Rightarrow> scheduler" where
  "put_kv x r m s = s\<lparr>kvm := m, heap := (heap s)(x := r)\<rparr>"

text \<open>\<open>time_record.append(tag + ' | ' + time + ' | ' + id)\<close>, with a clock reading of its own.\<close>

definition log_event :: "clock \<Rightarrow> string \<Rightarrow> req_id \<Rightarrow> scheduler \<Rightarrow> scheduler" where
  "log_event clk tag rid s =
     s\<lparr>time_record := time_record s @ [(tag, clk (ticks s), rid)], ticks := ticks s + 1\<rparr>"

text \<open>Several lines with one reading.\<close>

definition log_events :: "clock \<Rightarrow> string \<Rightarrow> req_id list \<Rightarrow> scheduler \<Rightarrow> scheduler" where
  "log_events clk tag rids s =
     s\<lparr>time_record := time_record s @ map (\<lambda>rid. (tag, clk (ticks s), rid)) rids,
       ticks := ticks s + 1\<rparr>"

definition can_extend_after_full_step :: "request \<Rightarrow> bool \<Rightarrow> scheduler \<Rightarrow> bool" where
  "can_extend_after_full_step r la s =
     (let n = (if la then num_tokens_next r else num_tokens r);
          out = (if la then num_tokens_next r - num_prompt_tokens r else num_output_tokens r)
      in n < max_model_len s \<and> out + 1 < max_tokens r)"

definition has_pending_lookahead_outputs :: "scheduler \<Rightarrow> bool" where
  "has_pending_lookahead_outputs s =
     list_ex (\<lambda>x. let r = heap s x in
        num_computed_tokens r \<ge> num_tokens r
        \<or> num_computed_tokens_next r \<ge> num_tokens_next r
        \<or> num_tokens_next r - num_tokens r > 1
        \<or> num_computed_tokens_next r - num_computed_tokens r > 1) (running s)"

section \<open>Encoder inputs\<close>

fun encoder_inputs_loop ::
  "request \<Rightarrow> encoder_cache \<Rightarrow> int \<Rightarrow> (nat \<times> placeholder_range) list \<Rightarrow> nat list \<Rightarrow> int \<Rightarrow> int
   \<Rightarrow> (nat list \<times> int \<times> int) result" where
  "encoder_inputs_loop r ec n_computed [] acc n budget = Inr (acc, n, budget)"
| "encoder_inputs_loop r ec n_computed ((i, p) # ps) acc n budget =
     (if offset p \<ge> n_computed + n then Inr (acc, n, budget)
      else if offset p + range_length p \<le> n_computed
      then encoder_inputs_loop r ec n_computed ps acc n budget
      else if has_cache r i ec then encoder_inputs_loop r ec n_computed ps acc n budget
      else andthen (can_allocate r i ec) (\<lambda>ok.
        if \<not> ok then Inr (acc, offset p - n_computed, budget)
        else if range_length p > budget then Inr (acc, offset p - n_computed, budget)
        else encoder_inputs_loop r ec n_computed ps (acc @ [i]) n (budget - range_length p)))"

definition try_schedule_encoder_inputs ::
  "request \<Rightarrow> int \<Rightarrow> int \<Rightarrow> int \<Rightarrow> encoder_cache \<Rightarrow> (nat list \<times> int \<times> int) result" where
  "try_schedule_encoder_inputs r n_computed n budget ec =
     (if \<not> has_encoder_inputs r then Inr ([], n, budget)
      else andthen (py_assert (length (mm_positions r) > 0)) (\<lambda>_.
        encoder_inputs_loop r ec n_computed
          (zip [0..<length (mm_positions r)] (mm_positions r)) [] n budget))"

text \<open>The common tail of the two single-request methods.\<close>

definition commit_encoder_inputs ::
  "ref \<Rightarrow> nat list \<Rightarrow> int \<Rightarrow> scheduler \<Rightarrow> sched_acc \<Rightarrow> (scheduler \<times> sched_acc) result" where
  "commit_encoder_inputs x inputs new_budget s acc =
     (if inputs = [] then Inr (s, acc)
      else
        let r = heap s x
        in andthen (fold_result (ec_allocate r) inputs (enc_cache s)) (\<lambda>ec.
             Inr (s\<lparr>enc_cache := ec\<rparr>,
                  acc\<lparr>acc_encoder := (acc_encoder acc)(request_id r \<mapsto> inputs),
                      encoder_budget := new_budget\<rparr>)))"

section \<open>Running requests\<close>

definition preempt_request :: "clock \<Rightarrow> ref \<Rightarrow> scheduler \<Rightarrow> scheduler result" where
  "preempt_request clk p s =
     (let mode = (case preemption_mode s of
                    None \<Rightarrow> ''recompute'' | Some md \<Rightarrow> if md = '''' then ''recompute'' else md);
          rid = request_id (heap s p)
      in andthen
           (if mode = ''recompute''
            then andthen (kv_free rid False False (kvm s)) (\<lambda>m.
              Inr (upd_req p (\<lambda>r. r\<lparr>req_status := PREEMPTED, num_computed_tokens := 0,
                     num_computed_tokens_next := 0, num_tokens_next := num_tokens r\<rparr>)
                   (s\<lparr>kvm := m\<rparr>)))
            else if mode = ''swap''
            then andthen (swap_out rid (kvm s)) (\<lambda>(_, m).
              Inr (upd_req p (\<lambda>r. r\<lparr>req_status := SWAPPED\<rparr>) (s\<lparr>kvm := m\<rparr>)))
            else Inl ValueError)
           (\<lambda>s. Inr (log_event clk ''WAITING'' rid (s\<lparr>waiting := waiting s @ [p]\<rparr>))))"

lemma preempt_request_running: "preempt_request clk p s = Inr s' \<Longrightarrow> running s' = running s"
  by (auto simp: preempt_request_def Let_def upd_req_def log_event_def split: if_splits)

text \<open>
  The \<^verbatim>\<open>while True\<close> loop: until the slots are there or the request itself was preempted.
  \<open>None\<close> is \<open>can_schedule = False\<close>.
\<close>

function preempt_loop ::
  "hash_fun \<Rightarrow> clock \<Rightarrow> bool \<Rightarrow> ref \<Rightarrow> int \<Rightarrow> ref list \<Rightarrow> scheduler
   \<Rightarrow> (nat list option \<times> ref list \<times> scheduler) result" where
  "preempt_loop hsh clk allow x n pre s =
     andthen (append_slots hsh (heap s x) n (kvm s)) (\<lambda>(nb, r, m).
       case nb of
         Some bs \<Rightarrow> Inr (Some bs, pre, put_kv x r m s)
       | None \<Rightarrow>
           if \<not> allow then Inl AssertionError
           else if running s = [] then Inl IndexError
           else
             let p = last (running s)
             in andthen (preempt_request clk p ((put_kv x r m s)\<lparr>running := butlast (running s)\<rparr>)) (\<lambda>s.
                  if p = x then Inr (None, pre @ [p], s)
                  else preempt_loop hsh clk allow x n (pre @ [p]) s))"
  by pat_completeness auto
termination
  by (relation "measure (\<lambda>(_, _, _, _, _, _, s). length (running s))")
     (auto dest!: preempt_request_running)

declare preempt_loop.simps [simp del]

definition schedule_single_running_request ::
  "hash_fun \<Rightarrow> clock \<Rightarrow> bool \<Rightarrow> ref \<Rightarrow> scheduler \<Rightarrow> sched_acc
   \<Rightarrow> (int option \<times> scheduler \<times> sched_acc) result" where
  "schedule_single_running_request hsh clk allow x s acc =
     (let r = heap s x in
      andthen (py_assert (token_budget acc > 0)) (\<lambda>_.
      let n = min (num_tokens r - num_computed_tokens r) (token_budget acc) in
      andthen (py_assert (n > 0)) (\<lambda>_.
      andthen (try_schedule_encoder_inputs r (num_computed_tokens r) n (encoder_budget acc) (enc_cache s))
        (\<lambda>(inputs, n, new_budget).
      andthen (py_assert (n > 0)) (\<lambda>_.
      andthen (preempt_loop hsh clk allow x n (acc_preempted acc) s) (\<lambda>(nb, pre, s).
        let acc = acc\<lparr>acc_preempted := pre\<rparr> in
        case nb of
          None \<Rightarrow> Inr (None, s, acc)
        | Some bs \<Rightarrow>
            andthen (commit_encoder_inputs x inputs new_budget s
                (acc\<lparr>acc_running := acc_running acc @ [x],
                     acc_block_ids := (acc_block_ids acc)(request_id r \<mapsto> bs),
                     acc_tokens := dict_set (request_id r) n (acc_tokens acc),
                     token_budget := token_budget acc - n\<rparr>))
              (\<lambda>(s, acc). Inr (Some n, s, acc))))))))"

section \<open>Waiting requests\<close>

text \<open>
  The two ways to admit a request. A success carries
  \<open>(num_computed_tokens, num_new_tokens, computed_blocks, encoder inputs, encoder budget, new blocks)\<close>.
\<close>

type_synonym admission = "int \<times> int \<times> nat list \<times> nat list \<times> int \<times> nat list"

definition admit_waiting ::
  "hash_fun \<Rightarrow> ref \<Rightarrow> nat list \<Rightarrow> int \<Rightarrow> scheduler \<Rightarrow> sched_acc \<Rightarrow> (admission option \<times> scheduler) result" where
  "admit_waiting hsh x computed n_computed s acc =
     (let r = heap s x; n = num_tokens r - n_computed in
      andthen
        (if n = 0
         then if computed = [] then Inl IndexError
              else Inr (n_computed - sched_block_size s, sched_block_size s, butlast computed)
         else Inr (n_computed, n, computed)) (\<lambda>(n_computed, n, computed).
      let n = min n (token_budget acc) in
      andthen (py_assert (n > 0)) (\<lambda>_.
      andthen (try_schedule_encoder_inputs r n_computed n (encoder_budget acc) (enc_cache s))
        (\<lambda>(inputs, n, new_budget).
      if n = 0 then Inr (None, s)
      else andthen (allocate_slots hsh r n computed False (kvm s)) (\<lambda>(nb, r, m).
        let s = put_kv x r m s in
        case nb of
          None \<Rightarrow> Inr (None, s)
        | Some new \<Rightarrow> Inr (Some (n_computed, n, computed, inputs, new_budget, new), s))))))"

text \<open>
  A swapped request. The \<^verbatim>\<open>if num_new_tokens == 0\<close> of the source follows the assertion
  \<^verbatim>\<open>num_new_tokens > 0\<close> and cannot be taken.
\<close>

definition admit_swapped ::
  "hash_fun \<Rightarrow> ref \<Rightarrow> nat list \<Rightarrow> int \<Rightarrow> scheduler \<Rightarrow> sched_acc \<Rightarrow> (admission option \<times> scheduler) result" where
  "admit_swapped hsh x computed n_computed s acc =
     (let r = heap s x;
          n_computed = max (num_computed_tokens r) n_computed;
          n = num_tokens r - n_computed
      in andthen (py_assert (n > 0)) (\<lambda>_.
         let n = min n (token_budget acc) in
         andthen (swap_in hsh r computed (kvm s)) (\<lambda>(nb, r, m).
           let s = put_kv x r m s in
           case nb of
             None \<Rightarrow> Inr (None, s)
           | Some new \<Rightarrow> Inr (Some (n_computed, n, computed, [], encoder_budget acc, new), s))))"

definition admit_request ::
  "hash_fun \<Rightarrow> ref \<Rightarrow> nat list \<Rightarrow> scheduler \<Rightarrow> sched_acc \<Rightarrow> (admission option \<times> scheduler) result" where
  "admit_request hsh x computed s acc =
     (let st = req_status (heap s x); n_computed = int (length computed) * sched_block_size s in
      if st = WAITING \<or> st = PREEMPTED then admit_waiting hsh x computed n_computed s acc
      else if st = SWAPPED then admit_swapped hsh x computed n_computed s acc
      else Inl RuntimeError)"

text \<open>What \<open>schedule_single_waiting_request\<close> records once the blocks are allocated.\<close>

definition record_admission ::
  "ref \<Rightarrow> admission \<Rightarrow> scheduler \<Rightarrow> sched_acc \<Rightarrow> (int option \<times> scheduler \<times> sched_acc) result" where
  "record_admission x = (\<lambda>(n_computed, n, computed, inputs, new_budget, new) s acc.
     (let r = heap s x;
          rid = request_id r;
          acc = (if req_status r = WAITING then acc\<lparr>acc_new := acc_new acc @ [x]\<rparr>
                 else acc\<lparr>acc_resumed := acc_resumed acc @ [x]\<rparr>);
          acc = acc\<lparr>acc_block_ids := (acc_block_ids acc)(rid \<mapsto> computed @ new),
                    acc_tokens := dict_set rid n (acc_tokens acc),
                    token_budget := token_budget acc - n\<rparr>;
          s = upd_req x (\<lambda>r. r\<lparr>req_status := RUNNING, num_computed_tokens := n_computed\<rparr>) s
      in andthen (commit_encoder_inputs x inputs new_budget s acc)
           (\<lambda>(s, acc). Inr (Some n, s, acc))))"

definition schedule_single_waiting_request ::
  "hash_fun \<Rightarrow> ref \<Rightarrow> scheduler \<Rightarrow> sched_acc \<Rightarrow> (int option \<times> scheduler \<times> sched_acc) result" where
  "schedule_single_waiting_request hsh x s acc =
     andthen (py_assert (\<not> lookahead (heap s x))) (\<lambda>_.
     andthen (get_computed_blocks hsh (heap s x) (kvm s)) (\<lambda>(computed, r).
     andthen (admit_request hsh x computed (s\<lparr>heap := (heap s)(x := r)\<rparr>) acc) (\<lambda>(adm, s).
       case adm of
         None \<Rightarrow> Inr (None, s, acc)
       | Some a \<Rightarrow> record_admission x a s acc)))"

section \<open>Proactive swapping\<close>

text \<open>\<^verbatim>\<open>sorted\<close> by an optional key: with two elements or more, a missing key raises.\<close>

definition py_sorted_by :: "('a \<Rightarrow> time option) \<Rightarrow> 'a list \<Rightarrow> 'a list result" where
  "py_sorted_by key xs =
     (if length xs \<ge> 2 \<and> list_ex (\<lambda>x. key x = None) xs then Inl TypeError
      else Inr (sort_key (\<lambda>x. the (key x)) xs))"

fun pick_victims :: "scheduler \<Rightarrow> (ref \<times> nat) list \<Rightarrow> int \<Rightarrow> nat list \<Rightarrow> nat list result" where
  "pick_victims s [] cnt acc = Inr acc"
| "pick_victims s ((x, idx) # xs) cnt acc =
     (if num_tokens (heap s x) - num_computed_tokens (heap s x) = 1
      then andthen (get_num_blocks_to_free (request_id (heap s x)) (kvm s)) (\<lambda>k.
             if cnt + k \<ge> swapping_budget s then Inr acc
             else pick_victims s xs (cnt + k) (acc @ [idx]))
      else pick_victims s xs cnt acc)"

definition swap_victim :: "clock \<Rightarrow> ref \<Rightarrow> scheduler \<times> sched_acc \<Rightarrow> (scheduler \<times> sched_acc) result" where
  "swap_victim clk x = (\<lambda>(s, acc).
     (let rid = request_id (heap s x) in
      andthen (swap_out rid (kvm s)) (\<lambda>(_, m).
      let s = upd_req x (\<lambda>r. r\<lparr>req_status := SWAPPED\<rparr>) (s\<lparr>kvm := m\<rparr>);
          acc = acc\<lparr>acc_preempted := acc_preempted acc @ [x]\<rparr>
      in if x \<notin> set (running s) then Inl ValueError
         else Inr (log_event clk ''WAITING'' rid
                     (s\<lparr>running := remove1 x (running s), waiting := waiting s @ [x]\<rparr>), acc))))"

text \<open>The choice of the victims, by index into \<open>running\<close>; \<open>None\<close> is the early return.\<close>

definition choose_victims :: "scheduler \<Rightarrow> nat list option result" where
  "choose_victims s =
     andthen (py_sorted_by (\<lambda>(x, _). in_running_since (heap s x))
                (zip (running s) [0..<length (running s)])) (\<lambda>by_age.
     andthen (get_kv_caches_usage (kvm s)) (\<lambda>(_, cpu_usage).
       if swapping_budget s > 0
          \<and> (cpu_usage < 95 / 100 \<and> num_free_blocks (queue (kvm s)) < swapping_budget s)
       then andthen (pick_victims s by_age 0 []) (\<lambda>idxs.
              if idxs = [] then Inr None else Inr (Some idxs))
       else Inr (Some [])))"

definition schedule_early ::
  "hash_fun \<Rightarrow> clock \<Rightarrow> scheduler \<Rightarrow> sched_acc \<Rightarrow> (scheduler \<times> sched_acc) result" where
  "schedule_early hsh clk s acc =
     andthen (can_hold_all_requests hsh (running s) (waiting s) (heap s) (kvm s)) (\<lambda>(hold, hp).
     let s = s\<lparr>heap := hp\<rparr> in
     if hold then Inr (s, acc)
     else
       andthen (py_sorted_by (\<lambda>x. in_waiting_since (heap s x)) (waiting s)) (\<lambda>ws.
       let s = s\<lparr>waiting := ws\<rparr> in
       andthen (choose_victims s) (\<lambda>idxs.
         case idxs of
           None \<Rightarrow> Inr (s, acc)
         | Some victims \<Rightarrow> fold_result (swap_victim clk) (map (\<lambda>i. running s ! i) victims) (s, acc))))"

section \<open>The two scheduling loops\<close>

lemma commit_encoder_frame:
  "commit_encoder_inputs x inputs b s acc = Inr (s', acc') \<Longrightarrow>
   running s' = running s \<and> waiting s' = waiting s"
  by (auto simp: commit_encoder_inputs_def Let_def split: if_splits)

lemma preempt_loop_length:
  "preempt_loop hsh clk allow x n pre s = Inr (nb, pre', s') \<Longrightarrow>
   length (running s') \<le> length (running s)"
proof (induction hsh clk allow x n pre s rule: preempt_loop.induct)
  case (1 hsh clk allow x n pre s)
  from "1.prems" obtain nb1 r m where a: "append_slots hsh (heap s x) n (kvm s) = Inr (nb1, r, m)"
    by (subst (asm) preempt_loop.simps) auto
  show ?case
  proof (cases nb1)
    case (Some bs)
    with "1.prems" a show ?thesis by (subst (asm) preempt_loop.simps) (auto simp: put_kv_def)
  next
    case None
    let ?p = "last (running s)"
    let ?s = "(put_kv x r m s)\<lparr>running := butlast (running s)\<rparr>"
    from "1.prems" a None obtain s1 where nonempty: "allow" "running s \<noteq> []"
      and pr: "preempt_request clk ?p ?s = Inr s1"
      and rest: "(if ?p = x then Inr (None, pre @ [?p], s1)
          else preempt_loop hsh clk allow x n (pre @ [?p]) s1) = Inr (nb, pre', s')"
      by (subst (asm) preempt_loop.simps) (auto simp: Let_def split: if_splits)
    have l: "length (running s1) \<le> length (running s)"
      using preempt_request_running [OF pr] by simp
    show ?thesis
    proof (cases "?p = x")
      case True
      with rest l show ?thesis by simp
    next
      case False
      have "length (running s') \<le> length (running s1)"
        using "1.IH" [OF a refl refl None _ nonempty(2) refl pr False] nonempty(1) rest False by simp
      with l show ?thesis by simp
    qed
  qed
qed

lemma single_running_length:
  "schedule_single_running_request hsh clk allow x s acc = Inr (n, s', acc') \<Longrightarrow>
   length (running s') \<le> length (running s)"
  by (auto simp: schedule_single_running_request_def Let_def split: option.splits
      dest!: preempt_loop_length commit_encoder_frame)

function running_loop ::
  "hash_fun \<Rightarrow> clock \<Rightarrow> bool \<Rightarrow> req_id list option \<Rightarrow> nat \<Rightarrow> bool \<Rightarrow> scheduler \<Rightarrow> sched_acc
   \<Rightarrow> (bool \<times> scheduler \<times> sched_acc) result" where
  "running_loop hsh clk la early i partial s acc =
     (if i < length (running s)
      then
        andthen (py_assert (\<not> partial)) (\<lambda>_.
        andthen (py_assert (token_budget acc > 0)) (\<lambda>_.
        let x = running s ! i in
        if early \<noteq> None \<and> length (the early) > 0 \<and> request_id (heap s x) \<in> set (the early)
        then running_loop hsh clk la early (i + 1) partial s acc
        else
          let entered = lookahead_enter la (heap s x) in
          andthen (schedule_single_running_request hsh clk True x
                     (s\<lparr>heap := (heap s)(x := fst entered)\<rparr>) acc) (\<lambda>(n, s1, acc1).
            let s2 = upd_req x (lookahead_exit (snd entered)) s1; r = heap s2 x in
            if n = None \<or> n = Some 0 then Inr (partial, s2, acc1)
            else running_loop hsh clk la early (i + 1)
                   (if la then num_computed_tokens_next r + the n < num_tokens_next r
                    else num_computed_tokens r + the n < num_tokens r) s2 acc1)))
      else Inr (partial, s, acc))"
  by pat_completeness auto
termination
  by (relation "measure (\<lambda>(_, _, _, _, i, _, s, _). length (running s) - i)")
     (auto simp: upd_req_def dest!: single_running_length)

declare running_loop.simps [simp del]

lemma admit_frame:
  "admit_request hsh x c s acc = Inr (adm, s') \<Longrightarrow> waiting s' = waiting s \<and> running s' = running s"
  by (auto simp: admit_request_def admit_waiting_def admit_swapped_def Let_def put_kv_def
      split: if_splits option.splits)

lemma single_waiting_frame:
  assumes "schedule_single_waiting_request hsh x s acc = Inr (n, s', acc')"
  shows "waiting s' = waiting s \<and> running s' = running s"
proof -
  from assms obtain c r adm s1 where 1: "admit_request hsh x c (s\<lparr>heap := (heap s)(x := r)\<rparr>) acc = Inr (adm, s1)"
    and 2: "(case adm of None \<Rightarrow> Inr (None, s1, acc) | Some a \<Rightarrow> record_admission x a s1 acc) = Inr (n, s', acc')"
    by (auto simp: schedule_single_waiting_request_def)
  from 2 have "waiting s' = waiting s1 \<and> running s' = running s1"
    by (cases adm) (auto simp: record_admission_def Let_def upd_req_def dest!: commit_encoder_frame)
  with admit_frame [OF 1] show ?thesis by simp
qed

function waiting_loop ::
  "hash_fun \<Rightarrow> clock \<Rightarrow> rat \<Rightarrow> bool \<Rightarrow> ref list \<Rightarrow> scheduler \<Rightarrow> sched_acc
   \<Rightarrow> (ref list \<times> scheduler \<times> sched_acc) result" where
  "waiting_loop hsh clk cpu_usage partial excluded s acc =
     (if waiting s = [] \<or> partial \<or> int (length (running s)) = max_num_running_reqs s
         \<or> token_budget acc = 0
      then Inr (excluded, s, acc)
      else
        let x = hd (waiting s) in
        if cpu_usage > 9 / 10 \<and> req_status (heap s x) = WAITING
        then waiting_loop hsh clk cpu_usage partial (excluded @ [x]) (s\<lparr>waiting := tl (waiting s)\<rparr>) acc
        else andthen (schedule_single_waiting_request hsh x s acc) (\<lambda>(n, s1, acc1).
          if n = None \<or> n = Some 0 then Inr (excluded, s1, acc1)
          else
            let s2 = log_event clk ''RUNNING'' (request_id (heap s1 x))
                       (s1\<lparr>waiting := tl (waiting s1), running := running s1 @ [x]\<rparr>);
                r = heap s2 x
            in waiting_loop hsh clk cpu_usage (num_computed_tokens r + the n < num_tokens r)
                 excluded s2 acc1))"
  by pat_completeness auto
termination
  by (relation "measure (\<lambda>(_, _, _, _, _, s, _). length (waiting s))")
     (auto simp: log_event_def dest!: single_waiting_frame)

declare waiting_loop.simps [simp del]

section \<open>A scheduling step\<close>

definition sched_acc_init :: "scheduler \<Rightarrow> sched_acc" where
  "sched_acc_init s =
     \<lparr>acc_new = [], acc_resumed = [], acc_running = [], acc_preempted = [],
      acc_block_ids = Map.empty, acc_tokens = [], acc_encoder = Map.empty,
      token_budget = max_num_scheduled_tokens s,
      encoder_budget = max_num_encoder_input_tokens s\<rparr>"

text \<open>
  The proactive phase with the ids it leaves for the main loops:
  \<open>(reqs_id_preempted_early, reqs_id_scheduled_early)\<close>.
\<close>

definition early_phase ::
  "hash_fun \<Rightarrow> clock \<Rightarrow> scheduler \<Rightarrow> sched_acc
   \<Rightarrow> (req_id list option \<times> req_id list option \<times> scheduler \<times> sched_acc) result" where
  "early_phase hsh clk s acc =
     (if proactive_swapping s
      then andthen (schedule_early hsh clk s acc) (\<lambda>(s, acc).
        let ids = map (\<lambda>x. request_id (heap s x));
            pre = (if acc_preempted acc \<noteq> [] then Some (ids (acc_preempted acc)) else None);
            sched = ids (acc_new acc @ acc_resumed acc)
        in andthen (py_assert (list_all (\<lambda>x. req_status (heap s x) = RUNNING)
                      (acc_new acc @ acc_resumed acc))) (\<lambda>_.
             Inr (pre, if length sched = 0 then None else Some sched, s, acc)))
      else Inr (None, None, s, acc))"

text \<open>The waiting queue is visited unless the running loop preempted without an early swap-out.\<close>

definition waiting_phase ::
  "hash_fun \<Rightarrow> clock \<Rightarrow> req_id list option \<Rightarrow> bool \<Rightarrow> scheduler \<Rightarrow> sched_acc
   \<Rightarrow> (scheduler \<times> sched_acc) result" where
  "waiting_phase hsh clk preempted_early partial s acc =
     andthen (get_kv_caches_usage (kvm s)) (\<lambda>(_, cpu_usage).
       if acc_preempted acc = [] \<or> preempted_early \<noteq> None
       then andthen (waiting_loop hsh clk cpu_usage partial [] s acc) (\<lambda>(excluded, s, acc).
              Inr (log_events clk ''WAITING'' (map (\<lambda>x. request_id (heap s x)) excluded)
                     (s\<lparr>waiting := waiting s @ excluded\<rparr>), acc))
       else Inr (s, acc))"

definition dispatch ::
  "hash_fun \<Rightarrow> clock \<Rightarrow> bool \<Rightarrow> scheduler \<Rightarrow> (scheduler \<times> sched_acc) result" where
  "dispatch hsh clk la s =
     andthen (early_phase hsh clk s (sched_acc_init s)) (\<lambda>(preempted_early, scheduled_early, s, acc).
     andthen (running_loop hsh clk la scheduled_early 0 False s acc) (\<lambda>(partial, s, acc).
       waiting_phase hsh clk preempted_early partial s acc))"

definition total_tokens :: "(req_id \<times> int) list \<Rightarrow> int" where
  "total_tokens d = sum_list (map snd d)"

definition check_constraints :: "scheduler \<Rightarrow> sched_acc \<Rightarrow> unit result" where
  "check_constraints s acc =
     andthen (py_assert (total_tokens (acc_tokens acc) \<le> max_num_scheduled_tokens s)) (\<lambda>_.
     andthen (py_assert (token_budget acc \<ge> 0)) (\<lambda>_.
     andthen (py_assert (int (length (running s)) \<le> max_num_running_reqs s)) (\<lambda>_.
       py_assert (length (acc_new acc) + length (acc_resumed acc) + length (acc_running acc)
                  = length (running s)))))"

definition stamp_running :: "time \<Rightarrow> request \<Rightarrow> request" where
  "stamp_running now r =
     (if in_running_since r = None then r\<lparr>in_running_since := Some now, in_waiting_since := None\<rparr> else r)"

definition stamp_waiting :: "time \<Rightarrow> request \<Rightarrow> request" where
  "stamp_waiting now r =
     (if in_waiting_since r = None then r\<lparr>in_running_since := None, in_waiting_since := Some now\<rparr> else r)"

definition stamp_times :: "clock \<Rightarrow> scheduler \<Rightarrow> scheduler" where
  "stamp_times clk s =
     (let now = clk (ticks s);
          s = s\<lparr>ticks := ticks s + 1\<rparr>;
          s = fold (\<lambda>x. upd_req x (stamp_running now)) (running s) s
      in fold (\<lambda>x. upd_req x (stamp_waiting now)) (waiting s) s)"

subsection \<open>Output data\<close>

definition new_data_from_request :: "request \<Rightarrow> nat list \<Rightarrow> int \<Rightarrow> new_request_data" where
  "new_data_from_request r ids n =
     \<lparr>nrd_req_id = request_id r, nrd_prompt_token_ids = prompt_token_ids r, nrd_prompt = prompt r,
      nrd_mm_inputs = mm_inputs r, nrd_mm_hashes = mm_hashes r, nrd_mm_positions = mm_positions r,
      nrd_sampling_params = sampling r, nrd_block_ids = ids, nrd_num_computed_tokens = n,
      nrd_num_tokens = num_tokens r\<rparr>"

definition resumed_data_from_request :: "request \<Rightarrow> nat list \<Rightarrow> int \<Rightarrow> resumed_request_data" where
  "resumed_data_from_request r ids n =
     \<lparr>rsd_req_id = request_id r, rsd_block_ids = ids, rsd_num_computed_tokens = n,
      rsd_num_tokens = num_tokens r\<rparr>"

definition running_data_from_request ::
  "request \<Rightarrow> nat list \<Rightarrow> int \<Rightarrow> int \<Rightarrow> running_request_data" where
  "running_data_from_request r ids n toks =
     \<lparr>rrd_req_id = request_id r, rrd_new_block_ids = ids, rrd_num_computed_tokens = n,
      rrd_num_tokens = toks\<rparr>"

definition make_running_request_data ::
  "request \<Rightarrow> nat list \<Rightarrow> int \<Rightarrow> int \<Rightarrow> scheduler \<Rightarrow> ref \<times> scheduler" where
  "make_running_request_data r ids n toks s =
     (case running_reqs_data s (request_id r) of
        Some d \<Rightarrow> (d, s\<lparr>data_heap := (data_heap s)(d := (data_heap s d)
                      \<lparr>rrd_new_block_ids := ids, rrd_num_computed_tokens := n, rrd_num_tokens := toks\<rparr>)\<rparr>)
      | None \<Rightarrow>
          let d = next_data s
          in (d, s\<lparr>data_heap := (data_heap s)(d := running_data_from_request r ids n toks),
                   next_data := d + 1,
                   running_reqs_data := (running_reqs_data s)(request_id r \<mapsto> d)\<rparr>))"

fun map_result :: "('a \<Rightarrow> 'b result) \<Rightarrow> 'a list \<Rightarrow> 'b list result" where
  "map_result f [] = Inr []"
| "map_result f (x # xs) = andthen (f x) (\<lambda>y. andthen (map_result f xs) (\<lambda>ys. Inr (y # ys)))"

definition new_reqs_data :: "scheduler \<Rightarrow> sched_acc \<Rightarrow> new_request_data list result" where
  "new_reqs_data s acc =
     map_result (\<lambda>x. let r = heap s x in
       andthen (lookup_key (acc_block_ids acc) (request_id r)) (\<lambda>ids.
         Inr (new_data_from_request r ids (num_computed_tokens r)))) (acc_new acc)"

definition resumed_reqs_data :: "scheduler \<Rightarrow> sched_acc \<Rightarrow> resumed_request_data list result" where
  "resumed_reqs_data s acc =
     map_result (\<lambda>x. let r = heap s x in
       andthen (lookup_key (acc_block_ids acc) (request_id r)) (\<lambda>ids.
         Inr (resumed_data_from_request r ids (num_computed_tokens r)))) (acc_resumed acc)"

fun running_reqs_data_loop ::
  "bool \<Rightarrow> (req_id \<rightharpoonup> nat list) \<Rightarrow> ref list \<Rightarrow> scheduler \<Rightarrow> (ref list \<times> scheduler) result" where
  "running_reqs_data_loop la blocks [] s = Inr ([], s)"
| "running_reqs_data_loop la blocks (x # xs) s =
     (let r = heap s x in
      andthen (lookup_key blocks (request_id r)) (\<lambda>ids.
      case make_running_request_data r ids
             (if la then num_computed_tokens_next r else num_computed_tokens r)
             (if la then num_tokens_next r else num_tokens r) s of (d, s) \<Rightarrow>
      andthen (running_reqs_data_loop la blocks xs s) (\<lambda>(ds, s). Inr (d # ds, s))))"

subsection \<open>Advancing the predicted counters\<close>

text \<open>The counters after this step, from the current ones.\<close>

definition advance_current :: "int \<Rightarrow> request \<Rightarrow> scheduler \<Rightarrow> request" where
  "advance_current st r s =
     (let part = num_computed_tokens r + st < num_tokens r in
      r\<lparr>num_tokens_next :=
          (if part then num_tokens r
           else if can_extend_after_full_step r False s then num_tokens r + 1
           else num_tokens r),
        num_computed_tokens_next := num_computed_tokens r + st\<rparr>)"

text \<open>The counters after this step, from the predicted ones.\<close>

definition advance_predicted :: "int \<Rightarrow> request \<Rightarrow> scheduler \<Rightarrow> request" where
  "advance_predicted st r s =
     (let part = num_computed_tokens_next r + st < num_tokens_next r;
          r1 = (if \<not> part \<and> can_extend_after_full_step r True s
                then r\<lparr>num_tokens_next := num_tokens_next r + 1\<rparr> else r)
      in r1\<lparr>num_computed_tokens_next := num_computed_tokens_next r + st\<rparr>)"

definition advance_running ::
  "bool \<Rightarrow> (req_id \<times> int) list \<Rightarrow> ref \<Rightarrow> scheduler \<Rightarrow> scheduler result" where
  "advance_running la toks x s =
     (let r = heap s x in
      andthen (lookup_key (map_of toks) (request_id r)) (\<lambda>st.
      if la
      then andthen (py_assert (num_computed_tokens_next r > 0)) (\<lambda>_.
           andthen (py_assert (num_tokens_next r > 0)) (\<lambda>_.
           andthen (py_assert (num_computed_tokens_next r + st \<le> num_tokens_next r)) (\<lambda>_.
             Inr (upd_req x (\<lambda>_. advance_predicted st r s) s))))
      else andthen (py_assert (num_computed_tokens r > 0)) (\<lambda>_.
           andthen (py_assert (num_tokens r > 0)) (\<lambda>_.
           andthen (py_assert (num_computed_tokens r + st \<le> num_tokens r)) (\<lambda>_.
             Inr (upd_req x (\<lambda>_. advance_current st r s) s))))))"

definition advance_admitted :: "(req_id \<times> int) list \<Rightarrow> ref \<Rightarrow> scheduler \<Rightarrow> scheduler result" where
  "advance_admitted toks x s =
     (let r = heap s x in
      andthen (lookup_key (map_of toks) (request_id r)) (\<lambda>st.
      andthen (py_assert (num_computed_tokens r + st \<le> num_tokens r)) (\<lambda>_.
        Inr (upd_req x (\<lambda>_. advance_current st r s) s))))"

subsection \<open>\<open>schedule\<close>\<close>

text \<open>The second half of \<open>schedule\<close>: build the output and advance the predictions.\<close>

definition emit_output ::
  "bool \<Rightarrow> (nat \<times> nat) list \<Rightarrow> (nat \<times> nat) list \<Rightarrow> scheduler \<Rightarrow> sched_acc
   \<Rightarrow> (scheduler_output \<times> scheduler) result" where
  "emit_output la swap_in_blocks swap_out_blocks s acc =
     andthen (new_reqs_data s acc) (\<lambda>new_data.
     andthen (resumed_reqs_data s acc) (\<lambda>resumed_data.
     andthen (running_reqs_data_loop la (acc_block_ids acc) (acc_running acc) s) (\<lambda>(running_data, s).
     let preempted = set (map (\<lambda>x. request_id (heap s x)) (acc_preempted acc)) in
     andthen (fold_result (advance_running la (acc_tokens acc)) (acc_running acc) s) (\<lambda>s.
     andthen (fold_result (advance_admitted (acc_tokens acc)) (acc_new acc @ acc_resumed acc) s) (\<lambda>s.
       Inr (\<lparr>scheduled_new_reqs = new_data, scheduled_resumed_reqs = resumed_data,
             scheduled_running_reqs = running_data, num_scheduled_tokens = acc_tokens acc,
             total_num_scheduled_tokens = total_tokens (acc_tokens acc),
             scheduled_encoder_inputs = acc_encoder acc, preempted_req_ids = preempted,
             out_finished_req_ids = finished_req_ids s,
             free_encoder_input_ids = fst (get_freed_ids (enc_cache s)),
             blocks_to_swap_in = swap_in_blocks, blocks_to_swap_out = swap_out_blocks,
             counter = schedule_counter s\<rparr>,
            s\<lparr>enc_cache := snd (get_freed_ids (enc_cache s)),
              schedule_counter := schedule_counter s + 1, finished_req_ids := {}\<rparr>))))))"

definition take_pending :: "scheduler \<Rightarrow> (nat \<times> nat) list \<times> (nat \<times> nat) list \<times> scheduler" where
  "take_pending s =
     (let (swap_in_blocks, m) = get_and_reset_pending_blocks_to_swap_in (kvm s);
          (swap_out_blocks, m) = get_and_reset_pending_blocks_to_swap_out m
      in (swap_in_blocks, swap_out_blocks, s\<lparr>kvm := m\<rparr>))"

definition schedule ::
  "hash_fun \<Rightarrow> clock \<Rightarrow> bool \<Rightarrow> scheduler \<Rightarrow> (scheduler_output \<times> scheduler) result" where
  "schedule hsh clk la s =
     andthen (dispatch hsh clk la s) (\<lambda>(s, acc).
     andthen (check_constraints s acc) (\<lambda>_.
     case take_pending s of (swap_in_blocks, swap_out_blocks, s) \<Rightarrow>
       emit_output la swap_in_blocks swap_out_blocks (stamp_times clk s) acc))"

section \<open>\<open>reschedule\<close>\<close>

definition reschedule :: "scheduler \<Rightarrow> scheduler_output \<Rightarrow> req_id set \<Rightarrow> scheduler_output" where
  "reschedule s out stopped =
     (let toks = filter (\<lambda>(rid, _). rid \<notin> stopped) (num_scheduled_tokens out) in
      \<lparr>scheduled_new_reqs = filter (\<lambda>d. nrd_req_id d \<notin> stopped) (scheduled_new_reqs out),
       scheduled_resumed_reqs = filter (\<lambda>d. rsd_req_id d \<notin> stopped) (scheduled_resumed_reqs out),
       scheduled_running_reqs =
         filter (\<lambda>d. rrd_req_id (data_heap s d) \<notin> stopped) (scheduled_running_reqs out),
       num_scheduled_tokens = toks, total_num_scheduled_tokens = total_tokens toks,
       scheduled_encoder_inputs = (scheduled_encoder_inputs out) |` (- stopped),
       preempted_req_ids = preempted_req_ids out - stopped,
       out_finished_req_ids = out_finished_req_ids out \<union> stopped,
       free_encoder_input_ids = filter (\<lambda>(rid, _). rid \<notin> stopped) (free_encoder_input_ids out),
       blocks_to_swap_in = blocks_to_swap_in out, blocks_to_swap_out = blocks_to_swap_out out,
       counter = counter out\<rparr>)"

section \<open>Finishing requests\<close>

definition free_request :: "ref \<Rightarrow> scheduler \<Rightarrow> scheduler result" where
  "free_request x s =
     (let r = heap s x; rid = request_id r in
      andthen (py_assert (is_finished r)) (\<lambda>_.
      andthen (kv_free rid False False (kvm s)) (\<lambda>m.
      if requests s rid = None then Inl KeyError
      else Inr (s\<lparr>kvm := m, running_reqs_data := (running_reqs_data s)(rid := None),
                  requests := (requests s)(rid := None),
                  finished_req_ids := insert rid (finished_req_ids s)\<rparr>))))"

definition check_stop :: "ref \<Rightarrow> scheduler \<Rightarrow> (bool \<times> scheduler) result" where
  "check_stop x s =
     (let r = heap s x in
      if num_tokens r \<ge> max_model_len s \<or> num_output_tokens r \<ge> max_tokens r
      then andthen (free_request x (upd_req x (\<lambda>r. r\<lparr>req_status := FINISHED_LENGTH_CAPPED\<rparr>) s))
             (\<lambda>s. Inr (True, s))
      else if output_token_ids r = [] then Inl IndexError
      else
        let last_token = last (output_token_ids r) in
        if \<not> ignore_eos (sampling r) \<and> Some last_token = eos_token_id r
        then andthen (free_request x (upd_req x (\<lambda>r. r\<lparr>req_status := FINISHED_STOPPED\<rparr>) s))
               (\<lambda>s. Inr (True, s))
        else if last_token \<in> set (case stop_token_ids (sampling r) of None \<Rightarrow> [] | Some ts \<Rightarrow> ts)
        then andthen (free_request x (upd_req x (\<lambda>r. r\<lparr>req_status := FINISHED_STOPPED,
                 stop_reason := Some (StopInt last_token)\<rparr>) s))
               (\<lambda>s. Inr (True, s))
        else Inr (False, s))"

definition engine_output_of :: "req_id \<Rightarrow> request \<Rightarrow> engine_core_output" where
  "engine_output_of rid r =
     \<lparr>eco_request_id = rid,
      eco_new_token_ids = drop (length (output_token_ids r) - 1) (output_token_ids r),
      eco_finished = is_finished r, eco_finish_reason = get_finished_reason r,
      eco_stop_reason = stop_reason r\<rparr>"

text \<open>The common part of the two branches that accept a token.\<close>

definition accept_token ::
  "req_id \<Rightarrow> ref \<Rightarrow> token \<Rightarrow> scheduler \<times> engine_core_output list \<times> req_id list
   \<Rightarrow> (scheduler \<times> engine_core_output list \<times> req_id list) result" where
  "accept_token rid x t = (\<lambda>(s, outs, stopped).
     andthen (check_stop x (upd_req x (append_output_token_ids [t]) s)) (\<lambda>(stop, s).
       Inr (s, outs @ [engine_output_of rid (heap s x)],
            if stop then dict_add rid stopped else stopped)))"

definition update_request ::
  "model_runner_output \<Rightarrow> req_id \<times> int \<Rightarrow> scheduler \<times> engine_core_output list \<times> req_id list
   \<Rightarrow> (scheduler \<times> engine_core_output list \<times> req_id list) result" where
  "update_request mro = (\<lambda>(rid, n) (s, outs, stopped).
     andthen (lookup_key (requests s) rid) (\<lambda>x.
     let s = upd_req x (\<lambda>r. r\<lparr>num_computed_tokens := num_computed_tokens r + n\<rparr>) s in
     case new_token_ids mro rid of
       Some t \<Rightarrow>
         andthen (accept_token rid x t (s, outs, stopped)) (\<lambda>(s, outs, stopped).
         andthen (py_assert (num_computed_tokens (heap s x) \<le> num_tokens (heap s x))) (\<lambda>_.
           Inr (s, outs, stopped)))
     | None \<Rightarrow>
         andthen (py_assert (num_computed_tokens (heap s x) \<le> num_tokens (heap s x))) (\<lambda>_.
         if rid \<in> set (bad_ids mro) then Inr (s, outs, stopped)
         else if num_computed_tokens (heap s x) = num_tokens (heap s x)
         then andthen (lookup_key (req_id_to_index mro) rid) (\<lambda>i.
              if i < length (sampled_token_ids mro)
              then accept_token rid x (sampled_token_ids mro ! i) (s, outs, stopped)
              else Inl IndexError)
         else Inr (s, outs, stopped))))"

text \<open>
  \<open>iter\<close> is the order in which Python enumerates the set \<open>stopped_ids\<close>; the queues are
  filtered by the set.
\<close>

definition update_from_output ::
  "(req_id list \<Rightarrow> req_id list) \<Rightarrow> clock \<Rightarrow> scheduler_output \<Rightarrow> model_runner_output \<Rightarrow> scheduler
   \<Rightarrow> (engine_core_output list \<times> req_id list \<times> scheduler) result" where
  "update_from_output iter clk out mro s =
     andthen (fold_result (update_request mro) (num_scheduled_tokens out) (s, [], [])) (\<lambda>(s, outs, stopped).
       let keep = (\<lambda>x. request_id (heap s x) \<notin> set stopped) in
       Inr (outs, stopped,
            log_events clk ''STOPPED'' (iter stopped)
              (s\<lparr>running := filter keep (running s), waiting := filter keep (waiting s)\<rparr>)))"

section \<open>Requests from outside\<close>

definition add_request :: "clock \<Rightarrow> ref \<Rightarrow> scheduler \<Rightarrow> scheduler" where
  "add_request clk x s =
     (let rid = request_id (heap s x);
          s = log_event clk ''ADDED'' rid (s\<lparr>waiting := waiting s @ [x]\<rparr>)
      in s\<lparr>requests := (requests s)(rid \<mapsto> x)\<rparr>)"

definition finish_request :: "clock \<Rightarrow> request_status \<Rightarrow> req_id \<Rightarrow> scheduler \<Rightarrow> scheduler result" where
  "finish_request clk st rid s =
     (case requests s rid of
        None \<Rightarrow> Inr s
      | Some x \<Rightarrow>
          andthen
            (if req_status (heap s x) = RUNNING
             then if x \<in> set (running s) then Inr (s\<lparr>running := remove1 x (running s)\<rparr>) else Inl ValueError
             else if x \<in> set (waiting s) then Inr (s\<lparr>waiting := remove1 x (waiting s)\<rparr>) else Inl ValueError)
            (\<lambda>s. let s = log_event clk ''FINISHED'' (request_id (heap s x)) s
                 in free_request x (upd_req x (\<lambda>r. r\<lparr>req_status := st\<rparr>) s)))"

text \<open>\<open>request_ids\<close> is turned into a set first; \<open>iter\<close> gives its enumeration.\<close>

definition finish_requests ::
  "(req_id list \<Rightarrow> req_id list) \<Rightarrow> clock \<Rightarrow> req_id list \<Rightarrow> request_status \<Rightarrow> scheduler \<Rightarrow> scheduler result" where
  "finish_requests iter clk ids st s =
     andthen (py_assert (status_is_finished st)) (\<lambda>_.
       fold_result (finish_request clk st) (iter (remdups ids)) s)"

section \<open>Queries\<close>

definition get_num_unfinished_requests :: "scheduler \<Rightarrow> nat" where
  "get_num_unfinished_requests s = length (waiting s) + length (running s)"

definition has_unfinished_requests :: "scheduler \<Rightarrow> bool" where
  "has_unfinished_requests s \<longleftrightarrow> get_num_unfinished_requests s > 0"

definition get_running_len :: "scheduler \<Rightarrow> nat" where
  "get_running_len s = length (running s)"

definition get_total_waiting :: "scheduler \<Rightarrow> nat" where
  "get_total_waiting s = length (waiting s)"

definition get_waiting_len :: "scheduler \<Rightarrow> nat" where
  "get_waiting_len s = length (filter (\<lambda>x. req_status (heap s x) \<noteq> SWAPPED) (waiting s))"

definition get_swapped_len :: "scheduler \<Rightarrow> nat" where
  "get_swapped_len s = length (filter (\<lambda>x. req_status (heap s x) = SWAPPED) (waiting s))"

definition get_time_record :: "scheduler \<Rightarrow> (string \<times> time \<times> req_id) list \<times> scheduler" where
  "get_time_record s = (time_record s, s\<lparr>time_record := []\<rparr>)"

end
