(* ===== verification/KVCacheInv.thy ===== *)
theory KVCacheInv
  imports KVCacheManager
begin

text \<open>
  The invariant of the KV-cache manager and its preservation by every operation of
  \<^verbatim>\<open>KVCacheManager\<close>.

  \<open>kv_inv ex cx m\<close> says: the free queue is a well-formed list holding exactly the GPU blocks
  with reference count 0; the reference count of a GPU block is the number of its occurrences
  in the block tables of \<open>req_to_blocks\<close> plus \<open>ex\<close>, the references held by no table; the
  count of a CPU block is what the GPU blocks mapped to it and the tables of
  \<open>req_to_blocks_cpu\<close> account for, plus \<open>cx\<close>; the prefix cache and the hashes stored in the
  blocks agree; and every GPU block is mapped. \<open>ex\<close> is 0 when no reference has leaked.
\<close>

section \<open>Definitions\<close>

definition table_count :: "(req_id \<rightharpoonup> nat list) \<Rightarrow> req_id \<Rightarrow> nat \<Rightarrow> int" where
  "table_count t rid b = (case t rid of None \<Rightarrow> 0 | Some bs \<Rightarrow> int (count_list bs b))"

definition table_uses :: "(req_id \<rightharpoonup> nat list) \<Rightarrow> nat \<Rightarrow> int" where
  "table_uses t b = (\<Sum>rid \<in> dom t. table_count t rid b)"

definition cpu_share :: "nat \<Rightarrow> kv_block \<Rightarrow> int" where
  "cpu_share c blk = (if mapped_cpu_block blk = Some c then ref_cnt blk else 0)"

definition gpu_refs_on :: "kv_manager \<Rightarrow> nat \<Rightarrow> int" where
  "gpu_refs_on m c = (\<Sum>b < num_gpu_blocks m. cpu_share c (pool m b))"

definition queue_ok :: "kv_manager \<Rightarrow> bool" where
  "queue_ok m \<longleftrightarrow>
     (\<exists>xs. dll (pool m, queue m) xs
        \<and> set xs = {b. b < num_gpu_blocks m \<and> ref_cnt (pool m b) = 0})"

definition cache_ok :: "kv_manager \<Rightarrow> bool" where
  "cache_ok m \<longleftrightarrow>
     (\<forall>h ids. cached_blocks m h = Some ids \<longrightarrow>
        ids \<noteq> [] \<and> distinct ids
        \<and> (\<forall>b \<in> set ids. b < num_gpu_blocks m \<and> block_hash (pool m b) = Some h))
     \<and> (\<forall>b h. block_hash (pool m b) = Some h \<longrightarrow> (\<exists>ids. cached_blocks m h = Some ids \<and> b \<in> set ids))"

definition tables_ok :: "kv_manager \<Rightarrow> bool" where
  "tables_ok m \<longleftrightarrow>
     finite (dom (req_to_blocks m)) \<and> finite (dom (req_to_blocks_cpu m))
     \<and> (\<forall>rid bs. req_to_blocks m rid = Some bs \<longrightarrow> set bs \<subseteq> {..<num_gpu_blocks m})
     \<and> (\<forall>b < num_gpu_blocks m. mapped_cpu_block (pool m b) \<noteq> None)"

definition refs_ok :: "(nat \<Rightarrow> int) \<Rightarrow> (nat \<Rightarrow> int) \<Rightarrow> kv_manager \<Rightarrow> bool" where
  "refs_ok ex cx m \<longleftrightarrow>
     (\<forall>b. 0 \<le> ex b)
     \<and> (\<forall>b < num_gpu_blocks m. ref_cnt (pool m b) = table_uses (req_to_blocks m) b + ex b)
     \<and> (\<forall>c. ref_cnt (pool_cpu m c) = gpu_refs_on m c + table_uses (req_to_blocks_cpu m) c + cx c)"

definition data_ok :: "(nat \<Rightarrow> int) \<Rightarrow> (nat \<Rightarrow> int) \<Rightarrow> kv_manager \<Rightarrow> bool" where
  "data_ok ex cx m \<longleftrightarrow> refs_ok ex cx m \<and> tables_ok m \<and> cache_ok m"

definition kv_inv :: "(nat \<Rightarrow> int) \<Rightarrow> (nat \<Rightarrow> int) \<Rightarrow> kv_manager \<Rightarrow> bool" where
  "kv_inv ex cx m \<longleftrightarrow> queue_ok m \<and> data_ok ex cx m"

abbreviation counts :: "nat list \<Rightarrow> nat \<Rightarrow> int" where
  "counts bs \<equiv> (\<lambda>b. int (count_list bs b))"

section \<open>Counting in block tables\<close>

lemma table_count_nonneg: "0 \<le> table_count t rid b"
  by (simp add: table_count_def split: option.split)

lemma table_uses_nonneg: "0 \<le> table_uses t b"
  by (simp add: table_uses_def sum_nonneg table_count_nonneg)

lemma table_uses_empty [simp]: "table_uses Map.empty b = 0"
  by (simp add: table_uses_def)

lemma table_uses_None:
  assumes "finite (dom t)"
  shows "table_uses (t(rid := None)) b = table_uses t b - table_count t rid b"
proof -
  have "table_uses (t(rid := None)) b = (\<Sum>r \<in> dom t - {rid}. table_count t r b)"
    unfolding table_uses_def by (rule sum.cong) (auto simp: table_count_def)
  also have "\<dots> = table_uses t b - table_count t rid b"
    using assms by (cases "rid \<in> dom t")
      (auto simp: table_uses_def sum_diff1 table_count_def split: option.split)
  finally show ?thesis .
qed

lemma table_uses_Some:
  assumes "finite (dom t)"
  shows "table_uses (t(rid \<mapsto> bs)) b = table_uses t b - table_count t rid b + int (count_list bs b)"
proof -
  have "table_uses (t(rid \<mapsto> bs)) b
      = int (count_list bs b) + (\<Sum>r \<in> dom t - {rid}. table_count (t(rid \<mapsto> bs)) r b)"
    using assms by (simp add: table_uses_def sum.insert_remove table_count_def)
  also have "(\<Sum>r \<in> dom t - {rid}. table_count (t(rid \<mapsto> bs)) r b) = table_uses (t(rid := None)) b"
    unfolding table_uses_def by (rule sum.cong) (auto simp: table_count_def)
  finally show ?thesis unfolding table_uses_None [OF assms] by linarith
qed

lemma sum_fun_upd:
  fixes g :: "'b \<Rightarrow> int"
  assumes "finite A" "b \<in> A"
  shows "(\<Sum>x \<in> A. g ((st(b := v)) x)) = (\<Sum>x \<in> A. g (st x)) - g (st b) + g v"
proof -
  have "(\<Sum>x \<in> A. g ((st(b := v)) x)) = g v + (\<Sum>x \<in> A - {b}. g ((st(b := v)) x))"
    using assms by (simp add: sum.remove)
  also have "(\<Sum>x \<in> A - {b}. g ((st(b := v)) x)) = (\<Sum>x \<in> A - {b}. g (st x))"
    by (rule sum.cong) auto
  also have "\<dots> = (\<Sum>x \<in> A. g (st x)) - g (st b)"
    using assms by (simp add: sum_diff1)
  finally show ?thesis by simp
qed

section \<open>Congruence: what the data part reads\<close>

definition same_ledger :: "kv_manager \<Rightarrow> kv_manager \<Rightarrow> bool" where
  "same_ledger m m' \<longleftrightarrow>
     num_gpu_blocks m' = num_gpu_blocks m \<and> cached_blocks m' = cached_blocks m
     \<and> req_to_blocks m' = req_to_blocks m \<and> req_to_blocks_cpu m' = req_to_blocks_cpu m
     \<and> (\<forall>b. ref_cnt (pool m' b) = ref_cnt (pool m b) \<and> block_hash (pool m' b) = block_hash (pool m b)
          \<and> mapped_cpu_block (pool m' b) = mapped_cpu_block (pool m b))
     \<and> (\<forall>c. ref_cnt (pool_cpu m' c) = ref_cnt (pool_cpu m c))"

lemma data_ok_ledger:
  assumes "same_ledger m m'"
  shows "data_ok ex cx m' = data_ok ex cx m"
proof -
  have "cpu_share c (pool m' b) = cpu_share c (pool m b)" for b c
    using assms by (simp add: same_ledger_def cpu_share_def)
  then have "gpu_refs_on m' = gpu_refs_on m"
    using assms by (simp add: fun_eq_iff same_ledger_def gpu_refs_on_def)
  then have "refs_ok ex cx m' = refs_ok ex cx m"
    using assms by (simp add: same_ledger_def refs_ok_def)
  moreover have "tables_ok m' = tables_ok m" "cache_ok m' = cache_ok m"
    using assms by (simp_all add: same_ledger_def tables_ok_def cache_ok_def)
  ultimately show ?thesis by (simp add: data_ok_def)
qed

lemma queue_ok_links:
  assumes "same_links (pool m) (pool m') UNIV" "queue m' = queue m"
    and "num_gpu_blocks m' = num_gpu_blocks m" "\<And>b. ref_cnt (pool m' b) = ref_cnt (pool m b)"
  shows "queue_ok m' = queue_ok m"
  using assms dll_cong [OF assms(1)] by (simp add: queue_ok_def)

lemma kv_inv_cong:
  assumes "same_ledger m m'" "same_links (pool m) (pool m') UNIV" "queue m' = queue m"
  shows "kv_inv ex cx m' = kv_inv ex cx m"
  using assms queue_ok_links [OF assms(2,3)] data_ok_ledger [OF assms(1)]
  by (simp add: kv_inv_def same_ledger_def)

lemma data_ok_bound: "data_ok ex cx m \<Longrightarrow> req_to_blocks m rid = Some bs \<Longrightarrow> b \<in> set bs \<Longrightarrow> b < num_gpu_blocks m"
  by (auto simp: data_ok_def tables_ok_def)

section \<open>Elementary updates of the ledger\<close>

lemma gpu_refs_on_upd:
  assumes "b < num_gpu_blocks m"
  shows "gpu_refs_on (m\<lparr>pool := (pool m)(b := blk)\<rparr>) c =
    gpu_refs_on m c - cpu_share c (pool m b) + cpu_share c blk"
  using sum_fun_upd [of "{..<num_gpu_blocks m}" b "cpu_share c" "pool m" blk] assms
  by (simp add: gpu_refs_on_def)

lemma gpu_refs_on_cpu [simp]: "gpu_refs_on (m\<lparr>pool_cpu := st\<rparr>) c = gpu_refs_on m c"
  by (simp add: gpu_refs_on_def)

lemma cache_ok_upd:
  "block_hash blk = block_hash (pool m b) \<Longrightarrow> cache_ok (m\<lparr>pool := (pool m)(b := blk)\<rparr>) = cache_ok m"
  by (auto simp: cache_ok_def)

lemma tables_ok_upd:
  "mapped_cpu_block blk \<noteq> None \<Longrightarrow> tables_ok m \<Longrightarrow> tables_ok (m\<lparr>pool := (pool m)(b := blk)\<rparr>)"
  by (auto simp: tables_ok_def)

lemma cache_tables_ok_cpu [simp]:
  "cache_ok (m\<lparr>pool_cpu := st\<rparr>) = cache_ok m" "tables_ok (m\<lparr>pool_cpu := st\<rparr>) = tables_ok m"
  by (simp_all add: cache_ok_def tables_ok_def)

lemma data_ok_mapped:
  assumes "data_ok ex cx m" "b < num_gpu_blocks m"
  obtains c where "mapped_cpu_block (pool m b) = Some c"
  using assms by (auto simp: data_ok_def tables_ok_def)

lemma kv_incr_ref_eq:
  "mapped_cpu_block (pool m b) = Some c \<Longrightarrow>
   kv_incr_ref b m = m\<lparr>pool := add_ref 1 b (pool m), pool_cpu := add_ref 1 c (pool_cpu m)\<rparr>"
  by (simp add: kv_incr_ref_def incr_ref_def)

lemma kv_decr_ref_eq:
  "mapped_cpu_block (pool m b) = Some c \<Longrightarrow>
   kv_decr_ref k b m = m\<lparr>pool := add_ref (-1) b (pool m),
     pool_cpu := (if k then pool_cpu m else add_ref (-1) c (pool_cpu m))\<rparr>"
  by (simp add: kv_decr_ref_def decr_ref_def)

text \<open>One reference more or less on a GPU block, and on its CPU block unless \<open>k\<close>.\<close>

lemma data_ok_add_ref:
  assumes d: "data_ok ex cx m" and b: "b < num_gpu_blocks m" and c: "mapped_cpu_block (pool m b) = Some c"
    and nonneg: "0 \<le> ex b + i"
  shows "data_ok (ex(b := ex b + i)) (if k then cx(c := cx c - i) else cx)
    (m\<lparr>pool := add_ref i b (pool m), pool_cpu := (if k then pool_cpu m else add_ref i c (pool_cpu m))\<rparr>)"
    (is "data_ok ?ex ?cx ?m")
proof -
  have "refs_ok ?ex ?cx ?m"
    using d b c nonneg
    by (auto simp: data_ok_def refs_ok_def gpu_refs_on_upd add_ref_def cpu_share_def)
  moreover have "tables_ok ?m" "cache_ok ?m"
    using d c by (auto simp: data_ok_def add_ref_def tables_ok_upd cache_ok_upd)
  ultimately show ?thesis by (simp add: data_ok_def)
qed

lemma data_ok_incr:
  assumes "data_ok ex cx m" "b < num_gpu_blocks m"
  shows "data_ok (ex(b := ex b + 1)) cx (kv_incr_ref b m)"
proof -
  from assms obtain c where c: "mapped_cpu_block (pool m b) = Some c" by (rule data_ok_mapped)
  moreover have "0 \<le> ex b" using assms by (simp add: data_ok_def refs_ok_def)
  ultimately show ?thesis
    using data_ok_add_ref [OF assms c, of 1 False] by (simp add: kv_incr_ref_eq)
qed

lemma data_ok_decr:
  assumes "data_ok ex cx m" "b < num_gpu_blocks m" "0 < ex b" "mapped_cpu_block (pool m b) = Some c"
  shows "data_ok (ex(b := ex b - 1)) (if k then cx(c := cx c + 1) else cx) (kv_decr_ref k b m)"
  using data_ok_add_ref [OF assms(1,2,4), of "-1" k] assms(3,4)
  by (cases k) (simp_all add: kv_decr_ref_eq)

text \<open>Moving a GPU block that nobody references to another CPU block changes no count.\<close>

lemma data_ok_remap_unused:
  assumes "data_ok ex cx m" "b < num_gpu_blocks m" "ref_cnt (pool m b) = 0"
  shows "data_ok ex cx (upd_block b (\<lambda>blk. blk\<lparr>mapped_cpu_block := Some c\<rparr>) m)"
  using assms
  by (auto simp: data_ok_def refs_ok_def upd_block_def gpu_refs_on_upd tables_ok_upd
      cache_ok_upd cpu_share_def)

text \<open>The block tables.\<close>

lemma data_ok_set_table:
  assumes d: "data_ok ex cx m" and bs: "set bs \<subseteq> {..<num_gpu_blocks m}"
    and nonneg: "\<And>b. 0 \<le> ex b + table_count (req_to_blocks m) rid b - counts bs b"
  shows "data_ok (\<lambda>b. ex b + table_count (req_to_blocks m) rid b - counts bs b) cx
    (m\<lparr>req_to_blocks := (req_to_blocks m)(rid \<mapsto> bs)\<rparr>)"
  using assms
  by (auto simp: data_ok_def refs_ok_def tables_ok_def cache_ok_def gpu_refs_on_def table_uses_Some)

lemma data_ok_pop_table:
  assumes d: "data_ok ex cx m"
  shows "data_ok (\<lambda>b. ex b + table_count (req_to_blocks m) rid b) cx
    (m\<lparr>req_to_blocks := (req_to_blocks m)(rid := None)\<rparr>)"
proof -
  have "dom ((req_to_blocks m)(rid := None)) \<subseteq> dom (req_to_blocks m)" by auto
  then show ?thesis
    using assms table_count_nonneg [of "req_to_blocks m" rid]
    by (auto simp: data_ok_def refs_ok_def tables_ok_def cache_ok_def gpu_refs_on_def table_uses_None
        intro: add_nonneg_nonneg)
qed

lemma data_ok_set_cpu_table:
  assumes d: "data_ok ex cx m"
  shows "data_ok ex (\<lambda>c. cx c + table_count (req_to_blocks_cpu m) rid c - counts cs c)
    (m\<lparr>req_to_blocks_cpu := (req_to_blocks_cpu m)(rid \<mapsto> cs)\<rparr>)"
  using assms
  by (auto simp: data_ok_def refs_ok_def tables_ok_def cache_ok_def gpu_refs_on_def table_uses_Some)

lemma data_ok_pop_cpu_table:
  assumes d: "data_ok ex cx m"
  shows "data_ok ex (\<lambda>c. cx c + table_count (req_to_blocks_cpu m) rid c)
    (m\<lparr>req_to_blocks_cpu := (req_to_blocks_cpu m)(rid := None)\<rparr>)"
proof -
  have "dom ((req_to_blocks_cpu m)(rid := None)) \<subseteq> dom (req_to_blocks_cpu m)" by auto
  then show ?thesis
    using assms
    by (auto simp: data_ok_def refs_ok_def tables_ok_def cache_ok_def gpu_refs_on_def table_uses_None
        intro: finite_subset)
qed

section \<open>Frames\<close>

text \<open>The fields that the pool operations never write.\<close>

definition same_static :: "kv_manager \<Rightarrow> kv_manager \<Rightarrow> bool" where
  "same_static m m' \<longleftrightarrow>
     block_size m' = block_size m \<and> num_gpu_blocks m' = num_gpu_blocks m
     \<and> num_cpu_blocks m' = num_cpu_blocks m
     \<and> max_num_blocks_per_req m' = max_num_blocks_per_req m
     \<and> enable_caching m' = enable_caching m
     \<and> fix_wrong_prefix_caching m' = fix_wrong_prefix_caching m
     \<and> num_preallocate_blocks m' = num_preallocate_blocks m
     \<and> req_to_blocks m' = req_to_blocks m \<and> req_to_blocks_cpu m' = req_to_blocks_cpu m"

lemma same_static_refl [simp]: "same_static m m"
  by (simp add: same_static_def)

lemma same_static_trans [trans]: "same_static a b \<Longrightarrow> same_static b c \<Longrightarrow> same_static a c"
  by (simp add: same_static_def)

named_theorems static_intros \<open>operations that leave the configuration and the block tables alone\<close>

lemma upd_block_static [static_intros]: "same_static m (upd_block b f m)"
  by (simp add: same_static_def upd_block_def)

lemma try_upd_block_static [static_intros]: "try_upd_block b f m = Inr m' \<Longrightarrow> same_static m m'"
  by (auto simp: try_upd_block_def upd_block_static)

lemma queue_ops_static [static_intros]:
  "gpu_popleft m = Inr (b, m') \<Longrightarrow> same_static m m'"
  "gpu_append b m = Inr m' \<Longrightarrow> same_static m m'"
  "cpu_popleft m = Inr (b, m') \<Longrightarrow> same_static m m'"
  "cpu_append b m = Inr m' \<Longrightarrow> same_static m m'"
  "same_static m (gpu_remove b m)"
  by (auto simp: same_static_def gpu_popleft_def gpu_append_def cpu_popleft_def cpu_append_def
      gpu_remove_def split: prod.splits)

lemma ref_ops_static [static_intros]:
  "same_static m (kv_incr_ref b m)" "same_static m (kv_decr_ref k b m)"
  "same_static m (cpu_decr_ref c m)"
  by (auto simp: same_static_def kv_incr_ref_def kv_decr_ref_def cpu_decr_ref_def split: prod.splits)

lemma evict_static [static_intros]: "evict_cached_block b m = Inr m' \<Longrightarrow> same_static m m'"
  by (auto simp: evict_cached_block_def same_static_def upd_block_def Let_def
      split: option.splits if_splits)

lemma fold_static:
  assumes "fold_result f xs m = Inr m'" "\<And>x m m'. f x m = Inr m' \<Longrightarrow> same_static m m'"
  shows "same_static m m'"
  using assms(1)
  by (rule fold_result_invariant [where P = "same_static m"]) (auto intro: same_static_trans assms(2))

section \<open>A block in hand\<close>

text \<open>
  Between leaving the queue and being referenced (or the other way round), one block \<open>b\<close> with
  reference count 0 is in nobody's hands.
\<close>

definition kv_mid :: "nat \<Rightarrow> (nat \<Rightarrow> int) \<Rightarrow> (nat \<Rightarrow> int) \<Rightarrow> kv_manager \<Rightarrow> bool" where
  "kv_mid b ex cx m \<longleftrightarrow>
     (\<exists>xs. dll (pool m, queue m) xs \<and> b \<notin> set xs
        \<and> insert b (set xs) = {b. b < num_gpu_blocks m \<and> ref_cnt (pool m b) = 0})
     \<and> data_ok ex cx m"

lemma kv_midD:
  assumes "kv_mid b ex cx m"
  shows "b < num_gpu_blocks m" "ref_cnt (pool m b) = 0" "data_ok ex cx m"
  using assms by (auto simp: kv_mid_def)

lemma kv_mid_cong:
  assumes "same_ledger m m'" "same_links (pool m) (pool m') UNIV" "queue m' = queue m"
  shows "kv_mid b ex cx m' = kv_mid b ex cx m"
  using assms dll_cong [OF assms(2)] data_ok_ledger [OF assms(1)]
  by (simp add: kv_mid_def same_ledger_def)

text \<open>A change of one block that keeps its counter and its links.\<close>

lemma kv_mid_data:
  assumes "kv_mid b ex cx m" "data_ok ex cx m'" "same_links (pool m) (pool m') UNIV"
    "queue m' = queue m" "num_gpu_blocks m' = num_gpu_blocks m"
    "\<And>x. ref_cnt (pool m' x) = ref_cnt (pool m x)"
  shows "kv_mid b ex cx m'"
  using assms dll_cong [OF assms(3)] by (simp add: kv_mid_def)

lemma kv_inv_data:
  assumes "kv_inv ex cx m" "data_ok ex cx m'" "same_links (pool m) (pool m') UNIV"
    "queue m' = queue m" "num_gpu_blocks m' = num_gpu_blocks m"
    "\<And>x. ref_cnt (pool m' x) = ref_cnt (pool m x)"
  shows "kv_inv ex cx m'"
  using assms dll_cong [OF assms(3)] by (simp add: kv_inv_def queue_ok_def)

definition set_status :: "nat \<Rightarrow> block_status \<Rightarrow> kv_manager \<Rightarrow> kv_manager" where
  "set_status b s m = upd_block b (\<lambda>blk. blk\<lparr>blk_status := s\<rparr>) m"

lemma status_updates:
  "upd_block b mark_empty m = set_status b EMPTY m"
  "upd_block b mark_free m = set_status b FREE m"
  "try_upd_block b (mark_full True False False) m = Inr (set_status b FULL_CLEAN m)"
  "try_upd_block b (mark_half False True False) m = Inr (set_status b HALF_DIRTY m)"
  by (simp_all add: set_status_def upd_block_def mark_empty_def mark_free_def try_upd_block_def)

lemma mark_clean_status:
  "try_upd_block b mark_clean m = Inr m' \<Longrightarrow> \<exists>s. m' = set_status b s m"
  by (auto simp: try_upd_block_def mark_clean_def set_status_def upd_block_def split: if_splits)

lemma set_status_static [static_intros]: "same_static m (set_status b s m)"
  by (simp add: set_status_def upd_block_static)

lemma set_status_ledger: "same_ledger m (set_status b s m)"
  and set_status_links: "same_links (pool m) (pool (set_status b s m)) UNIV"
  and set_status_queue: "queue (set_status b s m) = queue m"
  by (simp_all add: set_status_def upd_block_def same_ledger_def same_links_def)

lemma set_status_inv [simp]:
  "kv_inv ex cx (set_status b s m) = kv_inv ex cx m"
  "kv_mid b' ex cx (set_status b s m) = kv_mid b' ex cx m"
  "data_ok ex cx (set_status b s m) = data_ok ex cx m"
  using set_status_ledger set_status_links set_status_queue kv_inv_cong kv_mid_cong data_ok_ledger
  by metis+

lemma set_status_ref [simp]:
  "ref_cnt (pool (set_status b s m) x) = ref_cnt (pool m x)"
  "mapped_cpu_block (pool (set_status b s m) x) = mapped_cpu_block (pool m x)"
  "block_hash (pool (set_status b s m) x) = block_hash (pool m x)"
  "pool_cpu (set_status b s m) = pool_cpu m" "queue_cpu (set_status b s m) = queue_cpu m"
  "num_gpu_blocks (set_status b s m) = num_gpu_blocks m"
  by (simp_all add: set_status_def upd_block_def)

subsection \<open>Entering and leaving the queue\<close>

lemma gpu_popleft_mid:
  assumes i: "kv_inv ex cx m" and "gpu_popleft m = Inr (b, m')"
  shows "kv_mid b ex cx m'"
    and "\<exists>xs. dll (pool m, queue m) (b # xs) \<and> dll (pool m', queue m') xs"
proof -
  from i obtain ys where ys: "dll (pool m, queue m) ys"
    and set: "set ys = {b. b < num_gpu_blocks m \<and> ref_cnt (pool m b) = 0}"
    by (auto simp: kv_inv_def queue_ok_def)
  from assms(2) fq_popleft_Nil ys obtain x xs where x: "ys = x # xs"
    by (cases ys) (auto simp: gpu_popleft_def)
  with ys fq_popleft_Cons obtain s' where s': "fq_popleft (pool m, queue m) = Inr (x, s')"
    "dll s' xs" "same_data (pool m) (fst s')" by fastforce
  with assms(2) have eq: "x = b" "m' = m\<lparr>pool := fst s', queue := snd s'\<rparr>"
    by (auto simp: gpu_popleft_def split: prod.splits)
  have "same_ledger m m'"
    using s'(3) by (simp add: eq same_ledger_def same_data_def)
  with i have d: "data_ok ex cx m'" by (simp add: kv_inv_def data_ok_ledger)
  have "b \<notin> set xs" using ys x eq by (auto dest: dll_distinct)
  moreover have "insert b (set xs) = {b. b < num_gpu_blocks m' \<and> ref_cnt (pool m' b) = 0}"
    using set x s'(3) by (simp add: eq same_data_def)
  moreover have "dll (pool m', queue m') xs" using s'(2) by (simp add: eq)
  ultimately show "kv_mid b ex cx m'"
    and "\<exists>xs. dll (pool m, queue m) (b # xs) \<and> dll (pool m', queue m') xs"
    using d ys x eq by (auto simp: kv_mid_def)
qed

lemma gpu_remove_mid:
  assumes i: "kv_inv ex cx m" and b: "b < num_gpu_blocks m" "ref_cnt (pool m b) = 0"
  shows "kv_mid b ex cx (gpu_remove b m)"
proof -
  from i obtain ys where ys: "dll (pool m, queue m) ys"
    and set: "set ys = {b. b < num_gpu_blocks m \<and> ref_cnt (pool m b) = 0}"
    by (auto simp: kv_inv_def queue_ok_def)
  let ?s = "fq_remove b (pool m, queue m)"
  have eq: "gpu_remove b m = m\<lparr>pool := fst ?s, queue := snd ?s\<rparr>"
    by (simp add: gpu_remove_def split: prod.splits)
  have sd: "same_data (pool m) (fst ?s)" using fq_remove_same_data [of "(pool m, queue m)" b] by simp
  have "same_ledger m (gpu_remove b m)"
    using sd by (simp add: eq same_ledger_def same_data_def)
  with i have d: "data_ok ex cx (gpu_remove b m)" by (simp add: kv_inv_def data_ok_ledger)
  have mem: "b \<in> set ys" using b set by simp
  then have "dll ?s (remove1 b ys)" using fq.remove [OF ys] by simp
  moreover have "set (remove1 b ys) = set ys - {b}"
    using dll_distinct [OF ys] by simp
  ultimately have "dll ?s (remove1 b ys) \<and> b \<notin> set (remove1 b ys)
      \<and> insert b (set (remove1 b ys)) = {x. x < num_gpu_blocks m \<and> ref_cnt (fst ?s x) = 0}"
    using mem set sd by (auto simp: same_data_def)
  with d show ?thesis unfolding kv_mid_def by (auto simp: eq)
qed

lemma gpu_append_inv:
  assumes i: "kv_mid b ex cx m"
  shows "\<exists>m'. gpu_append b m = Inr m' \<and> kv_inv ex cx m'
    \<and> (\<forall>xs. dll (pool m, queue m) xs \<longrightarrow> dll (pool m', queue m') (xs @ [b]))
    \<and> same_data (pool m) (pool m')"
proof -
  from i obtain xs where xs: "dll (pool m, queue m) xs" "b \<notin> set xs"
    and set: "insert b (set xs) = {b. b < num_gpu_blocks m \<and> ref_cnt (pool m b) = 0}"
    and d: "data_ok ex cx m"
    by (auto simp: kv_mid_def)
  from fq_append_dll [OF xs] obtain s' where s': "fq_append b (pool m, queue m) = Inr s'"
    "dll s' (xs @ [b])" "same_data (pool m) (fst s')" by auto
  let ?m' = "m\<lparr>pool := fst s', queue := snd s'\<rparr>"
  have app: "gpu_append b m = Inr ?m'"
    using s'(1) by (simp add: gpu_append_def split: prod.splits)
  have "same_ledger m ?m'" using s'(3) by (simp add: same_ledger_def same_data_def)
  with d have "data_ok ex cx ?m'" by (simp add: data_ok_ledger)
  moreover have "set (xs @ [b]) = {x. x < num_gpu_blocks ?m' \<and> ref_cnt (pool ?m' x) = 0}"
    using set s'(3) by (simp add: same_data_def)
  ultimately have "kv_inv ex cx ?m'"
    using s'(2) by (auto simp: kv_inv_def queue_ok_def)
  moreover have "dll (pool ?m', queue ?m') (ys @ [b])" if "dll (pool m, queue m) ys" for ys
    using dll_unique [OF that xs(1)] s'(2) by simp
  ultimately show ?thesis using app s'(3) by auto
qed

lemma kv_incr_ref_pool:
  "ref_cnt (pool (kv_incr_ref b m) x) = ref_cnt (pool m x) + (if x = b then 1 else 0)"
  "same_links (pool m) (pool (kv_incr_ref b m)) UNIV" "queue (kv_incr_ref b m) = queue m"
  by (auto simp: kv_incr_ref_def incr_ref_def add_ref_def same_links_def)

lemma incr_mid_inv:
  assumes "kv_mid b ex cx m"
  shows "kv_inv (ex(b := ex b + 1)) cx (kv_incr_ref b m)"
proof -
  from assms obtain xs where xs: "dll (pool m, queue m) xs" "b \<notin> set xs"
    and set: "insert b (set xs) = {b. b < num_gpu_blocks m \<and> ref_cnt (pool m b) = 0}"
    by (auto simp: kv_mid_def)
  have ng: "num_gpu_blocks (kv_incr_ref b m) = num_gpu_blocks m"
    using ref_ops_static(1) by (simp add: same_static_def)
  have "dll (pool (kv_incr_ref b m), queue (kv_incr_ref b m)) xs"
    using xs(1) dll_cong [OF kv_incr_ref_pool(2)] by (simp add: kv_incr_ref_pool(3))
  moreover have "set xs = {x. x < num_gpu_blocks m \<and> ref_cnt (pool (kv_incr_ref b m) x) = 0}"
  proof -
    have "x \<in> set xs \<longleftrightarrow> x < num_gpu_blocks m \<and> ref_cnt (pool m x) = 0 \<and> x \<noteq> b" for x
      using set xs(2) by (metis (mono_tags, lifting) insert_iff mem_Collect_eq)
    moreover have "ref_cnt (pool m b) = 0" using assms by (rule kv_midD)
    ultimately show ?thesis by (auto simp: kv_incr_ref_pool(1))
  qed
  ultimately have "queue_ok (kv_incr_ref b m)"
    by (auto simp: queue_ok_def ng)
  then show ?thesis
    using data_ok_incr kv_midD [OF assms] by (simp add: kv_inv_def)
qed

lemma incr_inv:
  assumes "kv_inv ex cx m" "b < num_gpu_blocks m" "0 < ref_cnt (pool m b)"
  shows "kv_inv (ex(b := ex b + 1)) cx (kv_incr_ref b m)"
proof -
  have ng: "num_gpu_blocks (kv_incr_ref b m) = num_gpu_blocks m"
    using ref_ops_static(1) by (simp add: same_static_def)
  have "{x. x < num_gpu_blocks m \<and> ref_cnt (pool (kv_incr_ref b m) x) = 0}
      = {x. x < num_gpu_blocks m \<and> ref_cnt (pool m x) = 0}"
    using assms(3) by (auto simp: kv_incr_ref_pool(1))
  then have "queue_ok (kv_incr_ref b m)"
    using assms(1) dll_cong [OF kv_incr_ref_pool(2)]
    by (simp add: kv_inv_def queue_ok_def ng kv_incr_ref_pool(3))
  then show ?thesis using data_ok_incr assms(1,2) by (simp add: kv_inv_def)
qed

end
