(* ===== verification/KVCacheOps.thy ===== *)
theory KVCacheOps
  imports KVCacheInv
begin

text \<open>
  Every operation of the KV-cache manager keeps \<open>kv_inv\<close>, with the exact effect of the
  operation on the references held outside the block tables.
\<close>

section \<open>Touching cached blocks\<close>

lemma touch_block_inv:
  assumes i: "kv_inv ex cx m" and b: "b < num_gpu_blocks m" and t: "touch_block b m = Inr m'"
  shows "kv_inv (ex(b := ex b + 1)) cx m'" "same_static m m'"
proof -
  have nonneg: "0 \<le> ref_cnt (pool m b)"
    using i b table_uses_nonneg by (simp add: kv_inv_def data_ok_def refs_ok_def)
  show "kv_inv (ex(b := ex b + 1)) cx m'"
  proof (cases "ref_cnt (pool m b) = 0")
    case True
    with t have "m' = kv_incr_ref b (set_status b FULL_CLEAN (gpu_remove b m))"
      by (simp add: touch_block_def status_updates)
    moreover have "kv_mid b ex cx (set_status b FULL_CLEAN (gpu_remove b m))"
      using gpu_remove_mid [OF i b True] by simp
    ultimately show ?thesis by (simp add: incr_mid_inv)
  next
    case False
    with t have "m' = kv_incr_ref b m" by (simp add: touch_block_def)
    with False nonneg show ?thesis using incr_inv [OF i b] by simp
  qed
  show "same_static m m'"
    using t by (auto simp: touch_block_def split: if_splits
        intro: same_static_trans [OF _ ref_ops_static(1)] same_static_trans try_upd_block_static queue_ops_static)
qed

lemma touch_inv:
  assumes "kv_inv ex cx m" "set bs \<subseteq> {..<num_gpu_blocks m}" "touch bs m = Inr m'"
  shows "kv_inv (\<lambda>b. ex b + counts bs b) cx m' \<and> same_static m m'"
  using assms unfolding touch_def
proof (induction bs arbitrary: ex m)
  case (Cons b bs)
  then obtain m1 where m1: "touch_block b m = Inr m1" "fold_result touch_block bs m1 = Inr m'" by auto
  have b: "b < num_gpu_blocks m" using Cons.prems by simp
  from touch_block_inv [OF Cons.prems(1) b m1(1)]
  have k: "kv_inv (ex(b := ex b + 1)) cx m1" and s: "same_static m m1" by auto
  have "set bs \<subseteq> {..<num_gpu_blocks m1}" using Cons.prems s by (simp add: same_static_def)
  from Cons.IH [OF k this m1(2)]
  have "kv_inv (\<lambda>x. (ex(b := ex b + 1)) x + counts bs x) cx m'" "same_static m m'"
    using s same_static_trans by blast+
  moreover have "(\<lambda>x. (ex(b := ex b + 1)) x + counts bs x) = (\<lambda>x. ex x + counts (b # bs) x)"
    by auto
  ultimately show ?case by simp
qed simp

section \<open>Eviction and allocation of a block\<close>

lemma cache_ok_evict:
  assumes ok: "cache_ok m" and h: "block_hash (pool m b) = Some h" and ids: "cached_blocks m h = Some ids"
    and n: "num_gpu_blocks m' = num_gpu_blocks m"
    and hash: "\<And>x. block_hash (pool m' x) = (if x = b then None else block_hash (pool m x))"
    and cached: "cached_blocks m' = (if remove1 b ids = [] then (cached_blocks m)(h := None)
        else (cached_blocks m)(h \<mapsto> remove1 b ids))"
  shows "cache_ok m'"
proof -
  have c1: "\<And>h' is. cached_blocks m h' = Some is \<Longrightarrow> is \<noteq> [] \<and> distinct is
      \<and> (\<forall>x \<in> set is. x < num_gpu_blocks m \<and> block_hash (pool m x) = Some h')"
    and c2: "\<And>x h'. block_hash (pool m x) = Some h' \<Longrightarrow> \<exists>is. cached_blocks m h' = Some is \<and> x \<in> set is"
    using ok by (auto simp: cache_ok_def)
  have rem: "set (remove1 b ids) = set ids - {b}" using c1 [OF ids] by simp
  have other: "cached_blocks m' h' = cached_blocks m h'" if "h' \<noteq> h" for h'
    using that by (simp add: cached)
  have same: "cached_blocks m' h = (if remove1 b ids = [] then None else Some (remove1 b ids))"
    by (simp add: cached)
  have A: "is \<noteq> [] \<and> distinct is \<and> (\<forall>x \<in> set is. x < num_gpu_blocks m' \<and> block_hash (pool m' x) = Some h')"
    if "cached_blocks m' h' = Some is" for h' "is"
  proof (cases "h' = h")
    case True
    then have "is = remove1 b ids" "remove1 b ids \<noteq> []" using that same by (auto split: if_splits)
    then show ?thesis using c1 [OF ids] rem True by (auto simp: hash n)
  next
    case False
    then have "cached_blocks m h' = Some is" using that other by simp
    then show ?thesis using c1 [of h' "is"] h False by (auto simp: hash n)
  qed
  have B: "\<exists>is. cached_blocks m' h' = Some is \<and> x \<in> set is"
    if "block_hash (pool m' x) = Some h'" for x h'
  proof -
    have x: "x \<noteq> b" "block_hash (pool m x) = Some h'" using that by (auto simp: hash split: if_splits)
    show ?thesis
    proof (cases "h' = h")
      case True
      then have "x \<in> set (remove1 b ids)" using c2 [OF x(2)] ids x(1) rem by auto
      then show ?thesis using True same by (auto split: if_splits)
    next
      case False
      then show ?thesis using c2 [OF x(2)] other by auto
    qed
  qed
  from A B show ?thesis unfolding cache_ok_def by blast
qed

lemma evict_data_ok:
  assumes d: "data_ok ex cx m"
  shows "\<exists>m'. evict_cached_block b m = Inr m' \<and> data_ok ex cx m' \<and> block_hash (pool m' b) = None
    \<and> same_links (pool m) (pool m') UNIV \<and> queue m' = queue m
    \<and> (\<forall>x. ref_cnt (pool m' x) = ref_cnt (pool m x)) \<and> pool_cpu m' = pool_cpu m"
proof (cases "block_hash (pool m b)")
  case None
  with d show ?thesis by (simp add: evict_cached_block_def same_links_def)
next
  case (Some h)
  with d obtain ids where ids: "cached_blocks m h = Some ids" "b \<in> set ids" "distinct ids"
    unfolding data_ok_def cache_ok_def by metis
  let ?c = "if remove1 b ids = [] then (cached_blocks m)(h := None) else (cached_blocks m)(h \<mapsto> remove1 b ids)"
  let ?m' = "(upd_block b reset_hash m)\<lparr>cached_blocks := ?c\<rparr>"
  have ev: "evict_cached_block b m = Inr ?m'"
    using Some ids by (simp add: evict_cached_block_def Let_def upd_block_def)
  have ref: "ref_cnt (pool ?m' x) = ref_cnt (pool m x)"
    "mapped_cpu_block (pool ?m' x) = mapped_cpu_block (pool m x)"
    "block_hash (pool ?m' x) = (if x = b then None else block_hash (pool m x))" for x
    by (simp_all add: upd_block_def reset_hash_def)
  have "cpu_share c (pool ?m' x) = cpu_share c (pool m x)" for c x
    by (simp add: cpu_share_def upd_block_def reset_hash_def)
  then have g: "gpu_refs_on ?m' c = gpu_refs_on m c" for c
    by (simp add: gpu_refs_on_def upd_block_def)
  have "refs_ok ex cx ?m'" "tables_ok ?m'"
    using d g ref by (simp_all add: data_ok_def refs_ok_def tables_ok_def upd_block_def)
  moreover have "cache_ok ?m'"
    by (rule cache_ok_evict [OF _ Some ids(1)]) (use d ref in \<open>simp_all add: data_ok_def upd_block_def\<close>)
  ultimately have "data_ok ex cx ?m'" by (simp add: data_ok_def)
  moreover have "same_links (pool m) (pool ?m') UNIV"
    by (simp add: upd_block_def reset_hash_def same_links_def)
  ultimately show ?thesis using ev ref by (auto simp: upd_block_def reset_hash_def)
qed

lemma cpu_popleft_data_ok:
  assumes "cpu_popleft m = Inr (c, m')"
  shows "same_ledger m m'" "pool m' = pool m" "queue m' = queue m" "enable_caching m' = enable_caching m"
proof -
  from assms obtain s' where "m' = m\<lparr>pool_cpu := fst s', queue_cpu := snd s'\<rparr>"
    "same_data (pool_cpu m) (fst s')"
    using fq_popleft_same_data [of "(pool_cpu m, queue_cpu m)" c] by (fastforce simp: cpu_popleft_def)
  then show "same_ledger m m'" "pool m' = pool m" "queue m' = queue m"
    "enable_caching m' = enable_caching m"
    by (auto simp: same_ledger_def same_data_def)
qed

lemma cpu_append_data_ok:
  assumes "cpu_append c m = Inr m'"
  shows "same_ledger m m'" "pool m' = pool m" "queue m' = queue m"
proof -
  have "same_data (fst s) (fst s')" if "fq_append c s = Inr s'" for s s'
    using that by (cases s) (auto simp: fq_append_def same_data_def Let_def split: option.splits)
  with assms have "\<exists>s'. m' = m\<lparr>pool_cpu := fst s', queue_cpu := snd s'\<rparr> \<and> same_data (pool_cpu m) (fst s')"
    by (fastforce simp: cpu_append_def)
  then show "same_ledger m m'" "pool m' = pool m" "queue m' = queue m"
    by (auto simp: same_ledger_def same_data_def)
qed

lemma remap_mid:
  assumes "kv_mid b ex cx m"
  shows "kv_mid b ex cx (upd_block b (\<lambda>blk. blk\<lparr>mapped_cpu_block := Some c\<rparr>) m)"
  using assms
proof (rule kv_mid_data)
  show "data_ok ex cx (upd_block b (\<lambda>blk. blk\<lparr>mapped_cpu_block := Some c\<rparr>) m)"
    using kv_midD [OF assms] by (simp add: data_ok_remap_unused)
qed (simp_all add: upd_block_def same_links_def)

lemma evict_mid:
  assumes "kv_mid b ex cx m" "evict_cached_block b m = Inr m'"
  shows "kv_mid b ex cx m'"
proof -
  from evict_data_ok [OF kv_midD(3) [OF assms(1)], of b] assms(2)
  have "data_ok ex cx m'" "same_links (pool m) (pool m') UNIV" "queue m' = queue m"
    "\<And>x. ref_cnt (pool m' x) = ref_cnt (pool m x)" by auto
  moreover have "num_gpu_blocks m' = num_gpu_blocks m"
    using evict_static [OF assms(2)] by (simp add: same_static_def)
  ultimately show ?thesis using kv_mid_data [OF assms(1)] by blast
qed

text \<open>
  The steps of \<open>_get_new_blocks\<close> for one block: pop, mark, copy-on-write of the CPU mapping,
  eviction from the prefix cache, first reference.
\<close>

lemma get_new_block_steps:
  assumes "get_new_block m = Inr (b, m')"
  obtains m1 m2 m3 where "gpu_popleft m = Inr (b, m1)"
    "cow_cpu_mapping b (set_status b EMPTY m1) = Inr m2"
    "(if enable_caching m2 then evict_cached_block b m2 else Inr m2) = Inr m3"
    "m' = kv_incr_ref b m3"
  using assms by (auto simp: get_new_block_def Let_def status_updates)

lemma cow_cpu_mapping_cases:
  assumes "cow_cpu_mapping b m = Inr m'"
  obtains "m' = m"
  | c m1 where "cpu_popleft m = Inr (c, m1)"
      "m' = upd_block b (\<lambda>blk. blk\<lparr>mapped_cpu_block := Some c\<rparr>) m1"
  using assms by (auto simp: cow_cpu_mapping_def split: option.splits if_splits)

lemma cow_mid:
  assumes "kv_mid b ex cx m" "cow_cpu_mapping b m = Inr m'"
  shows "kv_mid b ex cx m'" "same_static m m'" "same_links (pool m) (pool m') UNIV"
    "queue m' = queue m" "\<And>x. ref_cnt (pool m' x) = ref_cnt (pool m x)"
    "\<And>x. block_hash (pool m' x) = block_hash (pool m x)"
proof -
  have "kv_mid b ex cx m' \<and> same_static m m' \<and> same_links (pool m) (pool m') UNIV
    \<and> queue m' = queue m \<and> (\<forall>x. ref_cnt (pool m' x) = ref_cnt (pool m x))
    \<and> (\<forall>x. block_hash (pool m' x) = block_hash (pool m x))"
    using assms(2)
  proof (cases rule: cow_cpu_mapping_cases)
    case 1
    with assms(1) show ?thesis by (simp add: same_links_def)
  next
    case (2 c m1)
    note c = cpu_popleft_data_ok [OF 2(1)]
    have "kv_mid b ex cx m1"
      using assms(1) kv_mid_cong [OF c(1)] c(2,3) by (simp add: same_links_def)
    moreover have "same_static m m'"
      using 2 by (auto intro: static_intros same_static_trans)
    moreover have "kv_mid b ex cx m'"
      using \<open>kv_mid b ex cx m1\<close> by (simp add: 2(2) remap_mid)
    ultimately show ?thesis
      using 2(2) c(2,3) by (auto simp: upd_block_def same_links_def)
  qed
  then show "kv_mid b ex cx m'" "same_static m m'" "same_links (pool m) (pool m') UNIV"
    "queue m' = queue m" "\<And>x. ref_cnt (pool m' x) = ref_cnt (pool m x)"
    "\<And>x. block_hash (pool m' x) = block_hash (pool m x)" by auto
qed

lemma get_new_block_inv:
  assumes i: "kv_inv ex cx m" and g: "get_new_block m = Inr (b, m')"
  shows "kv_inv (ex(b := ex b + 1)) cx m'" and "same_static m m'"
    and "b < num_gpu_blocks m" and "ref_cnt (pool m b) = 0"
    and "ref_cnt (pool m' x) = ref_cnt (pool m x) + (if x = b then 1 else 0)"
    and "\<exists>xs. dll (pool m, queue m) (b # xs) \<and> dll (pool m', queue m') xs"
proof -
  from g obtain m1 m2 m3 where 1: "gpu_popleft m = Inr (b, m1)"
    and 2: "cow_cpu_mapping b (set_status b EMPTY m1) = Inr m2"
    and 3: "(if enable_caching m2 then evict_cached_block b m2 else Inr m2) = Inr m3"
    and 4: "m' = kv_incr_ref b m3"
    by (rule get_new_block_steps)
  have k1: "kv_mid b ex cx (set_status b EMPTY m1)"
    using gpu_popleft_mid(1) [OF i 1] by simp
  note cow = cow_mid [OF k1 2]
  note k2 = cow(1)
  have k3: "kv_mid b ex cx m3"
    using 3 k2 evict_mid [OF k2] by (auto split: if_splits)
  from incr_mid_inv [OF k3] show "kv_inv (ex(b := ex b + 1)) cx m'" by (simp add: 4)
  have s2: "same_static m1 m2"
    using cow(2) set_status_static same_static_trans by blast
  have s1: "same_static m m1" using 1 by (rule static_intros)
  have s3: "same_static m2 m3" using 3 by (auto split: if_splits intro: static_intros)
  show "same_static m m'"
    unfolding 4 using s1 s2 s3 ref_ops_static(1) same_static_trans by blast
  obtain xs where xs: "dll (pool m, queue m) (b # xs)" "dll (pool m1, queue m1) xs"
    using gpu_popleft_mid(2) [OF i 1] by auto
  have "num_gpu_blocks m1 = num_gpu_blocks m" using s1 by (simp add: same_static_def)
  then show b: "b < num_gpu_blocks m" using kv_midD(1) [OF gpu_popleft_mid(1) [OF i 1]] by simp
  from i xs(1) dll_unique show r: "ref_cnt (pool m b) = 0"
    by (force simp: kv_inv_def queue_ok_def)
  have d1: "same_data (pool m) (pool m1)"
    using 1 fq_popleft_same_data [of "(pool m, queue m)" b] by (fastforce simp: gpu_popleft_def)
  have l2: "same_links (pool m1) (pool m2) UNIV \<and> queue m2 = queue m1
      \<and> (\<forall>x. ref_cnt (pool m2 x) = ref_cnt (pool m1 x))"
    using cow(3-5) set_status_links [of m1 b EMPTY] set_status_queue [of b EMPTY m1]
    by (auto simp: same_links_def)
  have l3: "same_links (pool m2) (pool m3) UNIV \<and> queue m3 = queue m2
      \<and> (\<forall>x. ref_cnt (pool m3 x) = ref_cnt (pool m2 x))"
    using 3 evict_data_ok [OF kv_midD(3) [OF k2], of b] by (auto simp: same_links_def split: if_splits)
  show "ref_cnt (pool m' x) = ref_cnt (pool m x) + (if x = b then 1 else 0)"
    using d1 l2 l3 by (simp add: 4 kv_incr_ref_pool same_data_def)
  have "dll (pool m', queue m') xs"
    using xs(2) dll_cong l2 l3 kv_incr_ref_pool(2,3) unfolding 4 by metis
  with xs(1) show "\<exists>xs. dll (pool m, queue m) (b # xs) \<and> dll (pool m', queue m') xs" by blast
qed

lemma get_new_blocks_loop_inv:
  assumes "kv_inv ex cx m" "get_new_blocks_loop k m = Inr (bs, m')"
  shows "kv_inv (\<lambda>b. ex b + counts bs b) cx m' \<and> same_static m m' \<and> length bs = k
    \<and> set bs \<subseteq> {..<num_gpu_blocks m}
    \<and> (\<forall>x. ref_cnt (pool m' x) = ref_cnt (pool m x) + counts bs x)
    \<and> (\<exists>xs. dll (pool m, queue m) (bs @ xs) \<and> dll (pool m', queue m') xs)"
  using assms
proof (induction k arbitrary: ex m bs)
  case 0
  then show ?case by (auto simp: kv_inv_def queue_ok_def)
next
  case (Suc k)
  then obtain b m1 cs where b: "get_new_block m = Inr (b, m1)"
    and cs: "get_new_blocks_loop k m1 = Inr (cs, m')" and bs: "bs = b # cs" by auto
  note g = get_new_block_inv [OF Suc.prems(1) b]
  from Suc.IH [OF g(1) cs] obtain xs where
    k: "kv_inv (\<lambda>x. (ex(b := ex b + 1)) x + counts cs x) cx m'" and s: "same_static m1 m'"
    and l: "length cs = k" "set cs \<subseteq> {..<num_gpu_blocks m1}"
    and r: "\<forall>x. ref_cnt (pool m' x) = ref_cnt (pool m1 x) + counts cs x"
    and xs: "dll (pool m1, queue m1) (cs @ xs)" "dll (pool m', queue m') xs" by auto
  have eq: "(\<lambda>x. (ex(b := ex b + 1)) x + counts cs x) = (\<lambda>x. ex x + counts bs x)"
    by (auto simp: bs)
  from g(6) obtain ys where "dll (pool m, queue m) (b # ys)" "dll (pool m1, queue m1) ys" by auto
  with xs(1) dll_unique have "dll (pool m, queue m) (bs @ xs)" by (auto simp: bs)
  moreover have "set bs \<subseteq> {..<num_gpu_blocks m}"
    using g(2,3) l(2) by (simp add: bs same_static_def)
  moreover have "ref_cnt (pool m' x) = ref_cnt (pool m x) + counts bs x" for x
    using r g(5) by (simp add: bs)
  moreover have "kv_inv (\<lambda>x. ex x + counts bs x) cx m'" using k unfolding eq .
  moreover have "length bs = Suc k" "same_static m m'"
    using l(1) s g(2) same_static_trans by (auto simp: bs)
  ultimately show ?case using xs(2) by blast
qed

lemma get_new_blocks_inv:
  assumes i: "kv_inv ex cx m" and g: "get_new_blocks n m = Inr (bs, m')"
  shows "kv_inv (\<lambda>b. ex b + counts bs b) cx m'" "same_static m m'" "length bs = nat n"
    "set bs \<subseteq> {..<num_gpu_blocks m}" "distinct bs"
    "\<And>b. b \<in> set bs \<Longrightarrow> ref_cnt (pool m b) = 0"
    "\<And>x. ref_cnt (pool m' x) = ref_cnt (pool m x) + counts bs x"
    "\<exists>xs. dll (pool m, queue m) (bs @ xs) \<and> dll (pool m', queue m') xs"
proof -
  from g have l: "get_new_blocks_loop (nat n) m = Inr (bs, m')"
    by (auto simp: get_new_blocks_def split: if_splits)
  note L = get_new_blocks_loop_inv [OF i l]
  from L show "kv_inv (\<lambda>b. ex b + counts bs b) cx m'" "same_static m m'" "length bs = nat n"
    "set bs \<subseteq> {..<num_gpu_blocks m}"
    "\<And>x. ref_cnt (pool m' x) = ref_cnt (pool m x) + counts bs x"
    and ex: "\<exists>xs. dll (pool m, queue m) (bs @ xs) \<and> dll (pool m', queue m') xs" by auto
  from ex obtain xs where xs: "dll (pool m, queue m) (bs @ xs)" by auto
  then show "distinct bs" by (auto dest: dll_distinct)
  show "ref_cnt (pool m b) = 0" if "b \<in> set bs" for b
    using i xs dll_unique that by (force simp: kv_inv_def queue_ok_def)
qed

section \<open>Caching full blocks\<close>

lemma cache_ok_add:
  assumes ok: "cache_ok m" and none: "block_hash (pool m b) = None" and b: "b < num_gpu_blocks m"
    and n: "num_gpu_blocks m' = num_gpu_blocks m"
    and hash: "\<And>x. block_hash (pool m' x) = (if x = b then Some h else block_hash (pool m x))"
    and cached: "cached_blocks m' = (cached_blocks m)
        (h \<mapsto> dict_add b (case cached_blocks m h of None \<Rightarrow> [] | Some ids \<Rightarrow> ids))"
  shows "cache_ok m'"
proof -
  have c1: "\<And>h' is. cached_blocks m h' = Some is \<Longrightarrow> is \<noteq> [] \<and> distinct is
      \<and> (\<forall>x \<in> set is. x < num_gpu_blocks m \<and> block_hash (pool m x) = Some h')"
    and c2: "\<And>x h'. block_hash (pool m x) = Some h' \<Longrightarrow> \<exists>is. cached_blocks m h' = Some is \<and> x \<in> set is"
    using ok by (auto simp: cache_ok_def)
  have A: "is \<noteq> [] \<and> distinct is \<and> (\<forall>x \<in> set is. x < num_gpu_blocks m' \<and> block_hash (pool m' x) = Some h')"
    if "cached_blocks m' h' = Some is" for h' "is"
  proof (cases "h' = h")
    case True
    then show ?thesis using that b c1 [of h] by (auto simp: cached hash n split: option.splits)
  next
    case False
    then have "cached_blocks m h' = Some is" using that by (simp add: cached)
    then show ?thesis using c1 [of h' "is"] none by (auto simp: hash n)
  qed
  have B: "\<exists>is. cached_blocks m' h' = Some is \<and> x \<in> set is"
    if "block_hash (pool m' x) = Some h'" for x h'
    using that c2 [of x h'] by (auto simp: cached hash split: if_splits)
  from A B show ?thesis unfolding cache_ok_def by blast
qed

text \<open>The request changes in its cached hashes only.\<close>

definition hashes_only :: "request \<Rightarrow> request \<Rightarrow> bool" where
  "hashes_only r r' \<longleftrightarrow> r' = r\<lparr>kv_block_hashes := kv_block_hashes r'\<rparr>"

lemma hashes_only_refl [simp]: "hashes_only r r"
  by (simp add: hashes_only_def)

lemma hashes_only_trans: "hashes_only a b \<Longrightarrow> hashes_only b c \<Longrightarrow> hashes_only a c"
  by (cases a; cases b; cases c) (simp add: hashes_only_def)

lemma hashes_only_append [simp]: "hashes_only r (append_kv_block_hashes h r)"
  "hashes_only r (set_kv_block_hashes hs r)"
  by (simp_all add: hashes_only_def append_kv_block_hashes_def set_kv_block_hashes_def)

lemma set_hash_inv:
  assumes i: "kv_inv ex cx m" and b: "b < num_gpu_blocks m"
    and s: "try_upd_block b (set_block_hash h) m = Inr m1"
    and m': "m' = m1\<lparr>cached_blocks := (cached_blocks m1)
        (h \<mapsto> dict_add b (case cached_blocks m1 h of None \<Rightarrow> [] | Some ids \<Rightarrow> ids))\<rparr>"
  shows "kv_inv ex cx m' \<and> same_static m m'"
proof -
  from s have none: "block_hash (pool m b) = None"
    and m1: "m1 = m\<lparr>pool := (pool m)(b := (pool m b)\<lparr>block_hash := Some h\<rparr>)\<rparr>"
    by (auto simp: try_upd_block_def set_block_hash_def upd_block_def split: if_splits)
  have "cpu_share c (pool m' x) = cpu_share c (pool m x)" for c x
    by (simp add: cpu_share_def m' m1)
  then have "gpu_refs_on m' c = gpu_refs_on m c" for c
    by (simp add: gpu_refs_on_def m' m1)
  moreover have ok: "data_ok ex cx m" using i by (simp add: kv_inv_def)
  ultimately have "refs_ok ex cx m'" "tables_ok m'"
    by (simp_all add: data_ok_def refs_ok_def tables_ok_def m' m1)
  moreover have "cache_ok m'"
    by (rule cache_ok_add [OF _ none b]) (use ok in \<open>simp_all add: data_ok_def m' m1\<close>)
  ultimately have "data_ok ex cx m'" by (simp add: data_ok_def)
  with i have "kv_inv ex cx m'"
    by (rule kv_inv_data) (simp_all add: m' m1 same_links_def)
  then show ?thesis by (simp add: m' m1 same_static_def)
qed

lemma cache_full_block_inv:
  assumes i: "kv_inv ex cx m" and b: "b < num_gpu_blocks m"
    and c: "cache_full_block hsh nc (idx, b) (m, r, prev) = Inr (m', r', prev')"
  shows "kv_inv ex cx m'" "same_static m m'" "hashes_only r r'"
proof -
  from c obtain h m1 where 1: "try_upd_block b (set_block_hash h) m = Inr m1"
    "m' = m1\<lparr>cached_blocks := (cached_blocks m1)
        (h \<mapsto> dict_add b (case cached_blocks m1 h of None \<Rightarrow> [] | Some ids \<Rightarrow> ids))\<rparr>"
    and 2: "hashes_only r r'"
    by (auto simp: cache_full_block_def Let_def split: if_splits)
  from set_hash_inv [OF i b 1] 2 show "kv_inv ex cx m'" "same_static m m'" "hashes_only r r'" by auto
qed

lemma cache_full_blocks_inv:
  assumes i: "kv_inv ex cx m" and bs: "set bs \<subseteq> {..<num_gpu_blocks m}"
    and c: "cache_full_blocks hsh r start bs prev m = Inr (r', m')"
  shows "kv_inv ex cx m'" "same_static m m'" "hashes_only r r'"
proof -
  let ?xs = "zip [start..<start + length bs] bs"
  let ?P = "\<lambda>(m1, r1, p1 :: int option). kv_inv ex cx m1 \<and> same_static m m1 \<and> hashes_only r r1"
  from c obtain p p' where f:
    "fold_result (cache_full_block hsh (length (kv_block_hashes r))) ?xs (m, r, p) = Inr (m', r', p')"
    by (auto simp: cache_full_blocks_def)
  have "?P (m', r', p')"
    using f
  proof (rule fold_result_invariant [where P = ?P])
    fix x s t
    assume x: "x \<in> set ?xs" and s: "?P s"
      and step: "cache_full_block hsh (length (kv_block_hashes r)) x s = Inr t"
    obtain k b m1 r1 p1 m2 r2 p2 where eq: "x = (k, b)" "s = (m1, r1, p1)" "t = (m2, r2, p2)"
      by (metis prod_cases3 surj_pair)
    have "b \<in> set bs" using x by (auto simp: eq dest: set_zip_rightD)
    then have "b < num_gpu_blocks m1" using bs s by (auto simp: eq same_static_def)
    with s step show "?P t"
      using cache_full_block_inv [of ex cx m1 b hsh "length (kv_block_hashes r)" k r1 p1 m2 r2 p2]
      by (auto simp: eq intro: same_static_trans hashes_only_trans)
  qed (simp add: i)
  then show "kv_inv ex cx m'" "same_static m m'" "hashes_only r r'" by auto
qed

section \<open>Slots\<close>

lemma set_status_fold_inv:
  assumes "fold_result f bs m = Inr m'" "kv_inv ex cx m"
    and "\<And>x m m'. f x m = Inr m' \<Longrightarrow> \<exists>b s. m' = set_status b s m"
  shows "kv_inv ex cx m' \<and> same_static m m'"
  using assms(1)
proof (rule fold_result_invariant [where P = "\<lambda>m'. kv_inv ex cx m' \<and> same_static m m'"])
  show "kv_inv ex cx m \<and> same_static m m" using assms(2) by simp
next
  fix x s t
  assume "kv_inv ex cx s \<and> same_static m s" "f x s = Inr t"
  then show "kv_inv ex cx t \<and> same_static m t"
    using assms(3) by (metis same_static_trans set_status_inv(1) set_status_static)
qed

lemma kv_inv_pending [simp]:
  "kv_inv ex cx (m\<lparr>pending_swap_out := p\<rparr>) = kv_inv ex cx m"
  "kv_inv ex cx (m\<lparr>pending_swap_in := p\<rparr>) = kv_inv ex cx m"
  by (rule kv_inv_cong; simp add: same_ledger_def same_links_def)+

lemma same_static_pending [simp]:
  "same_static m (m\<lparr>pending_swap_out := p\<rparr>)" "same_static m (m\<lparr>pending_swap_in := p\<rparr>)"
  by (simp_all add: same_static_def)

lemma mark_cached_block_inv:
  assumes "mark_cached_block b m = Inr m'" "kv_inv ex cx m"
  shows "kv_inv ex cx m' \<and> same_static m m'"
proof -
  from assms(1) obtain p where "m' = (set_status b FULL_CLEAN m)\<lparr>pending_swap_out := p\<rparr>"
    by (auto simp: mark_cached_block_def status_updates)
  with assms(2) show ?thesis
    using same_static_pending(1) set_status_static same_static_trans by fastforce
qed

lemma mark_cached_blocks_inv:
  assumes "fold_result mark_cached_block bs m = Inr m'" "kv_inv ex cx m"
  shows "kv_inv ex cx m' \<and> same_static m m'"
  using assms(1)
proof (rule fold_result_invariant [where P = "\<lambda>m'. kv_inv ex cx m' \<and> same_static m m'"])
  fix x s t
  assume "kv_inv ex cx s \<and> same_static m s" "mark_cached_block x s = Inr t"
  then show "kv_inv ex cx t \<and> same_static m t"
    using mark_cached_block_inv same_static_trans by blast
qed (use assms(2) in simp)

text \<open>Only the hash list and the cached-token counter of the request change.\<close>

definition cache_fields_only :: "request \<Rightarrow> request \<Rightarrow> bool" where
  "cache_fields_only r r' \<longleftrightarrow>
     r' = r\<lparr>kv_block_hashes := kv_block_hashes r', num_cached_tokens := num_cached_tokens r'\<rparr>"

lemma cache_fields_only_refl [simp]: "cache_fields_only r r"
  by (simp add: cache_fields_only_def)

lemma hashes_only_cache_fields: "hashes_only r r' \<Longrightarrow> cache_fields_only r r'"
  by (cases r; cases r') (simp add: hashes_only_def cache_fields_only_def)

lemma hashes_only_cached_tokens:
  "hashes_only r r' \<Longrightarrow> cache_fields_only r (r'\<lparr>num_cached_tokens := n\<rparr>)"
  by (cases r; cases r') (simp add: hashes_only_def cache_fields_only_def)

text \<open>The fields that no cache operation writes.\<close>

lemma cache_fields_only_frame:
  assumes "cache_fields_only r r'"
  shows "request_id r' = request_id r" "req_status r' = req_status r" "lookahead r' = lookahead r"
    "num_tokens r' = num_tokens r" "num_computed_tokens r' = num_computed_tokens r"
  using assms by (cases r; cases r'; simp add: cache_fields_only_def num_tokens_def)+

lemma hashes_only_frame:
  "hashes_only r r' \<Longrightarrow> request_id r' = request_id r"
  using cache_fields_only_frame(1) hashes_only_cache_fields by blast

lemma append_slots_caching_inv:
  assumes i: "kv_inv ex cx m" and bs: "set req_blocks \<subseteq> {..<num_gpu_blocks m}"
    and a: "append_slots_caching hsh r n req req_blocks m = Inr (r', m')"
  shows "kv_inv ex cx m' \<and> same_static m m' \<and> cache_fields_only r r'"
proof -
  have sub: "set (py_slice req_blocks i j) \<subseteq> {..<num_gpu_blocks m}" for i j
    using bs set_py_slice by fastforce
  have cf: "kv_inv ex cx m1 \<and> same_static m m1 \<and> hashes_only r r1"
    if "cache_full_blocks hsh r start (py_slice req_blocks i j) prev m = Inr (r1, m1)"
    for start i j prev r1 m1
    using cache_full_blocks_inv [OF i sub that] by blast
  show ?thesis
  proof (cases "fix_wrong_prefix_caching m")
    case False
    with a i show ?thesis
      by (auto simp: append_slots_caching_def Let_def split: if_splits
          dest!: cf intro: hashes_only_cache_fields)
  next
    case True
    let ?new = "py_slice req_blocks (num_cached_tokens r div block_size m)
      (min (num_computed_tokens r) (int (length (all_ids r))) div block_size m)"
    from a True obtain m1 m2 where
      1: "kv_inv ex cx m1" "same_static m m1" "cache_fields_only r r'"
      and 2: "fold_result mark_cached_block ?new m1 = Inr m2"
      and 3: "fold_result (\<lambda>b. try_upd_block b (mark_half False True False))
        (py_slice req_blocks (min (num_computed_tokens r) (int (length (all_ids r))) div block_size m) req) m2
        = Inr m'"
      using i
      by (auto simp: append_slots_caching_def Let_def split: if_splits
          dest!: cf intro: hashes_only_cached_tokens)
    from mark_cached_blocks_inv [OF 2 1(1)] have k2: "kv_inv ex cx m2" "same_static m1 m2" by auto
    have "kv_inv ex cx m' \<and> same_static m2 m'"
      using 3 k2(1) by (rule set_status_fold_inv) (auto simp: status_updates)
    with 1 k2 show ?thesis using same_static_trans by blast
  qed
qed

text \<open>Everything fixed by the configuration.\<close>

definition same_config :: "kv_manager \<Rightarrow> kv_manager \<Rightarrow> bool" where
  "same_config m m' \<longleftrightarrow>
     block_size m' = block_size m \<and> num_gpu_blocks m' = num_gpu_blocks m
     \<and> num_cpu_blocks m' = num_cpu_blocks m
     \<and> max_num_blocks_per_req m' = max_num_blocks_per_req m
     \<and> enable_caching m' = enable_caching m
     \<and> fix_wrong_prefix_caching m' = fix_wrong_prefix_caching m
     \<and> num_preallocate_blocks m' = num_preallocate_blocks m"

lemma same_static_config: "same_static m m' \<Longrightarrow> same_config m m'"
  by (simp add: same_static_def same_config_def)

lemma same_config_trans [trans]: "same_config a b \<Longrightarrow> same_config b c \<Longrightarrow> same_config a c"
  by (simp add: same_config_def)

lemma same_config_tables [simp]:
  "same_config m m" "same_config m (m\<lparr>req_to_blocks := t\<rparr>)" "same_config m (m\<lparr>req_to_blocks_cpu := t\<rparr>)"
  by (simp_all add: same_config_def)

lemma kv_inv_set_table:
  assumes i: "kv_inv ex cx m" and bs: "set bs \<subseteq> {..<num_gpu_blocks m}"
    and nonneg: "\<And>b. 0 \<le> ex b + table_count (req_to_blocks m) rid b - counts bs b"
  shows "kv_inv (\<lambda>b. ex b + table_count (req_to_blocks m) rid b - counts bs b) cx
    (m\<lparr>req_to_blocks := (req_to_blocks m)(rid \<mapsto> bs)\<rparr>)"
  using i data_ok_set_table [OF _ bs nonneg] by (simp add: kv_inv_def queue_ok_def)

lemma append_new_blocks_inv:
  assumes i: "kv_inv ex cx m" and old: "req_to_blocks m rid = Some old"
    and a: "append_new_blocks rid old k m = Inr (new, m1)"
  shows "kv_inv ex cx m1" "same_config m m1" "req_to_blocks_cpu m1 = req_to_blocks_cpu m"
    "req_to_blocks m1 = (req_to_blocks m)(rid \<mapsto> old @ new)"
    "set (old @ new) \<subseteq> {..<num_gpu_blocks m1}"
proof -
  have old_sub: "set old \<subseteq> {..<num_gpu_blocks m}"
    using i old by (auto simp: kv_inv_def data_ok_def tables_ok_def)
  have "kv_inv ex cx m1 \<and> same_config m m1 \<and> req_to_blocks_cpu m1 = req_to_blocks_cpu m
      \<and> req_to_blocks m1 = (req_to_blocks m)(rid \<mapsto> old @ new)
      \<and> set (old @ new) \<subseteq> {..<num_gpu_blocks m1}"
  proof (cases "k \<le> 0")
    case True
    with a i old old_sub show ?thesis by (auto simp: append_new_blocks_def map_upd_triv)
  next
    case False
    with a obtain j m0 where g: "get_new_blocks j m = Inr (new, m0)"
      and m1: "m1 = m0\<lparr>req_to_blocks := (req_to_blocks m0)(rid \<mapsto> old @ new)\<rparr>"
      by (auto simp: append_new_blocks_def Let_def)
    note G = get_new_blocks_inv [OF i g]
    have t: "table_count (req_to_blocks m0) rid b = counts old b" for b
      using G(2) old by (simp add: same_static_def table_count_def)
    have ex: "(\<lambda>b. ex b + counts new b + table_count (req_to_blocks m0) rid b - counts (old @ new) b) = ex"
      by (simp add: t fun_eq_iff)
    have "0 \<le> ex b" for b using i by (simp add: kv_inv_def data_ok_def refs_ok_def)
    then have "kv_inv ex cx m1"
      using kv_inv_set_table [OF G(1), of "old @ new" rid] old_sub G(2,4)
      by (simp add: ex m1 same_static_def t)
    then show ?thesis
      using G(2,4) old_sub same_static_config [OF G(2)]
      by (auto simp: m1 same_static_def same_config_def)
  qed
  then show "kv_inv ex cx m1" "same_config m m1" "req_to_blocks_cpu m1 = req_to_blocks_cpu m"
    "req_to_blocks m1 = (req_to_blocks m)(rid \<mapsto> old @ new)"
    "set (old @ new) \<subseteq> {..<num_gpu_blocks m1}" by auto
qed

lemma append_slots_None:
  "append_slots hsh r n m = Inr (None, r', m') \<Longrightarrow> m' = m \<and> r' = r"
  by (auto simp: append_slots_def Let_def split: if_splits)

lemma append_slots_Some:
  assumes "append_slots hsh r n m = Inr (Some new, r', m')"
  obtains old m1 where "req_to_blocks m (request_id r) = Some old"
    "cdiv (num_computed_tokens r + n) (block_size m) - int (length old) \<le> num_free_blocks (queue m)"
    "append_new_blocks (request_id r) old
       (cdiv (num_computed_tokens r + n) (block_size m) - int (length old)) m = Inr (new, m1)"
    "(\<not> enable_caching m1 \<and> r' = r \<and> m' = m1)
     \<or> (enable_caching m1 \<and> append_slots_caching hsh r n
          (cdiv (num_computed_tokens r + n) (block_size m)) (old @ new) m1 = Inr (r', m'))"
  using assms
  by (auto simp: append_slots_def lookup_key_def Let_def split: if_splits option.splits)

lemma append_slots_inv:
  assumes i: "kv_inv ex cx m" and a: "append_slots hsh r n m = Inr (Some new, r', m')"
  shows "kv_inv ex cx m'" "same_config m m'" "cache_fields_only r r'"
    "req_to_blocks_cpu m' = req_to_blocks_cpu m"
    "\<exists>old. req_to_blocks m (request_id r) = Some old
       \<and> req_to_blocks m' = (req_to_blocks m)(request_id r \<mapsto> old @ new)"
proof -
  from a obtain old m1 where old: "req_to_blocks m (request_id r) = Some old"
    and 1: "append_new_blocks (request_id r) old
       (cdiv (num_computed_tokens r + n) (block_size m) - int (length old)) m = Inr (new, m1)"
    and 2: "(\<not> enable_caching m1 \<and> r' = r \<and> m' = m1)
     \<or> (enable_caching m1 \<and> append_slots_caching hsh r n
          (cdiv (num_computed_tokens r + n) (block_size m)) (old @ new) m1 = Inr (r', m'))"
    by (rule append_slots_Some)
  note A = append_new_blocks_inv [OF i old 1]
  from 2 have "kv_inv ex cx m' \<and> same_static m1 m' \<and> cache_fields_only r r'"
    using append_slots_caching_inv [OF A(1,5)] A(1) by auto
  with A old show "kv_inv ex cx m'" "same_config m m'" "cache_fields_only r r'"
    "req_to_blocks_cpu m' = req_to_blocks_cpu m"
    "\<exists>old. req_to_blocks m (request_id r) = Some old
       \<and> req_to_blocks m' = (req_to_blocks m)(request_id r \<mapsto> old @ new)"
    using same_config_trans same_static_config by (auto simp: same_static_def)
qed

section \<open>Freeing\<close>

lemma kv_decr_ref_pool:
  "ref_cnt (pool (kv_decr_ref k b m) x) = ref_cnt (pool m x) - (if x = b then 1 else 0)"
  "same_links (pool m) (pool (kv_decr_ref k b m)) UNIV" "queue (kv_decr_ref k b m) = queue m"
  "mapped_cpu_block (pool (kv_decr_ref k b m) x) = mapped_cpu_block (pool m x)"
  by (auto simp: kv_decr_ref_def decr_ref_def add_ref_def same_links_def)

definition bump :: "bool \<Rightarrow> nat \<Rightarrow> (nat \<Rightarrow> int) \<Rightarrow> (nat \<Rightarrow> int)" where
  "bump k c cx = (if k then cx(c := cx c + 1) else cx)"

lemma free_block_inv:
  assumes i: "kv_inv ex cx m" and b: "b < num_gpu_blocks m" "0 < ex b"
    and c: "mapped_cpu_block (pool m b) = Some c" and f: "free_block k sw b m = Inr m'"
  shows "kv_inv (ex(b := ex b - 1)) (bump k c cx) m' \<and> same_static m m'
    \<and> (\<forall>x. mapped_cpu_block (pool m' x) = mapped_cpu_block (pool m x))"
proof -
  let ?m = "kv_decr_ref k b m"
  have s: "same_static m ?m" by (rule static_intros)
  have pos: "0 < ref_cnt (pool m b)"
    using i b table_uses_nonneg [of "req_to_blocks m" b] by (simp add: kv_inv_def data_ok_def refs_ok_def)
  have d: "data_ok (ex(b := ex b - 1)) (bump k c cx) ?m"
    using data_ok_decr [of ex cx m b c k] i b c by (simp add: kv_inv_def bump_def)
  from i obtain xs where xs: "dll (pool m, queue m) xs"
    and set: "set xs = {x. x < num_gpu_blocks m \<and> ref_cnt (pool m x) = 0}"
    by (auto simp: kv_inv_def queue_ok_def)
  have dll: "dll (pool ?m, queue ?m) xs"
    using xs dll_cong [OF kv_decr_ref_pool(2)] by (simp add: kv_decr_ref_pool(3))
  have ng: "num_gpu_blocks ?m = num_gpu_blocks m" using s by (simp add: same_static_def)
  show ?thesis
  proof (cases "ref_cnt (pool ?m b) = 0")
    case True
    have mem: "x \<in> set xs \<longleftrightarrow> x < num_gpu_blocks m \<and> ref_cnt (pool m x) = 0" for x
      by (simp add: set)
    have bx: "b \<notin> set xs" using mem pos by simp
    have "x \<in> insert b (set xs) \<longleftrightarrow> x < num_gpu_blocks ?m \<and> ref_cnt (pool ?m x) = 0" for x
      using True b(1) by (cases "x = b") (simp_all add: mem kv_decr_ref_pool(1) ng)
    then have "insert b (set xs) = {x. x < num_gpu_blocks ?m \<and> ref_cnt (pool ?m x) = 0}"
      by blast
    with d dll bx have mid: "kv_mid b (ex(b := ex b - 1)) (bump k c cx) ?m"
      unfolding kv_mid_def by blast
    from True f have "gpu_append b (set_status b FREE ?m) = Inr m'"
      by (simp add: free_block_def Let_def status_updates)
    with gpu_append_inv [of b "ex(b := ex b - 1)" "bump k c cx" "set_status b FREE ?m"] mid s
    show ?thesis
      using queue_ops_static(2) [of b "set_status b FREE ?m" m'] set_status_static [of ?m b FREE]
      by (auto simp: same_data_def kv_decr_ref_pool(4) intro: same_static_trans)
  next
    case False
    have "x \<in> set xs \<longleftrightarrow> x < num_gpu_blocks ?m \<and> ref_cnt (pool ?m x) = 0" for x
      using False pos by (cases "x = b") (simp_all add: set kv_decr_ref_pool(1) ng)
    then have "set xs = {x. x < num_gpu_blocks ?m \<and> ref_cnt (pool ?m x) = 0}" by blast
    with d dll have inv: "kv_inv (ex(b := ex b - 1)) (bump k c cx) ?m"
      unfolding kv_inv_def queue_ok_def by blast
    from False f have "m' = ?m \<or> (\<exists>st. m' = set_status b st ?m)"
      by (auto simp: free_block_def Let_def split: if_splits dest!: mark_clean_status)
    with inv s show ?thesis
      using set_status_static [of ?m b] by (auto simp: kv_decr_ref_pool(4) intro: same_static_trans)
  qed
qed

lemma free_block_total:
  assumes i: "kv_inv ex cx m" and b: "b < num_gpu_blocks m" "0 < ex b"
  shows "\<exists>m'. free_block k False b m = Inr m'"
proof (cases "ref_cnt (pool (kv_decr_ref k b m) b) = 0")
  case True
  let ?m = "set_status b FREE (kv_decr_ref k b m)"
  from i obtain xs where xs: "dll (pool m, queue m) xs"
    and set: "set xs = {x. x < num_gpu_blocks m \<and> ref_cnt (pool m x) = 0}"
    by (auto simp: kv_inv_def queue_ok_def)
  have "0 < ref_cnt (pool m b)"
    using i b table_uses_nonneg [of "req_to_blocks m" b] by (simp add: kv_inv_def data_ok_def refs_ok_def)
  then have "b \<notin> set xs" using set by auto
  moreover have "dll (pool ?m, queue ?m) xs"
    using xs dll_cong [OF kv_decr_ref_pool(2)] dll_cong [OF set_status_links]
    by (metis kv_decr_ref_pool(3) set_status_queue)
  ultimately obtain s' where "fq_append b (pool ?m, queue ?m) = Inr s'"
    using fq.append by blast
  then show ?thesis using True
    by (simp add: free_block_def Let_def status_updates gpu_append_def split: prod.splits)
qed (simp add: free_block_def Let_def)

lemma free_loop_inv:
  assumes "kv_inv ex cx m" "set bs \<subseteq> {..<num_gpu_blocks m}" "\<And>b. counts bs b \<le> ex b"
    and "fold_result (free_block k sw) bs m = Inr m'"
  shows "kv_inv (\<lambda>b. ex b - counts bs b)
      (\<lambda>c. cx c + of_bool k * counts (map (\<lambda>b. the (mapped_cpu_block (pool m b))) bs) c) m'
    \<and> same_static m m'"
  using assms
proof (induction bs arbitrary: ex cx m)
  case (Cons b bs)
  from Cons.prems obtain m1 where f: "free_block k sw b m = Inr m1" "fold_result (free_block k sw) bs m1 = Inr m'"
    by auto
  have b: "b < num_gpu_blocks m" using Cons.prems by simp
  have ex: "0 < ex b" using Cons.prems(3) [of b] by simp
  have "data_ok ex cx m" using Cons.prems(1) by (simp add: kv_inv_def)
  then obtain c where c: "mapped_cpu_block (pool m b) = Some c" using b by (rule data_ok_mapped)
  from free_block_inv [OF Cons.prems(1) b ex c f(1)]
  have k1: "kv_inv (ex(b := ex b - 1)) (bump k c cx) m1" and s1: "same_static m m1"
    and mp: "\<And>x. mapped_cpu_block (pool m1 x) = mapped_cpu_block (pool m x)" by auto
  have sub: "set bs \<subseteq> {..<num_gpu_blocks m1}" using Cons.prems(2) s1 by (simp add: same_static_def)
  have le: "counts bs x \<le> (ex(b := ex b - 1)) x" for x
    using Cons.prems(3) [of x] by (auto split: if_splits)
  have eq: "map (\<lambda>b. the (mapped_cpu_block (pool m1 b))) bs = map (\<lambda>b. the (mapped_cpu_block (pool m b))) bs"
    by (simp add: mp)
  from Cons.IH [OF k1 sub le f(2), unfolded eq]
  have "kv_inv (\<lambda>x. (ex(b := ex b - 1)) x - counts bs x)
      (\<lambda>c'. bump k c cx c' + of_bool k * counts (map (\<lambda>b. the (mapped_cpu_block (pool m b))) bs) c') m'"
    and s2: "same_static m1 m'" by blast+
  moreover have "(\<lambda>x. (ex(b := ex b - 1)) x - counts bs x) = (\<lambda>x. ex x - counts (b # bs) x)"
    by auto
  moreover have "(\<lambda>c'. bump k c cx c' + of_bool k * counts (map (\<lambda>b. the (mapped_cpu_block (pool m b))) bs) c')
      = (\<lambda>c'. cx c' + of_bool k * counts (map (\<lambda>b. the (mapped_cpu_block (pool m b))) (b # bs)) c')"
    by (cases k) (auto simp: bump_def c)
  ultimately show ?case using s1 same_static_trans by auto
qed (simp add: kv_inv_def)

lemma free_loop_total:
  assumes "kv_inv ex cx m" "set bs \<subseteq> {..<num_gpu_blocks m}" "\<And>b. counts bs b \<le> ex b"
  shows "\<exists>m'. fold_result (free_block k False) bs m = Inr m'"
  using assms
proof (induction bs arbitrary: ex cx m)
  case (Cons b bs)
  have b: "b < num_gpu_blocks m" using Cons.prems by simp
  have ex: "0 < ex b" using Cons.prems(3) [of b] by simp
  from free_block_total [OF Cons.prems(1) b ex] obtain m1 where f: "free_block k False b m = Inr m1" by blast
  have "data_ok ex cx m" using Cons.prems(1) by (simp add: kv_inv_def)
  then obtain c where c: "mapped_cpu_block (pool m b) = Some c" using b by (rule data_ok_mapped)
  from free_block_inv [OF Cons.prems(1) b ex c f]
  have k1: "kv_inv (ex(b := ex b - 1)) (bump k c cx) m1" and s1: "same_static m m1" by auto
  have "set bs \<subseteq> {..<num_gpu_blocks m1}" using Cons.prems(2) s1 by (simp add: same_static_def)
  moreover have "counts bs x \<le> (ex(b := ex b - 1)) x" for x
    using Cons.prems(3) [of x] by (auto split: if_splits)
  ultimately show ?case using Cons.IH [OF k1] f by simp
qed simp

text \<open>Freeing gives back every reference of the block table, and cannot fail.\<close>

definition table_of :: "(req_id \<rightharpoonup> nat list) \<Rightarrow> req_id \<Rightarrow> nat list" where
  "table_of t rid = (case t rid of None \<Rightarrow> [] | Some bs \<Rightarrow> bs)"

lemma table_count_of: "table_count t rid b = counts (table_of t rid) b"
  by (simp add: table_count_def table_of_def split: option.split)

definition mapped_table :: "kv_manager \<Rightarrow> req_id \<Rightarrow> nat list" where
  "mapped_table m rid = map (\<lambda>b. the (mapped_cpu_block (pool m b))) (table_of (req_to_blocks m) rid)"

lemma counts_rev_if: "counts (if P then rev bs else bs) b = counts bs b"
  by simp

lemma kv_free_start:
  assumes i: "kv_inv ex cx m"
  shows "kv_inv (\<lambda>b. ex b + counts (table_of (req_to_blocks m) rid) b) cx
      (m\<lparr>req_to_blocks := (req_to_blocks m)(rid := None)\<rparr>)"
    and "set (table_of (req_to_blocks m) rid) \<subseteq> {..<num_gpu_blocks m}"
proof -
  show "kv_inv (\<lambda>b. ex b + counts (table_of (req_to_blocks m) rid) b) cx
      (m\<lparr>req_to_blocks := (req_to_blocks m)(rid := None)\<rparr>)"
    using i data_ok_pop_table [of ex cx m rid]
    by (simp add: kv_inv_def queue_ok_def table_count_of)
  show "set (table_of (req_to_blocks m) rid) \<subseteq> {..<num_gpu_blocks m}"
    using i by (cases "req_to_blocks m rid") (simp_all add: table_of_def kv_inv_def data_ok_def tables_ok_def)
qed

lemma kv_free_inv:
  assumes i: "kv_inv ex cx m" and f: "kv_free rid k sw m = Inr m'"
  shows "kv_inv ex (\<lambda>c. cx c + of_bool k * counts (mapped_table m rid) c) m'"
    "same_config m m'" "req_to_blocks m' = (req_to_blocks m)(rid := None)"
    "req_to_blocks_cpu m' = req_to_blocks_cpu m"
proof -
  let ?bs = "table_of (req_to_blocks m) rid"
  let ?m = "m\<lparr>req_to_blocks := (req_to_blocks m)(rid := None)\<rparr>"
  let ?o = "if enable_caching m then rev ?bs else ?bs"
  note S = kv_free_start [OF i, of rid]
  have nonneg: "0 \<le> ex b" for b using i by (simp add: kv_inv_def data_ok_def refs_ok_def)
  have f': "fold_result (free_block k sw) ?o ?m = Inr m'"
    using f by (cases "enable_caching m") (simp_all add: kv_free_def Let_def table_of_def)
  have sub: "set ?o \<subseteq> {..<num_gpu_blocks ?m}" using S(2) by simp
  have le: "counts ?o b \<le> ex b + counts ?bs b" for b using nonneg [of b] by simp
  from free_loop_inv [OF S(1) sub le f']
  have 1: "kv_inv (\<lambda>b. ex b + counts ?bs b - counts ?o b)
      (\<lambda>c. cx c + of_bool k * counts (map (\<lambda>b. the (mapped_cpu_block (pool m b))) ?o) c) m'"
    and 2: "same_static ?m m'" by simp_all
  have e1: "(\<lambda>b. ex b + counts ?bs b - counts ?o b) = ex"
    by (simp only: counts_rev_if) simp
  have e2: "counts (map (\<lambda>b. the (mapped_cpu_block (pool m b))) ?o) = counts (mapped_table m rid)"
    by (auto simp: mapped_table_def rev_map [symmetric])
  show "kv_inv ex (\<lambda>c. cx c + of_bool k * counts (mapped_table m rid) c) m'"
    using 1 e2 unfolding e1 by metis
  from 2 show "same_config m m'" "req_to_blocks m' = (req_to_blocks m)(rid := None)"
    "req_to_blocks_cpu m' = req_to_blocks_cpu m"
    by (auto simp: same_static_def same_config_def)
qed

lemma kv_free_total:
  assumes i: "kv_inv ex cx m"
  shows "\<exists>m'. kv_free rid k False m = Inr m'"
proof -
  let ?bs = "table_of (req_to_blocks m) rid"
  note S = kv_free_start [OF i, of rid]
  have nonneg: "0 \<le> ex b" for b using i by (simp add: kv_inv_def data_ok_def refs_ok_def)
  then have "counts (if enable_caching m then rev ?bs else ?bs) b \<le> ex b + counts ?bs b" for b
    by simp
  from free_loop_total [OF S(1) _ this, of k] S(2) show ?thesis
    by (simp add: kv_free_def Let_def table_of_def [symmetric])
qed

section \<open>Allocating slots for a new request\<close>

lemma mark_half_loop_inv:
  assumes "fold_result (\<lambda>i m. if i < length bs
              then try_upd_block (bs ! i) (mark_half False True False) m
              else Inl IndexError) js m = Inr m'" "kv_inv ex cx m"
  shows "kv_inv ex cx m' \<and> same_static m m'"
  using assms by (rule set_status_fold_inv) (auto simp: status_updates split: if_splits)

lemma allocate_slots_caching_inv:
  assumes i: "kv_inv ex cx m" and bs: "set (computed @ new) \<subseteq> {..<num_gpu_blocks m}"
    and a: "allocate_slots_caching hsh r n req computed new m = Inr (r', m')"
  shows "kv_inv ex cx m' \<and> same_static m m' \<and> cache_fields_only r r'"
proof (cases "fix_wrong_prefix_caching m")
  case True
  with a i show ?thesis
    by (auto simp: allocate_slots_caching_def dest!: mark_half_loop_inv intro: hashes_only_cached_tokens)
next
  case False
  have sub: "set (py_slice (computed @ new) i j) \<subseteq> {..<num_gpu_blocks m}"
    "set (py_slice new i j) \<subseteq> {..<num_gpu_blocks m}" for i j
    using bs set_py_slice by fastforce+
  have cf1: "kv_inv ex cx m1 \<and> same_static m m1 \<and> hashes_only r r1"
    if "cache_full_blocks hsh r start (py_slice (computed @ new) i j) prev m = Inr (r1, m1)"
    for start i j prev r1 m1
    using cache_full_blocks_inv [OF i sub(1) that] by blast
  have cf2: "kv_inv ex cx m1 \<and> same_static m m1 \<and> hashes_only r r1"
    if "cache_full_blocks hsh r start (py_slice new i j) prev m = Inr (r1, m1)"
    for start i j prev r1 m1
    using cache_full_blocks_inv [OF i sub(2) that] by blast
  from False a i show ?thesis
    by (auto simp: allocate_slots_caching_def Let_def split: if_splits
        dest!: cf1 cf2 intro: hashes_only_cache_fields)
qed

lemma allocate_slots_cases:
  assumes "allocate_slots hsh r n computed np m = Inr (res, r', m')"
  obtains (None) "touch_computed computed m = Inr m'"
      "res = None" "r' = r" "n \<noteq> 0" "num_free_blocks (queue m') < cdiv n (block_size m')"
  | (Some) new m1 m2 m3 k where "res = Some new" "n \<noteq> 0"
      "touch_computed computed m = Inr m1"
      "cdiv n (block_size m1) \<le> num_free_blocks (queue m1)"
      "k = min (min (cdiv n (block_size m1) + (if np then 0 else num_preallocate_blocks m1))
                  (num_free_blocks (queue m1)))
             (max_num_blocks_per_req m1 - int (length computed))" "0 < k"
      "get_new_blocks k m1 = Inr (new, m2)"
      "m3 = m2\<lparr>req_to_blocks := (req_to_blocks m2)(request_id r \<mapsto> computed @ new)\<rparr>"
      "(\<not> enable_caching m3 \<and> r' = r \<and> m' = m3)
       \<or> (enable_caching m3 \<and> allocate_slots_caching hsh r n (cdiv n (block_size m1)) computed new m3 = Inr (r', m'))"
proof -
  from assms obtain m1 where t: "touch_computed computed m = Inr m1" and n: "n \<noteq> 0"
    by (auto simp: allocate_slots_def split: if_splits)
  show thesis
  proof (cases "num_free_blocks (queue m1) < cdiv n (block_size m1)")
    case True
    with assms t n have "res = None" "r' = r" "m' = m1"
      by (simp_all add: allocate_slots_def Let_def)
    with True t n show thesis using None by blast
  next
    case False
    let ?k = "min (min (cdiv n (block_size m1) + (if np then 0 else num_preallocate_blocks m1))
        (num_free_blocks (queue m1))) (max_num_blocks_per_req m1 - int (length computed))"
    from assms False t n have rest: "andthen (py_assert (?k > 0)) (\<lambda>_.
           andthen (get_new_blocks ?k m1) (\<lambda>(new_blocks, m).
           let m = m\<lparr>req_to_blocks := (req_to_blocks m)(request_id r \<mapsto> computed @ new_blocks)\<rparr> in
           if \<not> enable_caching m then Inr (Some new_blocks, r, m)
           else andthen (allocate_slots_caching hsh r n (cdiv n (block_size m1)) computed new_blocks m)
                  (\<lambda>(r, m). Inr (Some new_blocks, r, m)))) = Inr (res, r', m')"
      by (simp add: allocate_slots_def Let_def)
    then obtain new m2 where k: "0 < ?k" and g: "get_new_blocks ?k m1 = Inr (new, m2)"
      and r: "(let m = m2\<lparr>req_to_blocks := (req_to_blocks m2)(request_id r \<mapsto> computed @ new)\<rparr> in
           if \<not> enable_caching m then Inr (Some new, r, m)
           else andthen (allocate_slots_caching hsh r n (cdiv n (block_size m1)) computed new m)
                  (\<lambda>(r, m). Inr (Some new, r, m))) = Inr (res, r', m')"
      by (elim andthen_InrE) (auto simp del: min_less_iff_conj)
    define m3 where "m3 = m2\<lparr>req_to_blocks := (req_to_blocks m2)(request_id r \<mapsto> computed @ new)\<rparr>"
    from r have "res = Some new" "(\<not> enable_caching m3 \<and> r' = r \<and> m' = m3)
       \<or> (enable_caching m3 \<and> allocate_slots_caching hsh r n (cdiv n (block_size m1)) computed new m3 = Inr (r', m'))"
      unfolding m3_def [symmetric] by (auto simp: Let_def split: if_splits)
    with False t n k g m3_def show thesis using Some by (metis not_less)
  qed
qed

lemma allocate_slots_SomeE:
  assumes "allocate_slots hsh r n computed np m = Inr (Some new, r', m')"
  obtains m1 m2 m3 k where "n \<noteq> 0" "touch_computed computed m = Inr m1"
      "cdiv n (block_size m1) \<le> num_free_blocks (queue m1)"
      "k = min (min (cdiv n (block_size m1) + (if np then 0 else num_preallocate_blocks m1))
                  (num_free_blocks (queue m1)))
             (max_num_blocks_per_req m1 - int (length computed))" "0 < k"
      "get_new_blocks k m1 = Inr (new, m2)"
      "m3 = m2\<lparr>req_to_blocks := (req_to_blocks m2)(request_id r \<mapsto> computed @ new)\<rparr>"
      "(\<not> enable_caching m3 \<and> r' = r \<and> m' = m3)
       \<or> (enable_caching m3 \<and> allocate_slots_caching hsh r n (cdiv n (block_size m1)) computed new m3 = Inr (r', m'))"
  using assms by (cases rule: allocate_slots_cases) (simp, blast)

lemma allocate_slots_NoneE:
  assumes "allocate_slots hsh r n computed np m = Inr (None, r', m')"
  obtains "touch_computed computed m = Inr m'" "r' = r" "n \<noteq> 0"
    "num_free_blocks (queue m') < cdiv n (block_size m')"
  using assms by (cases rule: allocate_slots_cases) simp_all

lemma touch_phase_inv:
  assumes i: "kv_inv ex cx m" and sub: "set computed \<subseteq> {..<num_gpu_blocks m}"
    and t: "touch_computed computed m = Inr m1"
  shows "kv_inv (\<lambda>b. ex b + counts computed b) cx m1 \<and> same_static m m1"
proof (cases "enable_caching m")
  case True
  with touch_inv [OF i sub] t show ?thesis by (simp add: touch_computed_def)
next
  case False
  with t i show ?thesis by (auto simp: touch_computed_def)
qed

lemma allocate_slots_inv:
  assumes i: "kv_inv ex cx m" and sub: "set computed \<subseteq> {..<num_gpu_blocks m}"
    and a: "allocate_slots hsh r n computed np m = Inr (Some new, r', m')"
  shows "kv_inv (\<lambda>b. ex b + counts (table_of (req_to_blocks m) (request_id r)) b) cx m'"
    "same_config m m'" "cache_fields_only r r'" "req_to_blocks_cpu m' = req_to_blocks_cpu m"
    "req_to_blocks m' = (req_to_blocks m)(request_id r \<mapsto> computed @ new)"
    "distinct new" "\<And>b. b \<in> set new \<Longrightarrow> ref_cnt (pool m' b) = 1" "set new \<subseteq> {..<num_gpu_blocks m}"
proof -
  from a obtain m1 m2 m3 k where touched: "touch_computed computed m = Inr m1"
    and got: "get_new_blocks k m1 = Inr (new, m2)"
    and m3: "m3 = m2\<lparr>req_to_blocks := (req_to_blocks m2)(request_id r \<mapsto> computed @ new)\<rparr>"
    and last: "(\<not> enable_caching m3 \<and> r' = r \<and> m' = m3)
       \<or> (enable_caching m3 \<and> allocate_slots_caching hsh r n (cdiv n (block_size m1)) computed new m3 = Inr (r', m'))"
    by (rule allocate_slots_SomeE)
  let ?rid = "request_id r"
  from touch_phase_inv [OF i sub touched]
  have k1: "kv_inv (\<lambda>b. ex b + counts computed b) cx m1" and s1: "same_static m m1" by auto
  note G = get_new_blocks_inv [OF k1 got]
  have nonneg: "0 \<le> ex b" for b using i by (simp add: kv_inv_def data_ok_def refs_ok_def)
  have t: "table_count (req_to_blocks m2) ?rid b = counts (table_of (req_to_blocks m) ?rid) b" for b
    using G(2) s1 by (simp add: same_static_def table_count_of)
  have ng: "num_gpu_blocks m1 = num_gpu_blocks m" "num_gpu_blocks m2 = num_gpu_blocks m"
    using s1 G(2) by (simp_all add: same_static_def)
  have sub2: "set (computed @ new) \<subseteq> {..<num_gpu_blocks m2}"
    using sub G(4) by (simp add: ng)
  have ex: "(\<lambda>b. ex b + counts computed b + counts new b + table_count (req_to_blocks m2) ?rid b
        - counts (computed @ new) b) = (\<lambda>b. ex b + counts (table_of (req_to_blocks m) ?rid) b)"
    by (simp add: t fun_eq_iff)
  have k3: "kv_inv (\<lambda>b. ex b + counts (table_of (req_to_blocks m) ?rid) b) cx m3"
    using kv_inv_set_table [OF G(1) sub2, of ?rid] nonneg unfolding m3 ex
    by (simp add: t)
  have "set (computed @ new) \<subseteq> {..<num_gpu_blocks m3}" using sub2 by (simp add: m3)
  with last have fin: "kv_inv (\<lambda>b. ex b + counts (table_of (req_to_blocks m) ?rid) b) cx m'
      \<and> same_static m3 m' \<and> cache_fields_only r r'"
    using allocate_slots_caching_inv [OF k3] k3 by auto
  have "same_config m m3"
    using s1 G(2) by (simp add: m3 same_static_def same_config_def)
  with fin show "kv_inv (\<lambda>b. ex b + counts (table_of (req_to_blocks m) (request_id r)) b) cx m'"
    "same_config m m'" "cache_fields_only r r'"
    using same_config_trans same_static_config by blast+
  from fin G(2) s1 show "req_to_blocks_cpu m' = req_to_blocks_cpu m"
    "req_to_blocks m' = (req_to_blocks m)(request_id r \<mapsto> computed @ new)"
    by (simp_all add: m3 same_static_def)
  show "distinct new" by (rule G(5))
  show "set new \<subseteq> {..<num_gpu_blocks m}" using G(4) by (simp add: ng)
  fix b assume b: "b \<in> set new"
  have "b < num_gpu_blocks m'" "b < num_gpu_blocks m3" "req_to_blocks m' = req_to_blocks m3"
    using b G(4) ng fin by (auto simp: m3 same_static_def)
  then have "ref_cnt (pool m' b) = ref_cnt (pool m3 b)"
    using fin k3 by (simp add: kv_inv_def data_ok_def refs_ok_def)
  also have "\<dots> = ref_cnt (pool m1 b) + counts new b" by (simp add: m3 G(7))
  also have "\<dots> = 1" using G(5,6) b by (simp add: count_list_distinct)
  finally show "ref_cnt (pool m' b) = 1" .
qed

text \<open>
  When the pool cannot serve the request, \<open>allocate_slots\<close> returns after it has touched the
  computed blocks: their references stay, in no table.
\<close>

lemma allocate_slots_None_inv:
  assumes i: "kv_inv ex cx m" and sub: "set computed \<subseteq> {..<num_gpu_blocks m}"
    and a: "allocate_slots hsh r n computed np m = Inr (None, r', m')"
  shows "kv_inv (\<lambda>b. ex b + counts computed b) cx m'" "same_static m m'" "r' = r"
  using a touch_phase_inv [OF i sub] by (auto elim!: allocate_slots_NoneE)

section \<open>Swapping\<close>

lemma cpu_decr_data_ok:
  assumes "data_ok ex cx m"
  shows "data_ok ex (cx(c := cx c - 1)) (cpu_decr_ref c m)"
  using assms by (auto simp: data_ok_def refs_ok_def cpu_decr_ref_def add_ref_def)

lemma kv_inv_cx:
  assumes "kv_inv ex cx m" "data_ok ex cx' m'" "pool m' = pool m" "queue m' = queue m"
    "num_gpu_blocks m' = num_gpu_blocks m"
  shows "kv_inv ex cx' m'"
  using assms by (simp add: kv_inv_def queue_ok_def)

lemma release_cpu_block_inv:
  assumes i: "kv_inv ex cx m" and r: "release_cpu_block c m = Inr m'"
  shows "kv_inv ex (cx(c := cx c - 1)) m' \<and> same_static m m' \<and> pool m' = pool m"
proof -
  let ?m = "cpu_decr_ref c m"
  have d: "data_ok ex (cx(c := cx c - 1)) ?m"
    using i cpu_decr_data_ok by (simp add: kv_inv_def)
  have p: "pool ?m = pool m" "queue ?m = queue m" "num_gpu_blocks ?m = num_gpu_blocks m"
    by (simp_all add: cpu_decr_ref_def)
  have "m' = ?m \<or> cpu_append c ?m = Inr m'"
    using r by (auto simp: release_cpu_block_def Let_def split: if_splits)
  then show ?thesis
  proof
    assume "m' = ?m"
    then show ?thesis using kv_inv_cx [OF i d p] ref_ops_static(3) p by simp
  next
    assume a: "cpu_append c ?m = Inr m'"
    note c = cpu_append_data_ok [OF a]
    have s: "same_static m m'"
      using ref_ops_static(3) queue_ops_static(4) [OF a] by (rule same_static_trans)
    moreover have "data_ok ex (cx(c := cx c - 1)) m'" using d data_ok_ledger [OF c(1)] by simp
    ultimately show ?thesis
      using kv_inv_cx [OF i] c(2,3) p by (simp add: same_static_def)
  qed
qed

lemma release_cpu_blocks_inv:
  assumes "kv_inv ex cx m" "fold_result release_cpu_block cs m = Inr m'"
  shows "kv_inv ex (\<lambda>c. cx c - counts cs c) m' \<and> same_static m m' \<and> pool m' = pool m"
  using assms
proof (induction cs arbitrary: cx m)
  case (Cons c cs)
  then obtain m1 where m1: "release_cpu_block c m = Inr m1" "fold_result release_cpu_block cs m1 = Inr m'"
    by auto
  from release_cpu_block_inv [OF Cons.prems(1) m1(1)]
  have k: "kv_inv ex (cx(c := cx c - 1)) m1" "same_static m m1" "pool m1 = pool m" by auto
  have "(\<lambda>x. (cx(c := cx c - 1)) x - counts cs x) = (\<lambda>x. cx x - counts (c # cs) x)" by auto
  with Cons.IH [OF k(1) m1(2)] k(2,3) show ?case by (auto intro: same_static_trans)
qed simp

text \<open>
  Relocating a block held once takes over the reference that the CPU table had on the new CPU
  block and gives up the one on the old.
\<close>

lemma data_ok_remap:
  assumes d: "data_ok ex cx m" and g: "g < num_gpu_blocks m" "ref_cnt (pool m g) = 1"
    and old: "mapped_cpu_block (pool m g) = Some old"
  shows "data_ok ex (\<lambda>x. cx x + of_bool (x = old) - of_bool (x = c))
    (upd_block g (\<lambda>blk. blk\<lparr>mapped_cpu_block := Some c\<rparr>) m)"
proof -
  let ?m = "upd_block g (\<lambda>blk. blk\<lparr>mapped_cpu_block := Some c\<rparr>) m"
  have "gpu_refs_on ?m x = gpu_refs_on m x - of_bool (x = old) + of_bool (x = c)" for x
    using g old by (auto simp: upd_block_def gpu_refs_on_upd cpu_share_def)
  moreover have "ref_cnt (pool ?m b) = ref_cnt (pool m b)" for b by (simp add: upd_block_def)
  moreover have "tables_ok ?m" "cache_ok ?m"
    using d by (simp_all add: data_ok_def upd_block_def tables_ok_upd cache_ok_upd)
  ultimately show ?thesis
    using d by (simp add: data_ok_def refs_ok_def upd_block_def)
qed

lemma relocate_block_inv:
  assumes i: "kv_inv ex cx m" and g: "g < num_gpu_blocks m" "ref_cnt (pool m g) = 1"
    and r: "relocate_block (g, c) m = Inr m'"
  shows "kv_inv ex (cx(c := cx c - 1)) m' \<and> same_static m m'
    \<and> (\<forall>x. ref_cnt (pool m' x) = ref_cnt (pool m x))
    \<and> (\<forall>x. mapped_cpu_block (pool m' x) = (if x = g then Some c else mapped_cpu_block (pool m x)))"
proof -
  from r obtain old m1 where old: "mapped_cpu_block (pool m g) = Some old"
    and rel: "release_cpu_block old m = Inr m1"
    and m': "m' = upd_block g (\<lambda>blk. blk\<lparr>mapped_cpu_block := Some c\<rparr>) m1"
    by (auto simp: relocate_block_def split: option.splits)
  from release_cpu_block_inv [OF i rel]
  have k: "kv_inv ex (cx(old := cx old - 1)) m1" and s: "same_static m m1" and p: "pool m1 = pool m"
    by auto
  have ng: "num_gpu_blocks m1 = num_gpu_blocks m" using s by (simp add: same_static_def)
  have "data_ok ex (cx(c := cx c - 1)) m'"
    using data_ok_remap [of ex "cx(old := cx old - 1)" m1 g old c] k g old p ng
    by (simp add: m' kv_inv_def fun_upd_def if_distrib cong: if_cong)
       (erule back_subst [where P = "\<lambda>f. data_ok ex f _"], auto)
  moreover have "queue_ok m'"
    using k by (simp add: m' kv_inv_def)
       (subst queue_ok_links [of m1], simp_all add: upd_block_def same_links_def)
  ultimately show ?thesis
    using s p by (auto simp: kv_inv_def m' upd_block_def same_static_def)
qed

lemma relocate_blocks_inv:
  assumes "kv_inv ex cx m" "\<And>g. g \<in> set gs \<Longrightarrow> g < num_gpu_blocks m \<and> ref_cnt (pool m g) = 1"
    and "length gs = length cs" "distinct gs" "fold_result relocate_block (zip gs cs) m = Inr m'"
  shows "kv_inv ex (\<lambda>c. cx c - counts cs c) m' \<and> same_static m m'
    \<and> (\<forall>x. ref_cnt (pool m' x) = ref_cnt (pool m x))
    \<and> map (\<lambda>g. mapped_cpu_block (pool m' g)) gs = map Some cs
    \<and> (\<forall>x. x \<notin> set gs \<longrightarrow> mapped_cpu_block (pool m' x) = mapped_cpu_block (pool m x))"
  using assms(3,1,2,4,5)
proof (induction gs cs arbitrary: cx m rule: list_induct2)
  case (Cons g gs c cs)
  then obtain m1 where m1: "relocate_block (g, c) m = Inr m1" "fold_result relocate_block (zip gs cs) m1 = Inr m'"
    by auto
  from Cons.prems(2) have g: "g < num_gpu_blocks m" "ref_cnt (pool m g) = 1" by auto
  from relocate_block_inv [OF Cons.prems(1) g m1(1)]
  have k: "kv_inv ex (cx(c := cx c - 1)) m1" and s: "same_static m m1"
    and ref: "\<And>x. ref_cnt (pool m1 x) = ref_cnt (pool m x)"
    and mp: "\<And>x. mapped_cpu_block (pool m1 x) = (if x = g then Some c else mapped_cpu_block (pool m x))"
    by auto
  have "\<And>h. h \<in> set gs \<Longrightarrow> h < num_gpu_blocks m1 \<and> ref_cnt (pool m1 h) = 1"
    using Cons.prems(2) s ref by (simp add: same_static_def)
  from Cons.IH [OF k this _ m1(2)] Cons.prems(3)
  have "kv_inv ex (\<lambda>x. (cx(c := cx c - 1)) x - counts cs x) m'" "same_static m1 m'"
    "\<forall>x. ref_cnt (pool m' x) = ref_cnt (pool m1 x)"
    "map (\<lambda>g. mapped_cpu_block (pool m' g)) gs = map Some cs"
    "\<forall>x. x \<notin> set gs \<longrightarrow> mapped_cpu_block (pool m' x) = mapped_cpu_block (pool m1 x)" by simp_all
  moreover have "(\<lambda>x. (cx(c := cx c - 1)) x - counts cs x) = (\<lambda>x. cx x - counts (c # cs) x)" by auto
  ultimately show ?case using s ref mp Cons.prems(3) by (auto intro: same_static_trans)
qed simp

lemma restore_block_steps:
  assumes "restore_block n (i, b) m = Inr m'"
  shows "\<exists>s p. m' = (set_status b s m)\<lparr>pending_swap_in := p\<rparr>"
proof -
  have self: "set_status b s m = (set_status b s m)\<lparr>pending_swap_in := pending_swap_in (set_status b s m)\<rparr>" for s
    by simp
  show ?thesis
  proof (cases "int i * block_size m + 1 \<le> n")
    case True
    with assms show ?thesis
      by (cases "(int i + 1) * block_size m \<le> n") (auto simp: restore_block_def status_updates)
  next
    case False
    with assms have "m' = set_status b EMPTY m" by (simp add: restore_block_def status_updates)
    with self show ?thesis by metis
  qed
qed

lemma set_status_pending_in:
  fixes m :: kv_manager
  shows "kv_inv ex cx ((set_status b s m)\<lparr>pending_swap_in := p\<rparr>) = kv_inv ex cx m"
    "same_static m ((set_status b s m)\<lparr>pending_swap_in := p\<rparr>)"
    "same_ledger m ((set_status b s m)\<lparr>pending_swap_in := p\<rparr>)"
  by simp_all (auto simp: set_status_def upd_block_def same_static_def same_ledger_def)

lemma same_ledger_trans: "same_ledger a b \<Longrightarrow> same_ledger b c \<Longrightarrow> same_ledger a c"
  by (simp add: same_ledger_def)

lemma restore_blocks_inv:
  assumes "kv_inv ex cx m" "fold_result (restore_block n) ibs m = Inr m'"
  shows "kv_inv ex cx m' \<and> same_static m m' \<and> same_ledger m m'"
  using assms(2)
proof (rule fold_result_invariant [where P = "\<lambda>m'. kv_inv ex cx m' \<and> same_static m m' \<and> same_ledger m m'"])
  show "kv_inv ex cx m \<and> same_static m m \<and> same_ledger m m" using assms(1) by (simp add: same_ledger_def)
  fix x m1 m2
  assume "restore_block n x m1 = Inr m2" "kv_inv ex cx m1 \<and> same_static m m1 \<and> same_ledger m m1"
  moreover obtain i b where "x = (i, b)" by (cases x)
  ultimately show "kv_inv ex cx m2 \<and> same_static m m2 \<and> same_ledger m m2"
    by (metis restore_block_steps set_status_pending_in same_static_trans same_ledger_trans)
qed

lemma kv_inv_pop_cpu_table:
  assumes "kv_inv ex cx m"
  shows "kv_inv ex (\<lambda>c. cx c + table_count (req_to_blocks_cpu m) rid c)
    (m\<lparr>req_to_blocks_cpu := (req_to_blocks_cpu m)(rid := None)\<rparr>)"
  using assms data_ok_pop_cpu_table by (simp add: kv_inv_def queue_ok_def)

lemma kv_inv_set_cpu_table:
  assumes "kv_inv ex cx m"
  shows "kv_inv ex (\<lambda>c. cx c + table_count (req_to_blocks_cpu m) rid c - counts cs c)
    (m\<lparr>req_to_blocks_cpu := (req_to_blocks_cpu m)(rid \<mapsto> cs)\<rparr>)"
  using assms data_ok_set_cpu_table by (simp add: kv_inv_def queue_ok_def)

lemma swap_in_SomeE:
  assumes "swap_in hsh r computed m = Inr (Some new, r', m')"
  obtains cpu m1 m2 m3 m4 where "req_to_blocks_cpu m (request_id r) = Some cpu"
    "allocate_slots hsh r ((int (length cpu) - int (length computed)) * block_size m) computed True m
       = Inr (Some new, r', m1)"
    "fold_result release_cpu_block (take (length computed) cpu) m1 = Inr m2"
    "fold_result relocate_block (zip new (drop (length computed) cpu)) m2 = Inr m3"
    "fold_result (restore_block (num_computed_tokens r'))
       (zip [length computed..<length computed + length new] new) m3 = Inr m4"
    "m' = m4\<lparr>req_to_blocks_cpu := (req_to_blocks_cpu m4)(request_id r' := None)\<rparr>"
  using assms
  by (auto simp: swap_in_def lookup_key_def split: option.splits)

lemma allocate_slots_length:
  assumes i: "kv_inv ex cx m" and sub: "set computed \<subseteq> {..<num_gpu_blocks m}"
    and a: "allocate_slots hsh r n computed np m = Inr (Some new, r', m')"
  shows "\<exists>m1. touch_computed computed m = Inr m1 \<and> cdiv n (block_size m) \<le> num_free_blocks (queue m1)
    \<and> int (length new) = min (min (cdiv n (block_size m) + (if np then 0 else num_preallocate_blocks m))
         (num_free_blocks (queue m1))) (max_num_blocks_per_req m - int (length computed))
    \<and> new \<noteq> []"
proof -
  from a obtain m1 m2 k where t: "touch_computed computed m = Inr m1"
    and f: "cdiv n (block_size m1) \<le> num_free_blocks (queue m1)"
    and k: "k = min (min (cdiv n (block_size m1) + (if np then 0 else num_preallocate_blocks m1))
                  (num_free_blocks (queue m1)))
             (max_num_blocks_per_req m1 - int (length computed))" and pos: "0 < k"
    and g: "get_new_blocks k m1 = Inr (new, m2)"
    by (rule allocate_slots_SomeE)
  from touch_phase_inv [OF i sub t]
  have k1: "kv_inv (\<lambda>b. ex b + counts computed b) cx m1" and s: "same_static m m1" by auto
  have "length new = nat k" using get_new_blocks_inv(3) [OF k1 g] .
  with pos have "int (length new) = k" "new \<noteq> []" by auto
  moreover have "block_size m1 = block_size m" "num_preallocate_blocks m1 = num_preallocate_blocks m"
    "max_num_blocks_per_req m1 = max_num_blocks_per_req m" using s by (simp_all add: same_static_def)
  ultimately show ?thesis using t f k by auto
qed

lemma counts_split: "counts cs c = counts (take n cs) c + counts (drop n cs) c"
proof -
  have "count_list cs c = count_list (take n cs @ drop n cs) c" by simp
  then show ?thesis by (simp only: count_list_append of_nat_add)
qed

text \<open>
  Swapping in: the new blocks take over the CPU blocks of the swapped table, position by
  position. No reference is lost when the table fits a request's maximum.
\<close>

lemma swap_in_inv:
  assumes i: "kv_inv ex cx m" and sub: "set computed \<subseteq> {..<num_gpu_blocks m}"
    and s: "swap_in hsh r computed m = Inr (Some new, r', m')"
    and cpu: "req_to_blocks_cpu m (request_id r) = Some cpu"
    and bs: "0 < block_size m" and fits: "int (length cpu) \<le> max_num_blocks_per_req m"
  shows "kv_inv (\<lambda>b. ex b + counts (table_of (req_to_blocks m) (request_id r)) b) cx m'"
    "same_config m m'" "cache_fields_only r r'"
    "req_to_blocks_cpu m' = (req_to_blocks_cpu m)(request_id r := None)"
    "req_to_blocks m' = (req_to_blocks m)(request_id r \<mapsto> computed @ new)"
    "map (\<lambda>g. mapped_cpu_block (pool m' g)) new = map Some (drop (length computed) cpu)"
    "length computed < length cpu"
proof -
  let ?ex = "\<lambda>b. ex b + counts (table_of (req_to_blocks m) (request_id r)) b"
  let ?k = "length computed"
  from s obtain m1 m2 m3 m4 where
    1: "allocate_slots hsh r ((int (length cpu) - int ?k) * block_size m) computed True m = Inr (Some new, r', m1)"
    and 2: "fold_result release_cpu_block (take ?k cpu) m1 = Inr m2"
    and 3: "fold_result relocate_block (zip new (drop ?k cpu)) m2 = Inr m3"
    and 4: "fold_result (restore_block (num_computed_tokens r')) (zip [?k..<?k + length new] new) m3 = Inr m4"
    and m': "m' = m4\<lparr>req_to_blocks_cpu := (req_to_blocks_cpu m4)(request_id r' := None)\<rparr>"
    by (rule swap_in_SomeE) (use cpu in auto)
  note A = allocate_slots_inv [OF i sub 1]
  from allocate_slots_length [OF i sub 1] bs fits
  have len: "int (length new) = int (length cpu) - int ?k" "new \<noteq> []"
    by (auto simp: min_def split: if_splits)
  then show lt: "?k < length cpu" by (cases new) auto
  have len': "length new = length (drop ?k cpu)" using len lt by simp
  have rid: "request_id r' = request_id r"
    using cache_fields_only_frame(1) [OF A(3)] .
  from release_cpu_blocks_inv [OF A(1) 2]
  have k2: "kv_inv ?ex (\<lambda>c. cx c - counts (take ?k cpu) c) m2" and s2: "same_static m1 m2" "pool m2 = pool m1"
    by auto
  have new: "g < num_gpu_blocks m2 \<and> ref_cnt (pool m2 g) = 1" if "g \<in> set new" for g
    using that A(2,7,8) s2 by (auto simp: same_static_def same_config_def)
  from relocate_blocks_inv [OF k2 new len' A(6) 3]
  have k3: "kv_inv ?ex (\<lambda>c. cx c - counts (take ?k cpu) c - counts (drop ?k cpu) c) m3"
    and s3: "same_static m2 m3" and map3: "map (\<lambda>g. mapped_cpu_block (pool m3 g)) new = map Some (drop ?k cpu)"
    by auto
  from restore_blocks_inv [OF k3 4]
  have k4: "kv_inv ?ex (\<lambda>c. cx c - counts (take ?k cpu) c - counts (drop ?k cpu) c) m4"
    and s4: "same_static m3 m4" "same_ledger m3 m4" by auto
  have st: "same_static m1 m4" using s2(1) s3 s4(1) same_static_trans by blast
  have cpu4: "table_count (req_to_blocks_cpu m4) (request_id r) c = counts cpu c" for c
    using st A(4) cpu by (simp add: same_static_def table_count_def)
  have "(\<lambda>c. cx c - counts (take ?k cpu) c - counts (drop ?k cpu) c
      + table_count (req_to_blocks_cpu m4) (request_id r) c) = cx"
    unfolding cpu4 using counts_split [of cpu _ ?k] by fastforce
  with kv_inv_pop_cpu_table [OF k4, of "request_id r"]
  show "kv_inv ?ex cx m'" by (simp add: m' rid)
  show "same_config m m'"
    using A(2) same_static_config [OF st] by (auto simp: m' same_config_def)
  show "cache_fields_only r r'" by (rule A(3))
  show "req_to_blocks_cpu m' = (req_to_blocks_cpu m)(request_id r := None)"
    "req_to_blocks m' = (req_to_blocks m)(request_id r \<mapsto> computed @ new)"
    using A(4,5) st by (simp_all add: m' rid same_static_def)
  show "map (\<lambda>g. mapped_cpu_block (pool m' g)) new = map Some (drop ?k cpu)"
    using map3 s4(2) by (simp add: m' same_ledger_def)
qed

lemma swap_outE:
  assumes "swap_out rid m = Inr (n, m')"
  obtains bs m2 where "req_to_blocks m rid = Some bs"
    "kv_free rid True True (m\<lparr>pending_swap_out := pending_swap_out m @
        map (\<lambda>b. (b, the (mapped_cpu_block (pool m b)))) (filter (\<lambda>b. is_dirty (pool m b)) bs)\<rparr>) = Inr m2"
    "m' = m2\<lparr>req_to_blocks_cpu := (req_to_blocks_cpu m2)(rid \<mapsto> mapped_table m rid)\<rparr>"
    "n = num_free_blocks (queue m') - num_free_blocks (queue m)"
  using assms
  by (auto simp: swap_out_def lookup_key_def Let_def mapped_table_def table_of_def comp_def
      split: option.splits if_splits)

lemma swap_out_inv:
  assumes i: "kv_inv ex cx m" and s: "swap_out rid m = Inr (n, m')"
  shows "kv_inv ex (\<lambda>c. cx c + counts (table_of (req_to_blocks_cpu m) rid) c) m'" "same_config m m'"
    "req_to_blocks m' = (req_to_blocks m)(rid := None)"
    "req_to_blocks_cpu m' = (req_to_blocks_cpu m)(rid \<mapsto> mapped_table m rid)"
    "n = num_free_blocks (queue m') - num_free_blocks (queue m)"
proof -
  from s obtain bs m2 where bs: "req_to_blocks m rid = Some bs"
    and f: "kv_free rid True True (m\<lparr>pending_swap_out := pending_swap_out m @
        map (\<lambda>b. (b, the (mapped_cpu_block (pool m b)))) (filter (\<lambda>b. is_dirty (pool m b)) bs)\<rparr>) = Inr m2"
    and m': "m' = m2\<lparr>req_to_blocks_cpu := (req_to_blocks_cpu m2)(rid \<mapsto> mapped_table m rid)\<rparr>"
    and n: "n = num_free_blocks (queue m') - num_free_blocks (queue m)"
    by (rule swap_outE)
  let ?m = "m\<lparr>pending_swap_out := pending_swap_out m @
        map (\<lambda>b. (b, the (mapped_cpu_block (pool m b)))) (filter (\<lambda>b. is_dirty (pool m b)) bs)\<rparr>"
  have "kv_inv ex cx ?m" using i by simp
  note F = kv_free_inv [OF this f]
  have mt: "mapped_table ?m rid = mapped_table m rid" by (simp add: mapped_table_def)
  have "(\<lambda>c. cx c + of_bool True * counts (mapped_table ?m rid) c
      + table_count (req_to_blocks_cpu m2) rid c - counts (mapped_table m rid) c)
    = (\<lambda>c. cx c + counts (table_of (req_to_blocks_cpu m) rid) c)"
    by (simp add: mt table_count_of F(4))
  with kv_inv_set_cpu_table [OF F(1), of rid "mapped_table m rid"]
  show "kv_inv ex (\<lambda>c. cx c + counts (table_of (req_to_blocks_cpu m) rid) c) m'"
    by (simp add: m')
  show "same_config m m'" "req_to_blocks m' = (req_to_blocks m)(rid := None)"
    "req_to_blocks_cpu m' = (req_to_blocks_cpu m)(rid \<mapsto> mapped_table m rid)"
    using F(2-4) by (auto simp: m' same_config_def)
  show "n = num_free_blocks (queue m') - num_free_blocks (queue m)" by (rule n)
qed

section \<open>Construction\<close>

text \<open>The loop of \<open>__init__\<close>: GPU block \<open>b\<close> is mapped to CPU block \<open>b\<close>.\<close>

lemma init_block_step:
  assumes "dll (pool_cpu m, queue_cpu m) (c # cs)"
  shows "\<exists>s'. init_block b m = Inr (m\<lparr>pool := (pool m)(b := (pool m b)\<lparr>blk_status := FREE, mapped_cpu_block := Some c\<rparr>),
      pool_cpu := fst s', queue_cpu := snd s'\<rparr>) \<and> dll s' cs \<and> same_data (pool_cpu m) (fst s')"
proof -
  from fq_popleft_Cons [OF assms] obtain s' where "fq_popleft (pool_cpu m, queue_cpu m) = Inr (c, s')"
    "dll s' cs" "same_data (pool_cpu m) (fst s')" by auto
  then show ?thesis
    by (cases s'; cases m) (force simp: init_block_def cpu_popleft_def upd_block_def mark_free_def)
qed

lemma init_loop:
  assumes "dll (pool_cpu m0, queue_cpu m0) [0..<nc]" "j \<le> nc"
  shows "\<exists>st s'. fold_result init_block [0..<j] m0
      = Inr (m0\<lparr>pool := st, pool_cpu := fst s', queue_cpu := snd s'\<rparr>)
    \<and> dll s' [j..<nc] \<and> same_data (pool_cpu m0) (fst s')
    \<and> (\<forall>b. st b = (if b < j then (pool m0 b)\<lparr>blk_status := FREE, mapped_cpu_block := Some b\<rparr> else pool m0 b))"
  using assms(2)
proof (induction j)
  case 0
  have "m0 = m0\<lparr>pool := pool m0, pool_cpu := pool_cpu m0, queue_cpu := queue_cpu m0\<rparr>" by simp
  then show ?case using assms(1)
    by (intro exI [of _ "pool m0"] exI [of _ "(pool_cpu m0, queue_cpu m0)"]) simp
next
  case (Suc j)
  then obtain st s1 where f: "fold_result init_block [0..<j] m0
      = Inr (m0\<lparr>pool := st, pool_cpu := fst s1, queue_cpu := snd s1\<rparr>)"
    and d: "dll s1 [j..<nc]" and sd: "same_data (pool_cpu m0) (fst s1)"
    and st: "\<And>b. st b = (if b < j then (pool m0 b)\<lparr>blk_status := FREE, mapped_cpu_block := Some b\<rparr> else pool m0 b)"
    by auto
  let ?m = "m0\<lparr>pool := st, pool_cpu := fst s1, queue_cpu := snd s1\<rparr>"
  have "dll (pool_cpu ?m, queue_cpu ?m) (j # [Suc j..<nc])"
    using d Suc.prems by (simp add: upt_conv_Cons)
  from init_block_step [OF this, of j] obtain s2 where
    s2: "init_block j ?m = Inr (?m\<lparr>pool := st(j := (st j)\<lparr>blk_status := FREE, mapped_cpu_block := Some j\<rparr>),
      pool_cpu := fst s2, queue_cpu := snd s2\<rparr>)" "dll s2 [Suc j..<nc]" "same_data (fst s1) (fst s2)"
    by auto
  let ?st = "st(j := (st j)\<lparr>blk_status := FREE, mapped_cpu_block := Some j\<rparr>)"
  have "same_data (pool_cpu m0) (fst s2)" using sd s2(3) by (simp add: same_data_def)
  moreover have "fold_result init_block [0..<Suc j] m0
      = Inr (m0\<lparr>pool := ?st, pool_cpu := fst s2, queue_cpu := snd s2\<rparr>)"
    using f s2(1) by (cases m0) (simp add: fold_result_append)
  moreover have "?st b = (if b < Suc j then (pool m0 b)\<lparr>blk_status := FREE, mapped_cpu_block := Some b\<rparr>
      else pool m0 b)" for b
    using st by (simp add: less_Suc_eq)
  ultimately show ?case using s2(2) by blast
qed

lemma kv_init_inv:
  assumes "bs \<noteq> 0" "0 < ng" "ng \<le> nc"
  shows "\<exists>m. kv_init bs ng nc mml win cach pre fx = Inr m
    \<and> kv_inv (\<lambda>_. 0) (\<lambda>_. 0) m
    \<and> num_gpu_blocks m = ng \<and> block_size m = bs \<and> max_num_blocks_per_req m = cdiv mml bs
    \<and> enable_caching m = cach
    \<and> dll (pool m, queue m) [0..<ng] \<and> dll (pool_cpu m, queue_cpu m) [ng..<nc]
    \<and> (\<forall>b < ng. mapped_cpu_block (pool m b) = Some b)
    \<and> req_to_blocks m = Map.empty \<and> req_to_blocks_cpu m = Map.empty"
proof -
  have det: "\<And>b::nat. prev_free_block new_block = None \<and> next_free_block new_block = None"
    by (simp add: new_block_def)
  obtain gs where gs: "fq_init ng (\<lambda>_. new_block) = Inr gs" "dll gs [0..<ng]" "same_data (\<lambda>_. new_block) (fst gs)"
    using fq_init_dll [OF assms(2) det] by blast
  obtain cs where cs: "fq_init nc (\<lambda>_. new_block) = Inr cs" "dll cs [0..<nc]" "same_data (\<lambda>_. new_block) (fst cs)"
    using fq_init_dll [of nc, OF _ det] assms(2,3) by fastforce
  let ?m0 = "\<lparr>block_size = bs, num_gpu_blocks = ng, num_cpu_blocks = nc,
           kv_max_model_len = mml, max_num_blocks_per_req = cdiv mml bs,
           sliding_window = win, enable_caching = cach,
           fix_wrong_prefix_caching = fx, num_preallocate_tokens = pre,
           num_preallocate_blocks = cdiv pre bs,
           pool = fst gs, pool_cpu = fst cs, queue = snd gs, queue_cpu = snd cs,
           cached_blocks = Map.empty, req_to_blocks = Map.empty,
           req_to_blocks_cpu = Map.empty, pending_swap_out = [], pending_swap_in = []\<rparr>"
  have "dll (pool_cpu ?m0, queue_cpu ?m0) [0..<nc]" using cs by simp
  from init_loop [OF this assms(3)] obtain st s' where
    l: "fold_result init_block [0..<ng] ?m0 = Inr (?m0\<lparr>pool := st, pool_cpu := fst s', queue_cpu := snd s'\<rparr>)"
    and d: "dll s' [ng..<nc]" and sd: "same_data (fst cs) (fst s')"
    and st: "\<And>b. st b = (if b < ng then (fst gs b)\<lparr>blk_status := FREE, mapped_cpu_block := Some b\<rparr> else fst gs b)"
    by auto
  define m where "m = ?m0\<lparr>pool := st, pool_cpu := fst s', queue_cpu := snd s'\<rparr>"
  have init: "kv_init bs ng nc mml win cach pre fx = Inr m"
    using assms(1) gs(1) cs(1) l by (cases gs; cases cs) (simp add: kv_init_def m_def)
  have blk: "ref_cnt (st b) = 0" "block_hash (st b) = None" for b
    using gs(3) by (simp_all add: st same_data_def new_block_def)
  have cblk: "ref_cnt (fst s' c) = 0" for c
    using cs(3) sd by (simp add: same_data_def new_block_def)
  have "same_links (fst gs) st UNIV" by (simp add: same_links_def st)
  then have q: "dll (pool m, queue m) [0..<ng]"
    using gs(2) dll_cong by (simp add: m_def)
  then have "queue_ok m" unfolding queue_ok_def
    by (intro exI [of _ "[0..<ng]"]) (auto simp: m_def blk)
  moreover have share: "cpu_share c (st b) = 0" for c b by (simp add: cpu_share_def blk)
  have "mapped_cpu_block (st b) \<noteq> None" if "b < ng" for b using that by (simp add: st)
  then have "data_ok (\<lambda>_. 0) (\<lambda>_. 0) m"
    by (auto simp: m_def data_ok_def refs_ok_def tables_ok_def cache_ok_def blk cblk gpu_refs_on_def share)
  ultimately have "kv_inv (\<lambda>_. 0) (\<lambda>_. 0) m" by (simp add: kv_inv_def)
  with init q d show ?thesis by (intro exI [of _ m]) (auto simp: m_def st)
qed

text \<open>When the constructor returns, the CPU pool was at least as large as the GPU pool.\<close>

lemma init_loop_short:
  assumes "dll (pool_cpu m, queue_cpu m) xs" "length xs < length bs"
  shows "fold_result init_block bs m = Inl ValueError"
  using assms
proof (induction bs arbitrary: m xs)
  case (Cons b bs)
  show ?case
  proof (cases xs)
    case Nil
    with Cons.prems fq_popleft_Nil show ?thesis
      by (simp add: init_block_def cpu_popleft_def upd_block_def)
  next
    case (Cons c cs)
    with Cons.prems init_block_step [of m c cs b] obtain s' where
      "init_block b m = Inr (m\<lparr>pool := (pool m)(b := (pool m b)\<lparr>blk_status := FREE, mapped_cpu_block := Some c\<rparr>),
        pool_cpu := fst s', queue_cpu := snd s'\<rparr>)" "dll s' cs" by auto
    with Cons.IH [of _ cs] Cons.prems Cons show ?thesis by simp
  qed
qed simp

lemma kv_init_ok:
  assumes k: "kv_init bs ng nc mml win cach pre fx = Inr m"
  shows "kv_inv (\<lambda>_. 0) (\<lambda>_. 0) m" "block_size m = bs" "req_to_blocks m = Map.empty"
    "req_to_blocks_cpu m = Map.empty" "enable_caching m = cach" "num_gpu_blocks m = ng" "ng \<le> nc"
proof -
  from k have pos: "bs \<noteq> 0" "0 < ng" "0 < nc"
    by (auto simp: kv_init_def fq_init_def split: if_splits)
  have det: "\<And>b::nat. prev_free_block new_block = None \<and> next_free_block new_block = None"
    by (simp add: new_block_def)
  show le: "ng \<le> nc"
  proof (rule ccontr)
    assume "\<not> ng \<le> nc"
    moreover obtain cs where "fq_init nc (\<lambda>_. new_block) = Inr cs" "dll cs [0..<nc]"
      using fq_init_dll [OF pos(3) det] by blast
    moreover obtain gs where "fq_init ng (\<lambda>_. new_block) = Inr gs"
      using fq_init_dll [OF pos(2) det] by blast
    ultimately have "kv_init bs ng nc mml win cach pre fx = Inl ValueError"
      using pos(1) by (cases gs; cases cs) (auto simp: kv_init_def intro!: init_loop_short [where xs = "[0..<nc]"])
    with k show False by simp
  qed
  from kv_init_inv [OF pos(1,2) le, of mml win cach pre fx] k
  show "kv_inv (\<lambda>_. 0) (\<lambda>_. 0) m" "block_size m = bs" "req_to_blocks m = Map.empty"
    "req_to_blocks_cpu m = Map.empty" "enable_caching m = cach" "num_gpu_blocks m = ng" by auto
qed

section \<open>What the tables guarantee\<close>

text \<open>After a successful \<open>append_slots\<close> the table covers the tokens, unless it is at its maximum.\<close>

lemma append_slots_capacity:
  assumes i: "kv_inv ex cx m" and a: "append_slots hsh r n m = Inr (Some new, r', m')"
    and pre: "0 \<le> num_preallocate_blocks m"
    and fits: "cdiv (num_computed_tokens r + n) (block_size m) \<le> max_num_blocks_per_req m"
  shows "\<exists>bs. req_to_blocks m' (request_id r) = Some bs
    \<and> cdiv (num_computed_tokens r + n) (block_size m) \<le> int (length bs)"
proof -
  from a obtain old m1 where old: "req_to_blocks m (request_id r) = Some old"
    and free: "cdiv (num_computed_tokens r + n) (block_size m) - int (length old) \<le> num_free_blocks (queue m)"
    and 1: "append_new_blocks (request_id r) old
       (cdiv (num_computed_tokens r + n) (block_size m) - int (length old)) m = Inr (new, m1)"
    by (rule append_slots_Some)
  let ?q = "cdiv (num_computed_tokens r + n) (block_size m)"
  have "?q \<le> int (length (old @ new))"
  proof (cases "?q - int (length old) \<le> 0")
    case False
    with 1 obtain m0 where k: "0 < min (min (?q - int (length old) + num_preallocate_blocks m)
        (num_free_blocks (queue m))) (max_num_blocks_per_req m - int (length old))"
      and g: "get_new_blocks (min (min (?q - int (length old) + num_preallocate_blocks m)
        (num_free_blocks (queue m))) (max_num_blocks_per_req m - int (length old))) m = Inr (new, m0)"
      by (auto simp: append_new_blocks_def Let_def simp del: min_less_iff_conj)
    from get_new_blocks_inv(3) [OF i g] k free fits pre show ?thesis by auto
  qed simp
  with append_slots_inv(5) [OF i a] old show ?thesis by auto
qed

lemma cached_prefix_sound:
  assumes "cache_ok m"
  shows "\<exists>bs. cached_prefix m hs = Inr bs \<and> length bs \<le> length hs
    \<and> (\<forall>i < length bs. bs ! i < num_gpu_blocks m \<and> block_hash (pool m (bs ! i)) = Some (hs ! i))
    \<and> (length bs < length hs \<longrightarrow> cached_blocks m (hs ! length bs) = None)"
proof (induction hs)
  case (Cons h hs)
  show ?case
  proof (cases "cached_blocks m h")
    case None
    then show ?thesis by (simp add: get_cached_block_def)
  next
    case (Some ids)
    with assms obtain b ids' where ids: "ids = b # ids'" "b < num_gpu_blocks m" "block_hash (pool m b) = Some h"
      unfolding cache_ok_def by (metis list.exhaust list.set_intros(1))
    from Cons.IH obtain bs where bs: "cached_prefix m hs = Inr bs" "length bs \<le> length hs"
      "\<forall>i < length bs. bs ! i < num_gpu_blocks m \<and> block_hash (pool m (bs ! i)) = Some (hs ! i)"
      "length bs < length hs \<longrightarrow> cached_blocks m (hs ! length bs) = None" by auto
    have "\<forall>i < length (b # bs). (b # bs) ! i < num_gpu_blocks m
        \<and> block_hash (pool m ((b # bs) ! i)) = Some ((h # hs) ! i)"
      using ids bs(3) by (simp add: nth_Cons split: nat.split)
    moreover have "cached_prefix m (h # hs) = Inr (b # bs)"
      using Some ids bs by (simp add: get_cached_block_def)
    ultimately show ?thesis using bs(2,4) by (intro exI [of _ "b # bs"]) simp
  qed
qed simp

text \<open>
  \<open>get_computed_blocks\<close> returns the longest run of cached blocks whose hashes are the leading
  block hashes of the request.
\<close>

lemma get_computed_blocks_sound:
  assumes i: "kv_inv ex cx m" and g: "get_computed_blocks hsh r m = Inr (bs, r')"
  shows "hashes_only r r'" "set bs \<subseteq> {..<num_gpu_blocks m}" "length bs \<le> length (kv_block_hashes r')"
    "\<And>i. i < length bs \<Longrightarrow> block_hash (pool m (bs ! i)) = Some (kv_block_hashes r' ! i)"
    "enable_caching m \<Longrightarrow> length bs < length (kv_block_hashes r') \<Longrightarrow>
       cached_blocks m (kv_block_hashes r' ! length bs) = None"
proof -
  have c: "cache_ok m" using i by (simp add: kv_inv_def data_ok_def)
  show h: "hashes_only r r'"
    using g by (auto simp: get_computed_blocks_def hashes_only_def set_kv_block_hashes_def split: if_splits)
  have "(\<not> enable_caching m \<and> bs = [] \<and> r' = r)
      \<or> (enable_caching m \<and> cached_prefix m (kv_block_hashes r') = Inr bs)"
    using g by (auto simp: get_computed_blocks_def split: if_splits)
  with cached_prefix_sound [OF c, of "kv_block_hashes r'"]
  show "set bs \<subseteq> {..<num_gpu_blocks m}" "length bs \<le> length (kv_block_hashes r')"
    "\<And>i. i < length bs \<Longrightarrow> block_hash (pool m (bs ! i)) = Some (kv_block_hashes r' ! i)"
    "enable_caching m \<Longrightarrow> length bs < length (kv_block_hashes r') \<Longrightarrow>
       cached_blocks m (kv_block_hashes r' ! length bs) = None"
    by (auto simp: in_set_conv_nth)
qed

end
