(* ===== verification/KVCacheContract.thy ===== *)
theory KVCacheContract
  imports KVCacheOps
begin

text \<open>
  The contract between the scheduler and the KV-cache manager. The locale \<open>slot_manager\<close>
  states what a client may rely on: which request ids hold a block table, which are swapped
  out, and that every operation keeps the manager's invariant. The manager of
  \<^verbatim>\<open>kv_cache_manager.py\<close> is an interpretation of it.
\<close>

section \<open>The interface\<close>

datatype kv_op =
    OpAppend request int
  | OpAllocate request int
  | OpSwapIn request
  | OpSwapOut req_id
  | OpFree req_id

locale slot_manager =
  fixes ok :: "'m \<Rightarrow> bool"
    and tables :: "'m \<Rightarrow> req_id set"
    and swapped :: "'m \<Rightarrow> req_id set"
    and usable :: "'m \<Rightarrow> nat list \<Rightarrow> bool"
    and computed :: "request \<Rightarrow> 'm \<Rightarrow> (nat list \<times> request) result"
    and append :: "request \<Rightarrow> int \<Rightarrow> 'm \<Rightarrow> (nat list option \<times> request \<times> 'm) result"
    and alloc :: "request \<Rightarrow> int \<Rightarrow> nat list \<Rightarrow> 'm \<Rightarrow> (nat list option \<times> request \<times> 'm) result"
    and swapin :: "request \<Rightarrow> nat list \<Rightarrow> 'm \<Rightarrow> (nat list option \<times> request \<times> 'm) result"
    and swapout :: "req_id \<Rightarrow> 'm \<Rightarrow> (int \<times> 'm) result"
    and free :: "req_id \<Rightarrow> 'm \<Rightarrow> 'm result"
  assumes computed_law: "\<lbrakk>ok m; computed r m = Inr (bs, r')\<rbrakk> \<Longrightarrow> usable m bs \<and> hashes_only r r'"
    and usable_butlast: "usable m bs \<Longrightarrow> usable m (butlast bs)"
    and append_law: "\<lbrakk>ok m; append r n m = Inr (res, r', m')\<rbrakk> \<Longrightarrow>
      ok m' \<and> tables m' = tables m \<and> swapped m' = swapped m \<and> cache_fields_only r r'
      \<and> request_id r \<in> tables m"
    and alloc_law: "\<lbrakk>ok m; usable m bs; request_id r \<notin> tables m; alloc r n bs m = Inr (res, r', m')\<rbrakk> \<Longrightarrow>
      ok m' \<and> swapped m' = swapped m \<and> cache_fields_only r r'
      \<and> tables m' = (if res = None then tables m else insert (request_id r) (tables m))"
    and swapin_law: "\<lbrakk>ok m; usable m bs; request_id r \<notin> tables m; swapin r bs m = Inr (res, r', m')\<rbrakk> \<Longrightarrow>
      ok m' \<and> cache_fields_only r r' \<and> request_id r \<in> swapped m
      \<and> tables m' = (if res = None then tables m else insert (request_id r) (tables m))
      \<and> swapped m' = (if res = None then swapped m else swapped m - {request_id r})"
    and swapout_law: "\<lbrakk>ok m; swapout rid m = Inr (k, m')\<rbrakk> \<Longrightarrow>
      ok m' \<and> rid \<in> tables m \<and> tables m' = tables m - {rid} \<and> swapped m' = insert rid (swapped m)"
    and free_law: "ok m \<Longrightarrow>
      \<exists>m'. free rid m = Inr m' \<and> ok m' \<and> tables m' = tables m - {rid} \<and> swapped m' = swapped m"
begin

text \<open>
  A client that allocates only for requests without a table, with the blocks \<open>computed\<close>
  returned, keeps the invariant over any sequence of calls.
\<close>

definition apply_op :: "kv_op \<Rightarrow> 'm \<Rightarrow> 'm result" where
  "apply_op p m = (case p of
     OpAppend r n \<Rightarrow> andthen (append r n m) (\<lambda>(_, _, m'). Inr m')
   | OpAllocate r n \<Rightarrow>
       if request_id r \<in> tables m then Inl ValueError
       else andthen (computed r m) (\<lambda>(bs, r). andthen (alloc r n bs m) (\<lambda>(_, _, m'). Inr m'))
   | OpSwapIn r \<Rightarrow>
       if request_id r \<in> tables m then Inl ValueError
       else andthen (computed r m) (\<lambda>(bs, r). andthen (swapin r bs m) (\<lambda>(_, _, m'). Inr m'))
   | OpSwapOut rid \<Rightarrow> andthen (swapout rid m) (\<lambda>(_, m'). Inr m')
   | OpFree rid \<Rightarrow> free rid m)"

lemma apply_op_ok:
  assumes "ok m" "apply_op p m = Inr m'"
  shows "ok m'"
proof (cases p)
  case (OpAppend r n)
  with assms append_law show ?thesis by (auto simp: apply_op_def)
next
  case (OpAllocate r n)
  with assms obtain bs r1 res r2 where f: "request_id r \<notin> tables m" and c: "computed r m = Inr (bs, r1)"
    and a: "alloc r1 n bs m = Inr (res, r2, m')" by (auto simp: apply_op_def split: if_splits)
  have "usable m bs" "request_id r1 \<notin> tables m"
    using computed_law [OF assms(1) c] hashes_only_frame [of r r1] f by auto
  with alloc_law [OF assms(1) _ _ a] show ?thesis by simp
next
  case (OpSwapIn r)
  with assms obtain bs r1 res r2 where f: "request_id r \<notin> tables m" and c: "computed r m = Inr (bs, r1)"
    and a: "swapin r1 bs m = Inr (res, r2, m')" by (auto simp: apply_op_def split: if_splits)
  have "usable m bs" "request_id r1 \<notin> tables m"
    using computed_law [OF assms(1) c] hashes_only_frame [of r r1] f by auto
  with swapin_law [OF assms(1) _ _ a] show ?thesis by simp
next
  case (OpSwapOut rid)
  with assms swapout_law show ?thesis by (auto simp: apply_op_def)
next
  case (OpFree rid)
  with assms free_law [of m rid] show ?thesis by (auto simp: apply_op_def)
qed

lemma run_ok:
  "ok m \<Longrightarrow> fold_result apply_op ps m = Inr m' \<Longrightarrow> ok m'"
  by (rule fold_result_invariant [where P = ok]) (auto intro: apply_op_ok)

text \<open>A request that was swapped out and freed holds nothing on the device.\<close>

lemma free_after_swapout:
  assumes "ok m" "swapout rid m = Inr (k, m1)"
  shows "\<exists>m2. free rid m1 = Inr m2 \<and> tables m2 = tables m - {rid} \<and> rid \<in> swapped m2"
  using swapout_law [OF assms] free_law [of m1 rid] by auto

end

section \<open>The manager implements it\<close>

text \<open>Tables never outgrow a request's maximum; without prefix caching no reference is ever lost.\<close>

definition tables_fit :: "kv_manager \<Rightarrow> bool" where
  "tables_fit m \<longleftrightarrow>
     (\<forall>rid bs. req_to_blocks m rid = Some bs \<longrightarrow> int (length bs) \<le> max_num_blocks_per_req m)
     \<and> (\<forall>rid cs. req_to_blocks_cpu m rid = Some cs \<longrightarrow> int (length cs) \<le> max_num_blocks_per_req m)"

definition kv_ok :: "kv_manager \<Rightarrow> bool" where
  "kv_ok m \<longleftrightarrow>
     (\<exists>ex cx. kv_inv ex cx m \<and> (\<not> enable_caching m \<longrightarrow> ex = (\<lambda>_. 0)))
     \<and> 0 < block_size m \<and> tables_fit m"

lemma kv_okI:
  assumes "kv_inv ex cx m" "\<not> enable_caching m \<Longrightarrow> ex = (\<lambda>_. 0)" "0 < block_size m" "tables_fit m"
  shows "kv_ok m"
  using assms by (auto simp: kv_ok_def)

definition usable_blocks :: "kv_manager \<Rightarrow> nat list \<Rightarrow> bool" where
  "usable_blocks m bs \<longleftrightarrow> set bs \<subseteq> {..<num_gpu_blocks m} \<and> (\<not> enable_caching m \<longrightarrow> bs = [])"

lemma tables_fit_upd:
  assumes "tables_fit m" "same_config m m'" "req_to_blocks m' = (req_to_blocks m)(rid := t)"
    "req_to_blocks_cpu m' = req_to_blocks_cpu m"
    "\<And>bs. t = Some bs \<Longrightarrow> int (length bs) \<le> max_num_blocks_per_req m"
  shows "tables_fit m'"
  using assms by (auto simp: tables_fit_def same_config_def)

lemma append_new_blocks_length:
  assumes "kv_inv ex cx m" "append_new_blocks rid old k m = Inr (new, m1)"
    and "int (length old) \<le> max_num_blocks_per_req m"
  shows "int (length (old @ new)) \<le> max_num_blocks_per_req m"
proof (cases "k \<le> 0")
  case True
  with assms show ?thesis by (simp add: append_new_blocks_def)
next
  case False
  let ?k = "min (min (k + num_preallocate_blocks m) (num_free_blocks (queue m)))
      (max_num_blocks_per_req m - int (length old))"
  from False assms(2) obtain m0 where g: "get_new_blocks ?k m = Inr (new, m0)" and pos: "0 < ?k"
    by (auto simp: append_new_blocks_def Let_def simp del: min_less_iff_conj)
  have "int (length new) = ?k" using get_new_blocks_inv(3) [OF assms(1) g] pos by simp
  then show ?thesis by auto
qed

lemma append_slots_ok:
  assumes ok: "kv_ok m" and a: "append_slots hsh r n m = Inr (res, r', m')"
  shows "kv_ok m' \<and> dom (req_to_blocks m') = dom (req_to_blocks m)
    \<and> dom (req_to_blocks_cpu m') = dom (req_to_blocks_cpu m) \<and> cache_fields_only r r'
    \<and> request_id r \<in> dom (req_to_blocks m)"
proof -
  have dom: "request_id r \<in> dom (req_to_blocks m)"
    using a by (auto simp: append_slots_def lookup_key_def split: option.splits)
  show ?thesis
  proof (cases res)
    case None
    with a ok dom append_slots_None [of hsh r n m r' m'] show ?thesis by simp
  next
    case (Some new)
    from ok obtain ex cx where i: "kv_inv ex cx m" and z: "\<not> enable_caching m \<Longrightarrow> ex = (\<lambda>_. 0)"
      by (auto simp: kv_ok_def)
    from a Some have a': "append_slots hsh r n m = Inr (Some new, r', m')" by simp
    note A = append_slots_inv [OF i a']
    from A(5) obtain old where old: "req_to_blocks m (request_id r) = Some old"
      and t: "req_to_blocks m' = (req_to_blocks m)(request_id r \<mapsto> old @ new)" by auto
    obtain old1 k m1 where "req_to_blocks m (request_id r) = Some old1"
      "append_new_blocks (request_id r) old1 k m = Inr (new, m1)"
      by (rule append_slots_Some [OF a'])
    with old have k: "append_new_blocks (request_id r) old k m = Inr (new, m1)" by simp
    have fit: "tables_fit m" using ok by (simp add: kv_ok_def)
    have "int (length (old @ new)) \<le> max_num_blocks_per_req m"
      using append_new_blocks_length [OF i k] fit old by (auto simp: tables_fit_def)
    then have "tables_fit m'" using tables_fit_upd [OF fit A(2) t A(4)] by simp
    with A(2) z ok have "kv_ok m'" by (intro kv_okI [OF A(1)]) (auto simp: same_config_def kv_ok_def)
    with A(3,4) t old show ?thesis by auto
  qed
qed

lemma allocate_slots_fits:
  assumes "kv_inv ex cx m" "set bs \<subseteq> {..<num_gpu_blocks m}"
    "allocate_slots hsh r n bs np m = Inr (Some new, r', m')"
  shows "int (length (bs @ new)) \<le> max_num_blocks_per_req m"
  using allocate_slots_length [OF assms] by auto

lemma allocate_slots_ok:
  assumes ok: "kv_ok m" and u: "usable_blocks m bs" and fresh: "request_id r \<notin> dom (req_to_blocks m)"
    and a: "allocate_slots hsh r n bs np m = Inr (res, r', m')"
  shows "kv_ok m' \<and> dom (req_to_blocks_cpu m') = dom (req_to_blocks_cpu m) \<and> cache_fields_only r r'
    \<and> dom (req_to_blocks m') = (if res = None then dom (req_to_blocks m)
         else insert (request_id r) (dom (req_to_blocks m)))"
proof -
  from ok obtain ex cx where i: "kv_inv ex cx m" and z: "\<not> enable_caching m \<Longrightarrow> ex = (\<lambda>_. 0)"
    and fit: "tables_fit m" and bs: "0 < block_size m"
    by (auto simp: kv_ok_def)
  have sub: "set bs \<subseteq> {..<num_gpu_blocks m}" using u by (simp add: usable_blocks_def)
  show ?thesis
  proof (cases res)
    case None
    with a have a': "allocate_slots hsh r n bs np m = Inr (None, r', m')" by simp
    note N = allocate_slots_None_inv [OF i sub a']
    have "tables_fit m'" using fit N(2) by (simp add: tables_fit_def same_static_def)
    with N z bs u have "kv_ok m'"
      by (intro kv_okI [OF N(1)]) (auto simp: same_static_def usable_blocks_def)
    with N None show ?thesis by (simp add: same_static_def)
  next
    case (Some new)
    with a have a': "allocate_slots hsh r n bs np m = Inr (Some new, r', m')" by simp
    note A = allocate_slots_inv [OF i sub a']
    have t: "table_of (req_to_blocks m) (request_id r) = []"
      using fresh by (auto simp: table_of_def split: option.splits)
    have "tables_fit m'"
      using tables_fit_upd [OF fit A(2,5,4)] allocate_slots_fits [OF i sub a'] by simp
    with A(2) z bs t have "kv_ok m'" by (intro kv_okI [OF A(1)]) (auto simp: same_config_def)
    with A(3-5) Some show ?thesis by auto
  qed
qed

lemma swap_in_ok:
  assumes ok: "kv_ok m" and u: "usable_blocks m bs" and fresh: "request_id r \<notin> dom (req_to_blocks m)"
    and a: "swap_in hsh r bs m = Inr (res, r', m')"
  shows "kv_ok m' \<and> cache_fields_only r r' \<and> request_id r \<in> dom (req_to_blocks_cpu m)
    \<and> dom (req_to_blocks m') = (if res = None then dom (req_to_blocks m)
         else insert (request_id r) (dom (req_to_blocks m)))
    \<and> dom (req_to_blocks_cpu m') = (if res = None then dom (req_to_blocks_cpu m)
         else dom (req_to_blocks_cpu m) - {request_id r})"
proof -
  from ok obtain ex cx where i: "kv_inv ex cx m" and z: "\<not> enable_caching m \<Longrightarrow> ex = (\<lambda>_. 0)"
    and fit: "tables_fit m" and bs: "0 < block_size m"
    by (auto simp: kv_ok_def)
  have sub: "set bs \<subseteq> {..<num_gpu_blocks m}" using u by (simp add: usable_blocks_def)
  from a obtain cpu where cpu: "req_to_blocks_cpu m (request_id r) = Some cpu"
    by (auto simp: swap_in_def lookup_key_def split: option.splits)
  let ?n = "(int (length cpu) - int (length bs)) * block_size m"
  show ?thesis
  proof (cases res)
    case None
    with a cpu have "allocate_slots hsh r ?n bs True m = Inr (None, r', m')"
      by (auto simp: swap_in_def lookup_key_def split: option.splits)
    from allocate_slots_ok [OF ok u fresh this] None cpu show ?thesis by auto
  next
    case (Some new)
    with a have a': "swap_in hsh r bs m = Inr (Some new, r', m')" by simp
    have len: "int (length cpu) \<le> max_num_blocks_per_req m" using fit cpu by (simp add: tables_fit_def)
    note S = swap_in_inv [OF i sub a' cpu bs len]
    have t: "table_of (req_to_blocks m) (request_id r) = []"
      using fresh by (auto simp: table_of_def split: option.splits)
    have "length (map (\<lambda>g. mapped_cpu_block (pool m' g)) new) = length (map Some (drop (length bs) cpu))"
      using S(6) by simp
    then have "int (length (bs @ new)) \<le> max_num_blocks_per_req m" using len S(7) by simp
    with fit S(2,4,5) have "tables_fit m'"
      by (auto simp: tables_fit_def same_config_def)
    with S(2) z bs t have "kv_ok m'" by (intro kv_okI [OF S(1)]) (auto simp: same_config_def)
    with S(3-5) Some cpu show ?thesis by auto
  qed
qed

lemma swap_out_ok:
  assumes ok: "kv_ok m" and a: "swap_out rid m = Inr (k, m')"
  shows "kv_ok m' \<and> rid \<in> dom (req_to_blocks m) \<and> dom (req_to_blocks m') = dom (req_to_blocks m) - {rid}
    \<and> dom (req_to_blocks_cpu m') = insert rid (dom (req_to_blocks_cpu m))"
proof -
  from ok obtain ex cx where i: "kv_inv ex cx m" and z: "\<not> enable_caching m \<Longrightarrow> ex = (\<lambda>_. 0)"
    and fit: "tables_fit m" and bs: "0 < block_size m"
    by (auto simp: kv_ok_def)
  note S = swap_out_inv [OF i a]
  obtain t where t: "req_to_blocks m rid = Some t" by (rule swap_outE [OF a])
  then have "int (length (mapped_table m rid)) \<le> max_num_blocks_per_req m"
    using fit by (simp add: tables_fit_def mapped_table_def table_of_def)
  with fit S(2-4) have "tables_fit m'" by (auto simp: tables_fit_def same_config_def)
  with S(2) z bs have "kv_ok m'" by (intro kv_okI [OF S(1)]) (auto simp: same_config_def)
  with S(3,4) t show ?thesis by auto
qed

lemma kv_free_ok:
  assumes ok: "kv_ok m"
  shows "\<exists>m'. kv_free rid False False m = Inr m' \<and> kv_ok m'
    \<and> dom (req_to_blocks m') = dom (req_to_blocks m) - {rid}
    \<and> dom (req_to_blocks_cpu m') = dom (req_to_blocks_cpu m)"
proof -
  from ok obtain ex cx where i: "kv_inv ex cx m" and z: "\<not> enable_caching m \<Longrightarrow> ex = (\<lambda>_. 0)"
    and fit: "tables_fit m" and bs: "0 < block_size m"
    by (auto simp: kv_ok_def)
  obtain m' where f: "kv_free rid False False m = Inr m'" using kv_free_total [OF i] by blast
  note F = kv_free_inv [OF i f]
  have "tables_fit m'" using tables_fit_upd [OF fit F(2,3,4)] by simp
  with F(2) z bs have "kv_ok m'" by (intro kv_okI [OF F(1)]) (auto simp: same_config_def)
  with f F(3,4) show ?thesis by auto
qed

lemma get_computed_blocks_ok:
  assumes "kv_ok m" "get_computed_blocks hsh r m = Inr (bs, r')"
  shows "usable_blocks m bs \<and> hashes_only r r'"
proof -
  from assms(1) obtain ex cx where i: "kv_inv ex cx m" by (auto simp: kv_ok_def)
  have "\<not> enable_caching m \<Longrightarrow> bs = []"
    using assms(2) by (simp add: get_computed_blocks_def)
  with get_computed_blocks_sound(1,2) [OF i assms(2)] show ?thesis by (simp add: usable_blocks_def)
qed

interpretation kv: slot_manager kv_ok "\<lambda>m. dom (req_to_blocks m)" "\<lambda>m. dom (req_to_blocks_cpu m)"
  usable_blocks "get_computed_blocks hsh" "append_slots hsh"
  "\<lambda>r n bs. allocate_slots hsh r n bs False" "swap_in hsh" swap_out "\<lambda>rid. kv_free rid False False"
  for hsh :: hash_fun
proof
  show "usable_blocks m bs \<and> hashes_only r r'"
    if "kv_ok m" "get_computed_blocks hsh r m = Inr (bs, r')" for m r bs r'
    using get_computed_blocks_ok [OF that] .
  show "usable_blocks m (butlast bs)" if "usable_blocks m bs" for m bs
    using that by (auto simp: usable_blocks_def dest: in_set_butlastD)
qed (fact append_slots_ok allocate_slots_ok swap_in_ok swap_out_ok kv_free_ok)+

section \<open>Runs of the manager\<close>

text \<open>The client calls of \<open>apply_op\<close>, on the manager itself.\<close>

definition kv_apply :: "hash_fun \<Rightarrow> kv_op \<Rightarrow> kv_manager \<Rightarrow> kv_manager result" where
  "kv_apply hsh p m = (case p of
     OpAppend r n \<Rightarrow> andthen (append_slots hsh r n m) (\<lambda>(_, _, m'). Inr m')
   | OpAllocate r n \<Rightarrow>
       if request_id r \<in> dom (req_to_blocks m) then Inl ValueError
       else andthen (get_computed_blocks hsh r m) (\<lambda>(bs, r).
              andthen (allocate_slots hsh r n bs False m) (\<lambda>(_, _, m'). Inr m'))
   | OpSwapIn r \<Rightarrow>
       if request_id r \<in> dom (req_to_blocks m) then Inl ValueError
       else andthen (get_computed_blocks hsh r m) (\<lambda>(bs, r).
              andthen (swap_in hsh r bs m) (\<lambda>(_, _, m'). Inr m'))
   | OpSwapOut rid \<Rightarrow> andthen (swap_out rid m) (\<lambda>(_, m'). Inr m')
   | OpFree rid \<Rightarrow> kv_free rid False False m)"

lemma kv_apply_eq: "kv_apply hsh = kv.apply_op hsh"
  by (simp add: fun_eq_iff kv_apply_def kv.apply_op_def)

lemma kv_run_ok:
  assumes "kv_init bs ng nc mml win cach pre fx = Inr m0" "0 < bs" "fold_result (kv_apply hsh) ops m0 = Inr m"
  shows "kv_ok m"
proof -
  note I = kv_init_ok [OF assms(1)]
  have "kv_ok m0" by (rule kv_okI [OF I(1)]) (use I assms(2) in \<open>simp_all add: tables_fit_def\<close>)
  then show ?thesis using assms(3) unfolding kv_apply_eq by (rule kv.run_ok)
qed

lemma kv_apply_config:
  assumes "kv_ok m" "kv_apply hsh p m = Inr m'"
  shows "same_config m m'"
proof -
  from assms(1) obtain ex cx where i: "kv_inv ex cx m" and fit: "tables_fit m" and bs: "0 < block_size m"
    by (auto simp: kv_ok_def)
  have alloc: "same_config m m1" if "get_computed_blocks hsh r m = Inr (bs, r1)"
    "allocate_slots hsh r1 n bs np m = Inr (res, r2, m1)" for r bs r1 n np res r2 m1
  proof -
    have sub: "set bs \<subseteq> {..<num_gpu_blocks m}" using get_computed_blocks_ok [OF assms(1) that(1)]
      by (simp add: usable_blocks_def)
    show ?thesis
      using that(2) allocate_slots_inv(2) [OF i sub] allocate_slots_None_inv(2) [OF i sub] same_static_config
      by (cases res) blast+
  qed
  show ?thesis
  proof (cases p)
    case (OpAppend r n)
    with assms(2) obtain res r' where a: "append_slots hsh r n m = Inr (res, r', m')" by (auto simp: kv_apply_def)
    then show ?thesis
      using append_slots_inv(2) [OF i, of hsh r n _ r' m'] append_slots_None [of hsh r n m r' m'] by (cases res) auto
  next
    case (OpAllocate r n)
    with assms(2) alloc show ?thesis by (auto simp: kv_apply_def split: if_splits)
  next
    case (OpSwapIn r)
    with assms(2) have "andthen (get_computed_blocks hsh r m) (\<lambda>(bs, r).
        andthen (swap_in hsh r bs m) (\<lambda>(_, _, m'). Inr m')) = Inr m'"
      by (simp add: kv_apply_def split: if_splits)
    then obtain bl r1 res r2 where c: "get_computed_blocks hsh r m = Inr (bl, r1)"
      and s: "swap_in hsh r1 bl m = Inr (res, r2, m')" by auto
    have sub: "set bl \<subseteq> {..<num_gpu_blocks m}" using get_computed_blocks_ok [OF assms(1) c]
      by (simp add: usable_blocks_def)
    from s obtain cpu where cpu: "req_to_blocks_cpu m (request_id r1) = Some cpu"
      by (auto simp: swap_in_def lookup_key_def split: option.splits)
    show ?thesis
    proof (cases res)
      case None
      with s cpu obtain n where "allocate_slots hsh r1 n bl True m = Inr (None, r2, m')"
        by (auto simp: swap_in_def lookup_key_def split: option.splits)
      then show ?thesis using alloc [OF c] by blast
    next
      case (Some new)
      have "int (length cpu) \<le> max_num_blocks_per_req m" using fit cpu by (simp add: tables_fit_def)
      with swap_in_inv(2) [OF i sub _ cpu bs] s Some show ?thesis by blast
    qed
  next
    case (OpSwapOut rid)
    with assms(2) swap_out_inv(2) [OF i] show ?thesis by (auto simp: kv_apply_def)
  next
    case (OpFree rid)
    with assms(2) kv_free_inv(2) [OF i] show ?thesis by (auto simp: kv_apply_def)
  qed
qed

lemma kv_run_config:
  assumes "kv_ok m0" "fold_result (kv_apply hsh) ops m0 = Inr m"
  shows "same_config m0 m"
proof -
  have "kv_ok m \<and> same_config m0 m"
    using assms(2)
  proof (rule fold_result_invariant [where P = "\<lambda>m. kv_ok m \<and> same_config m0 m"])
    show "kv_ok m0 \<and> same_config m0 m0" using assms(1) by simp
    show "kv_ok t \<and> same_config m0 t" if "kv_ok s \<and> same_config m0 s" "kv_apply hsh x s = Inr t" for x s t
    proof
      show "kv_ok t" using kv.apply_op_ok [of s hsh x t] that unfolding kv_apply_eq by simp
      show "same_config m0 t" using kv_apply_config [of s hsh x t] same_config_trans [of m0 s t] that by simp
    qed
  qed
  then show ?thesis ..
qed

text \<open>What the invariant says of the pool, in the words of the code.\<close>

lemma kv_ok_pool:
  assumes "kv_ok m"
  obtains xs where "get_all_free_blocks (pool m, queue m) = Some xs" "distinct xs"
    "set xs = {b. b < num_gpu_blocks m \<and> ref_cnt (pool m b) = 0}" "num_free_blocks (queue m) = int (length xs)"
    "\<And>b. b < num_gpu_blocks m \<Longrightarrow> table_uses (req_to_blocks m) b \<le> ref_cnt (pool m b)"
    "\<And>b. b < num_gpu_blocks m \<Longrightarrow> \<not> enable_caching m \<Longrightarrow> ref_cnt (pool m b) = table_uses (req_to_blocks m) b"
proof -
  from assms obtain ex cx where i: "kv_inv ex cx m" and z: "\<not> enable_caching m \<longrightarrow> ex = (\<lambda>_. 0)"
    by (auto simp: kv_ok_def)
  then obtain xs where xs: "dll (pool m, queue m) xs" "set xs = {b. b < num_gpu_blocks m \<and> ref_cnt (pool m b) = 0}"
    by (auto simp: kv_inv_def queue_ok_def)
  have r: "0 \<le> ex b" "b < num_gpu_blocks m \<Longrightarrow> ref_cnt (pool m b) = table_uses (req_to_blocks m) b + ex b" for b
    using i by (simp_all add: kv_inv_def data_ok_def refs_ok_def)
  show thesis
  proof (rule that)
    show "get_all_free_blocks (pool m, queue m) = Some xs" using get_all_free_blocks_dll [OF xs(1)] .
    show "distinct xs" using dll_distinct [OF xs(1)] .
    show "num_free_blocks (queue m) = int (length xs)" using dll_num [OF xs(1)] by simp
  qed (use xs(2) r z in auto)
qed

end
