(* ===== verification/SchedulerInv.thy ===== *)
theory SchedulerInv
  imports Scheduler KVCacheContract
begin

text \<open>
  The invariant of the scheduler. \<open>core_inv R W s\<close> relates the running requests \<open>R\<close>, the
  waiting ones \<open>W\<close>, the request index and the block tables of the KV-cache manager: request
  ids are distinct, exactly the running requests hold a block table, every swapped request has
  its CPU table, and the index maps an id to its object. The queues are arguments, so that the
  invariant can be stated in the middle of a method. The proofs use the manager only through
  the interpretation \<open>kv\<close> of its contract.
\<close>

section \<open>Definitions\<close>

abbreviation ids :: "scheduler \<Rightarrow> ref list \<Rightarrow> req_id list" where
  "ids s xs \<equiv> map (\<lambda>x. request_id (heap s x)) xs"

definition waiting_ok :: "scheduler \<Rightarrow> ref \<Rightarrow> bool" where
  "waiting_ok s x \<longleftrightarrow>
     req_status (heap s x) \<in> {WAITING, PREEMPTED, SWAPPED}
     \<and> (req_status (heap s x) = SWAPPED \<longrightarrow>
          request_id (heap s x) \<in> dom (req_to_blocks_cpu (kvm s)))"

definition core_inv :: "ref list \<Rightarrow> ref list \<Rightarrow> scheduler \<Rightarrow> bool" where
  "core_inv R W s \<longleftrightarrow>
     kv_ok (kvm s) \<and> distinct (ids s (R @ W))
     \<and> (\<forall>x \<in> set R. req_status (heap s x) = RUNNING) \<and> (\<forall>x \<in> set W. waiting_ok s x)
     \<and> dom (req_to_blocks (kvm s)) = set (ids s R)
     \<and> (\<forall>rid x. requests s rid = Some x \<longleftrightarrow> x \<in> set (R @ W) \<and> request_id (heap s x) = rid)"

definition sched_inv :: "scheduler \<Rightarrow> bool" where
  "sched_inv s \<longleftrightarrow>
     core_inv (running s) (waiting s) s
     \<and> int (length (running s)) \<le> max_num_running_reqs s
     \<and> (\<forall>x \<in> set (running s @ waiting s). \<not> lookahead (heap s x))"

text \<open>What no step of \<open>schedule\<close> writes before the output is built.\<close>

definition same_sched :: "scheduler \<Rightarrow> scheduler \<Rightarrow> bool" where
  "same_sched s s' \<longleftrightarrow>
     max_num_running_reqs s' = max_num_running_reqs s
     \<and> max_num_scheduled_tokens s' = max_num_scheduled_tokens s
     \<and> max_model_len s' = max_model_len s \<and> requests s' = requests s
     \<and> (\<forall>x. request_id (heap s' x) = request_id (heap s x) \<and> lookahead (heap s' x) = lookahead (heap s x))"

lemma same_sched_refl [simp]: "same_sched s s"
  by (simp add: same_sched_def)

lemma same_sched_trans: "same_sched a b \<Longrightarrow> same_sched b c \<Longrightarrow> same_sched a c"
  by (simp add: same_sched_def)

lemma same_sched_ids: "same_sched s s' \<Longrightarrow> ids s' xs = ids s xs"
  by (simp add: same_sched_def)

section \<open>Congruence\<close>

lemma core_inv_cong:
  assumes "kvm s' = kvm s" "requests s' = requests s"
    "\<And>x. request_id (heap s' x) = request_id (heap s x) \<and> req_status (heap s' x) = req_status (heap s x)"
  shows "core_inv R W s' = core_inv R W s"
  using assms by (simp add: core_inv_def waiting_ok_def)

lemma core_inv_fields [simp]:
  "core_inv R W (s\<lparr>running := a\<rparr>) = core_inv R W s"
  "core_inv R W (s\<lparr>waiting := a\<rparr>) = core_inv R W s"
  "core_inv R W (s\<lparr>enc_cache := e\<rparr>) = core_inv R W s"
  "core_inv R W (log_event clk tag rid s) = core_inv R W s"
  "core_inv R W (log_events clk tag rids s) = core_inv R W s"
  by (rule core_inv_cong; simp add: log_event_def log_events_def)+

lemma same_sched_fields [simp]:
  "same_sched s (s\<lparr>running := a\<rparr>)" "same_sched s (s\<lparr>waiting := a\<rparr>)"
  "same_sched s (s\<lparr>enc_cache := e\<rparr>)"
  "same_sched s (log_event clk tag rid s)" "same_sched s (log_events clk tag rids s)"
  by (simp_all add: same_sched_def log_event_def log_events_def)

lemma core_inv_upd_req:
  assumes "request_id (f (heap s x)) = request_id (heap s x)" "req_status (f (heap s x)) = req_status (heap s x)"
  shows "core_inv R W (upd_req x f s) = core_inv R W s"
  by (rule core_inv_cong) (use assms in \<open>auto simp: upd_req_def\<close>)

lemma same_sched_upd_req:
  "request_id (f (heap s x)) = request_id (heap s x) \<Longrightarrow> lookahead (f (heap s x)) = lookahead (heap s x) \<Longrightarrow>
   same_sched s (upd_req x f s)"
  by (simp add: same_sched_def upd_req_def)

text \<open>A new manager state with the same domains of tables.\<close>

lemma core_inv_put_kv:
  assumes "core_inv R W s" "kv_ok m" "dom (req_to_blocks m) = dom (req_to_blocks (kvm s))"
    "dom (req_to_blocks_cpu m) = dom (req_to_blocks_cpu (kvm s))" "cache_fields_only (heap s x) r"
  shows "core_inv R W (put_kv x r m s)" "same_sched s (put_kv x r m s)"
proof -
  have e: "request_id (heap (put_kv x r m s) y) = request_id (heap s y)"
    "req_status (heap (put_kv x r m s) y) = req_status (heap s y)"
    "lookahead (heap (put_kv x r m s) y) = lookahead (heap s y)" for y
    using cache_fields_only_frame(1) [OF assms(5)] cache_fields_only_frame [OF assms(5)]
    by (simp_all add: put_kv_def)
  have "kvm (put_kv x r m s) = m" "requests (put_kv x r m s) = requests s" by (simp_all add: put_kv_def)
  with assms(1-4) show "core_inv R W (put_kv x r m s)"
    by (simp add: core_inv_def waiting_ok_def e)
  show "same_sched s (put_kv x r m s)" using e by (simp add: same_sched_def) (simp add: put_kv_def)
qed

lemma core_inv_distinct: "core_inv R W s \<Longrightarrow> distinct (R @ W)"
  unfolding core_inv_def by (blast dest: distinct_map [THEN iffD1])

section \<open>Taking a request off the device\<close>

text \<open>
  Preemption and proactive swapping move a running request to the end of the waiting queue,
  once its table is gone and its status says how it can come back.
\<close>

lemma core_inv_retire:
  assumes c: "core_inv R W s" and p: "p \<in> set R" and ok: "kv_ok m"
    and t: "dom (req_to_blocks m) = dom (req_to_blocks (kvm s)) - {request_id (heap s p)}"
    and cpu: "dom (req_to_blocks_cpu (kvm s)) \<subseteq> dom (req_to_blocks_cpu m)"
    and f: "request_id (f (heap s p)) = request_id (heap s p)"
    and st: "req_status (f (heap s p)) = PREEMPTED \<or>
      req_status (f (heap s p)) = SWAPPED \<and> request_id (heap s p) \<in> dom (req_to_blocks_cpu m)"
  shows "core_inv (remove1 p R) (W @ [p]) (upd_req p f (s\<lparr>kvm := m\<rparr>))" (is "core_inv _ _ ?s")
proof -
  have d: "distinct (ids s (R @ W))" and dR: "distinct R" and pW: "p \<notin> set W"
    using c core_inv_distinct [OF c] p by (auto simp: core_inv_def)
  have id: "request_id (heap ?s x) = request_id (heap s x)" for x
    using f by (simp add: upd_req_def)
  have stat: "req_status (heap ?s x) = req_status (heap s x)" if "x \<noteq> p" for x
    using that by (simp add: upd_req_def)
  have m: "mset (remove1 p R @ W @ [p]) = mset (R @ W)" using p by simp
  have "mset (ids ?s (remove1 p R @ W @ [p])) = mset (ids s (R @ W))"
    unfolding mset_map id m ..
  then have "distinct (ids ?s (remove1 p R @ W @ [p]))" using d by (metis mset_eq_imp_distinct_iff)
  moreover have "set (remove1 p R) = set R - {p}" using dR by simp
  moreover have "set (ids s R) - {request_id (heap s p)} = set (ids s (remove1 p R))"
  proof -
    have "inj_on (\<lambda>x. request_id (heap s x)) (set R)" using d by (simp add: distinct_map)
    then show ?thesis using p dR by (auto simp: inj_on_def)
  qed
  moreover have "waiting_ok ?s x" if "x \<in> set (W @ [p])" for x
  proof (cases "x = p")
    case True
    then show ?thesis using st f by (auto simp: waiting_ok_def upd_req_def)
  next
    case False
    with that have "waiting_ok s x" using c by (simp add: core_inv_def)
    then show ?thesis using False cpu id stat by (auto simp: waiting_ok_def upd_req_def)
  qed
  moreover have "kvm ?s = m" "requests ?s = requests s" by (simp_all add: upd_req_def)
  moreover have "x \<in> set (remove1 p R @ W @ [p]) \<longleftrightarrow> x \<in> set (R @ W)" for x
    using dR p by auto
  ultimately show ?thesis
    using c ok t stat by (simp add: core_inv_def id)
qed

lemma preempt_request_cases:
  assumes "preempt_request clk p s = Inr s'"
  obtains (recompute) m where "kv_free (request_id (heap s p)) False False (kvm s) = Inr m"
      "s' = log_event clk ''WAITING'' (request_id (heap s p)) ((upd_req p (\<lambda>r. r\<lparr>req_status := PREEMPTED,
          num_computed_tokens := 0, num_computed_tokens_next := 0, num_tokens_next := num_tokens r\<rparr>)
          (s\<lparr>kvm := m\<rparr>))\<lparr>waiting := waiting s @ [p]\<rparr>)"
  | (swap) k m where "swap_out (request_id (heap s p)) (kvm s) = Inr (k, m)"
      "s' = log_event clk ''WAITING'' (request_id (heap s p)) ((upd_req p (\<lambda>r. r\<lparr>req_status := SWAPPED\<rparr>)
          (s\<lparr>kvm := m\<rparr>))\<lparr>waiting := waiting s @ [p]\<rparr>)"
  using assms by (auto simp: preempt_request_def Let_def upd_req_def split: if_splits)

lemma preempt_request_inv:
  assumes c: "core_inv R W s" and p: "p \<in> set R" and r: "preempt_request clk p s = Inr s'"
  shows "core_inv (remove1 p R) (W @ [p]) s' \<and> same_sched s s' \<and> waiting s' = waiting s @ [p]
    \<and> running s' = running s"
  using r
proof (cases rule: preempt_request_cases)
  case (recompute m)
  let ?f = "\<lambda>r. r\<lparr>req_status := PREEMPTED, num_computed_tokens := 0,
      num_computed_tokens_next := 0, num_tokens_next := num_tokens r\<rparr>"
  have ok: "kv_ok (kvm s)" using c by (simp add: core_inv_def)
  from kv.free_law [OF ok, of "request_id (heap s p)"] recompute(1)
  have k: "kv_ok m" "dom (req_to_blocks m) = dom (req_to_blocks (kvm s)) - {request_id (heap s p)}"
    "dom (req_to_blocks_cpu m) = dom (req_to_blocks_cpu (kvm s))" by auto
  have "core_inv (remove1 p R) (W @ [p]) (upd_req p ?f (s\<lparr>kvm := m\<rparr>))"
    by (rule core_inv_retire [OF c p k(1,2)]) (use k(3) in auto)
  then have "core_inv (remove1 p R) (W @ [p]) s'" by (simp add: recompute(2))
  then show ?thesis by (simp add: recompute(2) same_sched_def upd_req_def log_event_def)
next
  case (swap k m)
  have ok: "kv_ok (kvm s)" using c by (simp add: core_inv_def)
  note k = kv.swapout_law [OF ok swap(1)]
  have "core_inv (remove1 p R) (W @ [p]) (upd_req p (\<lambda>r. r\<lparr>req_status := SWAPPED\<rparr>) (s\<lparr>kvm := m\<rparr>))"
    by (rule core_inv_retire [OF c p]) (use k in auto)
  then have "core_inv (remove1 p R) (W @ [p]) s'" by (simp add: swap(2))
  then show ?thesis by (simp add: swap(2) same_sched_def upd_req_def log_event_def)
qed

lemma swap_victim_inv:
  assumes c: "core_inv (running s) (waiting s) s" and v: "swap_victim clk x (s, acc) = Inr (s', acc')"
  shows "core_inv (running s') (waiting s') s'" "same_sched s s'"
    "x \<in> set (running s)" "running s' = remove1 x (running s)" "waiting s' = waiting s @ [x]"
    "acc' = acc\<lparr>acc_preempted := acc_preempted acc @ [x]\<rparr>"
proof -
  let ?rid = "request_id (heap s x)"
  let ?sw = "\<lambda>r. r\<lparr>req_status := SWAPPED\<rparr>"
  have ok: "kv_ok (kvm s)" using c by (simp add: core_inv_def)
  from v obtain k m where a: "swap_out ?rid (kvm s) = Inr (k, m)" "x \<in> set (running s)"
    "s' = log_event clk ''WAITING'' ?rid ((upd_req x ?sw (s\<lparr>kvm := m\<rparr>))
        \<lparr>running := remove1 x (running s), waiting := waiting s @ [x]\<rparr>)"
    "acc' = acc\<lparr>acc_preempted := acc_preempted acc @ [x]\<rparr>"
    by (auto simp: swap_victim_def Let_def upd_req_def split: if_splits)
  note k = kv.swapout_law [OF ok a(1)]
  have "core_inv (remove1 x (running s)) (waiting s @ [x]) (upd_req x ?sw (s\<lparr>kvm := m\<rparr>))"
    by (rule core_inv_retire [OF c a(2)]) (use k in auto)
  then have "core_inv (remove1 x (running s)) (waiting s @ [x]) s'" by (simp add: a(3))
  with a show "core_inv (running s') (waiting s') s'" "same_sched s s'"
    "x \<in> set (running s)" "running s' = remove1 x (running s)" "waiting s' = waiting s @ [x]"
    "acc' = acc\<lparr>acc_preempted := acc_preempted acc @ [x]\<rparr>"
    by (simp_all add: same_sched_def upd_req_def log_event_def)
qed

section \<open>The preemption loop\<close>

lemma preempt_loop_cases:
  assumes "preempt_loop hsh clk allow x n pre s = Inr (nb, pre', s')"
  obtains (enough) bs r m where "append_slots hsh (heap s x) n (kvm s) = Inr (Some bs, r, m)"
      "nb = Some bs" "pre' = pre" "s' = put_kv x r m s"
  | (stop) r m where "append_slots hsh (heap s x) n (kvm s) = Inr (None, r, m)"
      "running s \<noteq> []" "last (running s) = x" "nb = None" "pre' = pre @ [x]"
      "preempt_request clk x ((put_kv x r m s)\<lparr>running := butlast (running s)\<rparr>) = Inr s'"
  | (again) r m s1 where "append_slots hsh (heap s x) n (kvm s) = Inr (None, r, m)"
      "running s \<noteq> []" "last (running s) \<noteq> x" "allow"
      "preempt_request clk (last (running s)) ((put_kv x r m s)\<lparr>running := butlast (running s)\<rparr>) = Inr s1"
      "preempt_loop hsh clk allow x n (pre @ [last (running s)]) s1 = Inr (nb, pre', s')"
proof -
  from assms obtain nb1 r m where a: "append_slots hsh (heap s x) n (kvm s) = Inr (nb1, r, m)"
    by (subst (asm) preempt_loop.simps) auto
  show thesis
  proof (cases nb1)
    case (Some bs)
    with assms a have "nb = Some bs" "pre' = pre" "s' = put_kv x r m s"
      by (subst (asm) preempt_loop.simps, simp)+
    with a Some show thesis by (intro enough) simp_all
  next
    case None
    let ?p = "last (running s)"
    from assms a None obtain s1 where nonempty: "allow" "running s \<noteq> []"
      and pr: "preempt_request clk ?p ((put_kv x r m s)\<lparr>running := butlast (running s)\<rparr>) = Inr s1"
      and rest: "(if ?p = x then Inr (None, pre @ [?p], s1)
          else preempt_loop hsh clk allow x n (pre @ [?p]) s1) = Inr (nb, pre', s')"
      by (subst (asm) preempt_loop.simps) (auto simp: Let_def split: if_splits)
    show thesis
    proof (cases "?p = x")
      case True
      with rest pr nonempty a None show thesis by (intro stop) simp_all
    next
      case False
      with rest pr nonempty a None show thesis by (intro again) simp_all
    qed
  qed
qed

lemma remove1_last: "distinct xs \<Longrightarrow> xs \<noteq> [] \<Longrightarrow> remove1 (last xs) xs = butlast xs"
  by (metis append_Nil2 append_butlast_last_id distinct_append list.set_intros(1) remove1.simps(2)
      remove1_append disjoint_iff)

text \<open>
  The loop preempts a tail of the running queue, latest first. It either leaves the request
  running with its slots or ends by preempting the request itself.
\<close>

lemma preempt_loop_inv:
  assumes "preempt_loop hsh clk allow x n pre s = Inr (nb, pre', s')"
    and "core_inv (running s) (waiting s) s"
  shows "core_inv (running s') (waiting s') s' \<and> same_sched s s'
    \<and> (\<exists>vs. running s = running s' @ rev vs \<and> pre' = pre @ vs \<and> waiting s' = waiting s @ vs
        \<and> (nb = None \<longrightarrow> vs \<noteq> [] \<and> last vs = x) \<and> (nb \<noteq> None \<longrightarrow> x \<notin> set vs))"
  using assms
proof (induction "length (running s)" arbitrary: s pre rule: less_induct)
  case less
  note c = less.prems(2)
  have ok: "kv_ok (kvm s)" using c by (simp add: core_inv_def)
  have pop: "core_inv (running s1) (waiting s1) s1 \<and> same_sched s s1
      \<and> running s = running s1 @ [last (running s)] \<and> waiting s1 = waiting s @ [last (running s)]"
    if a: "append_slots hsh (heap s x) n (kvm s) = Inr (None, r, m)" and ne: "running s \<noteq> []"
      and pr: "preempt_request clk (last (running s)) ((put_kv x r m s)\<lparr>running := butlast (running s)\<rparr>) = Inr s1"
    for r m s1
  proof -
    note A = kv.append_law [OF ok a]
    have c1: "core_inv (running s) (waiting s) ((put_kv x r m s)\<lparr>running := butlast (running s)\<rparr>)"
      using core_inv_put_kv(1) [OF c] A by simp
    have s1: "same_sched s ((put_kv x r m s)\<lparr>running := butlast (running s)\<rparr>)"
      using core_inv_put_kv(2) [OF c] A same_sched_fields(1) same_sched_trans by blast
    note P = preempt_request_inv [OF c1 _ pr]
    have "last (running s) \<in> set (running s)" using ne by simp
    with P s1 ne core_inv_distinct [OF c] remove1_last [of "running s"] show ?thesis
      by (auto simp: put_kv_def intro: same_sched_trans)
  qed
  from less.prems(1) show ?case
  proof (cases rule: preempt_loop_cases)
    case (enough bs r m)
    with c ok show ?thesis
      using core_inv_put_kv [OF c] kv.append_law [OF ok enough(1)] by (simp add: put_kv_def)
  next
    case (stop r m)
    with pop [of r m s'] show ?thesis by (intro conjI exI [of _ "[x]"]) auto
  next
    case (again r m s1)
    from pop [OF again(1,2,5)] have P: "core_inv (running s1) (waiting s1) s1" "same_sched s s1"
      "running s = running s1 @ [last (running s)]" "waiting s1 = waiting s @ [last (running s)]" by auto
    have "length (running s1) < length (running s)"
      using P(3) by (metis length_append_singleton lessI)
    from less.hyps [OF this again(6) P(1)] obtain vs where
      v: "core_inv (running s') (waiting s') s'" "same_sched s1 s'" "running s1 = running s' @ rev vs"
      "pre' = (pre @ [last (running s)]) @ vs" "waiting s' = waiting s1 @ vs"
      "nb = None \<longrightarrow> vs \<noteq> [] \<and> last vs = x" "nb \<noteq> None \<longrightarrow> x \<notin> set vs" by auto
    have "running s = running s' @ rev (last (running s) # vs)" using P(3) v(3) by simp
    with v P again(3) show ?thesis
      by (intro conjI exI [of _ "last (running s) # vs"]) (auto intro: same_sched_trans)
  qed
qed

section \<open>The accumulator\<close>

text \<open>
  \<open>D\<close> lists the requests scheduled so far: each has its entry of tokens and of block ids, and
  the token budget is what the entries leave of the step's maximum.
\<close>

definition acc_inv :: "ref list \<Rightarrow> scheduler \<Rightarrow> sched_acc \<Rightarrow> bool" where
  "acc_inv D s acc \<longleftrightarrow>
     map fst (acc_tokens acc) = ids s D
     \<and> total_tokens (acc_tokens acc) + token_budget acc = max_num_scheduled_tokens s
     \<and> 0 \<le> token_budget acc
     \<and> set (ids s D) \<subseteq> dom (acc_block_ids acc)
     \<and> mset D = mset (acc_new acc @ acc_resumed acc @ acc_running acc)"

lemma acc_inv_same_sched: "same_sched s s' \<Longrightarrow> acc_inv D s' acc = acc_inv D s acc"
  by (simp add: acc_inv_def same_sched_def)

lemma acc_inv_fields [simp]:
  "acc_inv D s (acc\<lparr>acc_encoder := e\<rparr>) = acc_inv D s acc"
  "acc_inv D s (acc\<lparr>encoder_budget := b\<rparr>) = acc_inv D s acc"
  "acc_inv D s (acc\<lparr>acc_preempted := p\<rparr>) = acc_inv D s acc"
  by (simp_all add: acc_inv_def)

lemma acc_inv_record:
  assumes "acc_inv D s acc" "request_id (heap s x) \<notin> set (ids s D)" "n \<le> token_budget acc"
    and "acc_block_ids acc' = (acc_block_ids acc)(request_id (heap s x) \<mapsto> bs)"
    and "acc_tokens acc' = dict_set (request_id (heap s x)) n (acc_tokens acc)"
    and "token_budget acc' = token_budget acc - n"
    and "mset (acc_new acc' @ acc_resumed acc' @ acc_running acc')
      = add_mset x (mset (acc_new acc @ acc_resumed acc @ acc_running acc))"
  shows "acc_inv (D @ [x]) s acc'"
proof -
  have "dict_set (request_id (heap s x)) n (acc_tokens acc) = acc_tokens acc @ [(request_id (heap s x), n)]"
    using assms(1,2) by (intro dict_set_fresh) (simp add: acc_inv_def)
  with assms show ?thesis by (auto simp: acc_inv_def total_tokens_def)
qed

lemma encoder_inputs_loop_le:
  "encoder_inputs_loop r ec k ps acc n b = Inr (is, n', b') \<Longrightarrow> n' \<le> n"
proof (induction r ec k ps acc n b rule: encoder_inputs_loop.induct)
  case (2 r ec k i p ps acc n b)
  then show ?case by (auto split: if_splits)
qed simp

lemma try_schedule_encoder_inputs_le:
  "try_schedule_encoder_inputs r k n b ec = Inr (is, n', b') \<Longrightarrow> n' \<le> n"
  by (auto simp: try_schedule_encoder_inputs_def split: if_splits dest: encoder_inputs_loop_le)

lemma commit_encoder_inputs_steps:
  assumes "commit_encoder_inputs x inputs b s acc = Inr (s', acc')"
  shows "\<exists>e a b. s' = s\<lparr>enc_cache := e\<rparr> \<and> acc' = acc\<lparr>acc_encoder := a, encoder_budget := b\<rparr>"
proof (cases "inputs = []")
  case True
  with assms have "s' = s\<lparr>enc_cache := enc_cache s\<rparr>"
    "acc' = acc\<lparr>acc_encoder := acc_encoder acc, encoder_budget := encoder_budget acc\<rparr>"
    by (simp_all add: commit_encoder_inputs_def)
  then show ?thesis by blast
next
  case False
  with assms show ?thesis by (auto simp: commit_encoder_inputs_def Let_def)
qed

section \<open>One running request\<close>

lemma single_running_inv:
  assumes c: "core_inv (running s) (waiting s) s" and a: "acc_inv D s acc"
    and fresh: "request_id (heap s x) \<notin> set (ids s D)"
    and r: "schedule_single_running_request hsh clk allow x s acc = Inr (n, s', acc')"
  shows "core_inv (running s') (waiting s') s' \<and> same_sched s s' \<and>
    (\<exists>vs. running s = running s' @ rev vs \<and> waiting s' = waiting s @ vs
       \<and> acc_preempted acc' = acc_preempted acc @ vs
       \<and> acc_new acc' = acc_new acc \<and> acc_resumed acc' = acc_resumed acc
       \<and> (case n of
            None \<Rightarrow> vs \<noteq> [] \<and> last vs = x \<and> acc_inv D s' acc' \<and> acc_running acc' = acc_running acc
          | Some k \<Rightarrow> 0 < k \<and> x \<notin> set vs \<and> acc_inv (D @ [x]) s' acc' \<and> acc_running acc' = acc_running acc @ [x]))"
proof -
  let ?r = "heap s x"
  from r obtain inputs k b nb pre s1 where
    t: "try_schedule_encoder_inputs ?r (num_computed_tokens ?r)
      (min (num_tokens ?r - num_computed_tokens ?r) (token_budget acc)) (encoder_budget acc) (enc_cache s)
      = Inr (inputs, k, b)" and k: "0 < k"
    and l: "preempt_loop hsh clk allow x k (acc_preempted acc) s = Inr (nb, pre, s1)"
    and last: "(case nb of None \<Rightarrow> Inr (None, s1, acc\<lparr>acc_preempted := pre\<rparr>)
      | Some bs \<Rightarrow> andthen (commit_encoder_inputs x inputs b s1
                (acc\<lparr>acc_preempted := pre, acc_running := acc_running acc @ [x],
                     acc_block_ids := (acc_block_ids acc)(request_id ?r \<mapsto> bs),
                     acc_tokens := dict_set (request_id ?r) k (acc_tokens acc),
                     token_budget := token_budget acc - k\<rparr>))
              (\<lambda>(s, acc). Inr (Some k, s, acc))) = Inr (n, s', acc')"
    by (auto simp: schedule_single_running_request_def Let_def cong: option.case_cong)
  from preempt_loop_inv [OF l c] obtain vs where c1: "core_inv (running s1) (waiting s1) s1"
    and ss: "same_sched s s1" and vs: "running s = running s1 @ rev vs" "pre = acc_preempted acc @ vs"
      "waiting s1 = waiting s @ vs" "nb = None \<longrightarrow> vs \<noteq> [] \<and> last vs = x" "nb \<noteq> None \<longrightarrow> x \<notin> set vs" by auto
  note a1 = acc_inv_same_sched [OF ss]
  show ?thesis
  proof (cases nb)
    case None
    with last have "n = None" "s' = s1" "acc' = acc\<lparr>acc_preempted := pre\<rparr>" by auto
    with c1 ss vs None a a1 show ?thesis by (intro conjI exI [of _ vs]) auto
  next
    case (Some bs)
    let ?acc = "acc\<lparr>acc_preempted := pre, acc_running := acc_running acc @ [x],
                     acc_block_ids := (acc_block_ids acc)(request_id ?r \<mapsto> bs),
                     acc_tokens := dict_set (request_id ?r) k (acc_tokens acc),
                     token_budget := token_budget acc - k\<rparr>"
    from Some last have n: "n = Some k" and ce: "commit_encoder_inputs x inputs b s1 ?acc = Inr (s', acc')"
      by auto
    from commit_encoder_inputs_steps [OF ce] obtain e ea eb where s': "s' = s1\<lparr>enc_cache := e\<rparr>"
      and acc': "acc' = ?acc\<lparr>acc_encoder := ea, encoder_budget := eb\<rparr>" by blast
    have "k \<le> token_budget acc" using try_schedule_encoder_inputs_le [OF t] by simp
    then have "acc_inv (D @ [x]) s ?acc"
      by (intro acc_inv_record [where bs = bs, OF a fresh]) auto
    then have "acc_inv (D @ [x]) s' acc'"
      using acc_inv_same_sched [OF ss] acc_inv_same_sched [OF same_sched_fields(3)]
      unfolding s' acc' by simp
    moreover have "same_sched s s'" unfolding s' using ss same_sched_fields(3) same_sched_trans by blast
    ultimately show ?thesis using c1 vs n Some k
      by (intro conjI exI [of _ vs]) (auto simp: s' acc')
  qed
qed

section \<open>The running loop\<close>

lemma acc_inv_cong:
  assumes "max_num_scheduled_tokens s' = max_num_scheduled_tokens s"
    "\<And>x. request_id (heap s' x) = request_id (heap s x)"
  shows "acc_inv D s' acc = acc_inv D s acc"
  using assms by (simp add: acc_inv_def)

text \<open>One turn of the loop on request \<open>x\<close>, inside the look-ahead context manager.\<close>

lemma lookahead_turn:
  assumes c: "core_inv (running s) (waiting s) s" and a: "acc_inv D s acc"
    and fresh: "request_id (heap s x) \<notin> set (ids s D)" and quiet: "\<not> lookahead (heap s x)"
    and r: "schedule_single_running_request hsh clk True x
        (s\<lparr>heap := (heap s)(x := fst (lookahead_enter la (heap s x)))\<rparr>) acc = Inr (n, s1, acc1)"
    and s2: "s2 = upd_req x (lookahead_exit (snd (lookahead_enter la (heap s x)))) s1"
  shows "core_inv (running s2) (waiting s2) s2 \<and> same_sched s s2 \<and>
    (\<exists>vs. running s = running s2 @ rev vs \<and> waiting s2 = waiting s @ vs
       \<and> acc_preempted acc1 = acc_preempted acc @ vs
       \<and> acc_new acc1 = acc_new acc \<and> acc_resumed acc1 = acc_resumed acc
       \<and> (case n of
            None \<Rightarrow> vs \<noteq> [] \<and> last vs = x \<and> acc_inv D s2 acc1 \<and> acc_running acc1 = acc_running acc
          | Some k \<Rightarrow> 0 < k \<and> x \<notin> set vs \<and> acc_inv (D @ [x]) s2 acc1 \<and> acc_running acc1 = acc_running acc @ [x]))"
proof -
  let ?e = "s\<lparr>heap := (heap s)(x := fst (lookahead_enter la (heap s x)))\<rparr>"
  have e: "request_id (heap ?e y) = request_id (heap s y)" "req_status (heap ?e y) = req_status (heap s y)" for y
    by (simp_all add: lookahead_enter_def)
  have ex: "request_id (heap s2 y) = request_id (heap s1 y)" "req_status (heap s2 y) = req_status (heap s1 y)" for y
    by (simp_all add: s2 upd_req_def lookahead_exit_def split: option.split)
  have ce: "core_inv (running ?e) (waiting ?e) ?e"
    using c core_inv_cong [of ?e s] e by simp
  have ae: "acc_inv D ?e acc" using a acc_inv_cong [of ?e s] e by simp
  have fe: "request_id (heap ?e x) \<notin> set (ids ?e D)" using fresh unfolding e .
  note S = single_running_inv [OF ce ae fe r]
  have q2: "running s2 = running s1" "waiting s2 = waiting s1" "kvm s2 = kvm s1" "requests s2 = requests s1"
    "max_num_scheduled_tokens s2 = max_num_scheduled_tokens s1" by (simp_all add: s2 upd_req_def)
  have c2: "core_inv R W s2 = core_inv R W s1" for R W
    by (rule core_inv_cong) (simp_all add: q2 ex)
  have a2: "acc_inv E s2 acc1 = acc_inv E s1 acc1" for E
    by (rule acc_inv_cong) (simp_all add: q2 ex)
  have ss1: "same_sched ?e s1" using S by blast
  have la: "lookahead (heap s2 y) = lookahead (heap s y)" for y
    using ss1 quiet unfolding same_sched_def s2 upd_req_def
    by (cases "y = x") (auto simp: lookahead_exit_def lookahead_enter_def split: if_splits)
  have "same_sched s s2"
    using ss1 la ex e unfolding same_sched_def by (simp add: s2 upd_req_def)
  with S show ?thesis by (simp add: q2 c2 a2 cong: option.case_cong)
qed

lemma running_loop_cases:
  assumes "running_loop hsh clk la None i partial s acc = Inr (partial', s', acc')"
  obtains (finish) "\<not> i < length (running s)" "s' = s" "acc' = acc"
  | (halt) n s1 where "i < length (running s)"
      "schedule_single_running_request hsh clk True (running s ! i)
        (s\<lparr>heap := (heap s)(running s ! i := fst (lookahead_enter la (heap s (running s ! i))))\<rparr>) acc
        = Inr (n, s1, acc')" "n = None \<or> n = Some 0"
      "s' = upd_req (running s ! i) (lookahead_exit (snd (lookahead_enter la (heap s (running s ! i))))) s1"
  | (turn) n s1 acc1 p where "i < length (running s)"
      "schedule_single_running_request hsh clk True (running s ! i)
        (s\<lparr>heap := (heap s)(running s ! i := fst (lookahead_enter la (heap s (running s ! i))))\<rparr>) acc
        = Inr (n, s1, acc1)" "n \<noteq> None" "n \<noteq> Some 0"
      "running_loop hsh clk la None (Suc i) p
        (upd_req (running s ! i) (lookahead_exit (snd (lookahead_enter la (heap s (running s ! i))))) s1) acc1
        = Inr (partial', s', acc')"
proof (cases "i < length (running s)")
  case False
  with assms have "s' = s" "acc' = acc" by (subst (asm) running_loop.simps, simp)+
  with False finish show thesis by blast
next
  case True
  let ?x = "running s ! i"
  let ?en = "lookahead_enter la (heap s ?x)"
  from assms True obtain n s1 acc1 where 1: "schedule_single_running_request hsh clk True ?x
        (s\<lparr>heap := (heap s)(?x := fst ?en)\<rparr>) acc = Inr (n, s1, acc1)"
    and 2: "(let s2 = upd_req ?x (lookahead_exit (snd ?en)) s1; r = heap s2 ?x in
            if n = None \<or> n = Some 0 then Inr (partial, s2, acc1)
            else running_loop hsh clk la None (i + 1)
                   (if la then num_computed_tokens_next r + the n < num_tokens_next r
                    else num_computed_tokens r + the n < num_tokens r) s2 acc1) = Inr (partial', s', acc')"
    by (subst (asm) running_loop.simps) (auto simp: Let_def)
  show thesis
  proof (cases "n = None \<or> n = Some 0")
    case c: True
    then have "s' = upd_req ?x (lookahead_exit (snd ?en)) s1" "acc1 = acc'"
      using 2 by (auto simp: Let_def)
    with True 1 c show thesis by (intro halt) auto
  next
    case False
    then have "\<exists>p. running_loop hsh clk la None (Suc i) p (upd_req ?x (lookahead_exit (snd ?en)) s1) acc1
        = Inr (partial', s', acc')"
      using 2 unfolding Let_def by (simp only: if_False Suc_eq_plus1) blast
    then obtain p where "running_loop hsh clk la None (Suc i) p (upd_req ?x (lookahead_exit (snd ?en)) s1) acc1
        = Inr (partial', s', acc')" ..
    with True 1 False show thesis by (intro turn) auto
  qed
qed

lemma distinct_append_decomp:
  assumes "distinct xs" "xs = as @ x # bs" "xs = cs @ x # ds"
  shows "as = cs"
  using assms by (metis append_Cons_eq_iff distinct_append disjoint_insert(1) distinct.simps(2) list.simps(15) not_distinct_conv_prefix)

lemma prefix_keeps:
  assumes "xs = us @ rev vs" "i < length xs" "xs ! i \<notin> set vs"
  shows "i < length us \<and> take (Suc i) us = take i xs @ [xs ! i]"
proof -
  have "i < length us"
  proof (rule ccontr)
    assume "\<not> i < length us"
    with assms(1,2) have "xs ! i = rev vs ! (i - length us)" "i - length us < length (rev vs)"
      by (simp_all add: nth_append)
    with assms(3) show False by (metis nth_mem set_rev)
  qed
  with assms(1) show ?thesis by (simp add: take_Suc_conv_app_nth nth_append)
qed

lemma running_loop_inv:
  assumes "running_loop hsh clk la None i partial s acc = Inr (partial', s', acc')"
    and "core_inv (running s) (waiting s) s" "acc_inv (take i (running s)) s acc" "i \<le> length (running s)"
    and "acc_running acc = take i (running s)"
    and "\<forall>x \<in> set (running s). \<not> lookahead (heap s x)"
  shows "core_inv (running s') (waiting s') s' \<and> same_sched s s' \<and> acc_inv (running s') s' acc'
    \<and> acc_running acc' = running s' \<and> acc_new acc' = acc_new acc \<and> acc_resumed acc' = acc_resumed acc
    \<and> (\<exists>vs. running s = running s' @ rev vs \<and> waiting s' = waiting s @ vs
        \<and> acc_preempted acc' = acc_preempted acc @ vs)"
  using assms
proof (induction "length (running s) - i" arbitrary: i partial s acc rule: less_induct)
  case less
  note c = less.prems(2) and a = less.prems(3)
  have fresh: "request_id (heap s (running s ! i)) \<notin> set (ids s (take i (running s)))"
    if "i < length (running s)"
  proof -
    have "distinct (ids s (running s))" using c by (simp add: core_inv_def)
    then show ?thesis using that
      by (auto simp: distinct_conv_nth in_set_conv_nth)
  qed
  have quiet: "\<not> lookahead (heap s (running s ! i))" if "i < length (running s)"
    using less.prems(6) that by simp
  from less.prems(1) show ?case
  proof (cases rule: running_loop_cases)
    case finish
    with less.prems show ?thesis by simp
  next
    case (halt n s1)
    from lookahead_turn [OF c a fresh quiet halt(2,4)] halt(1) obtain vs where
      t: "core_inv (running s') (waiting s') s'" "same_sched s s'"
      "running s = running s' @ rev vs" "waiting s' = waiting s @ vs"
      "acc_preempted acc' = acc_preempted acc @ vs" "acc_new acc' = acc_new acc" "acc_resumed acc' = acc_resumed acc"
      "case n of None \<Rightarrow> vs \<noteq> [] \<and> last vs = running s ! i \<and> acc_inv (take i (running s)) s' acc'
          \<and> acc_running acc' = acc_running acc
        | Some k \<Rightarrow> 0 < k" by (auto split: option.splits)
    with halt(3) have n: "vs \<noteq> []" "last vs = running s ! i" "acc_inv (take i (running s)) s' acc'"
      "acc_running acc' = acc_running acc" by (auto split: option.splits)
    have eq: "running s' = take i (running s)"
    proof -
      obtain us where us: "vs = us @ [running s ! i]" using n(1,2) by (metis append_butlast_last_id)
      have "running s = running s' @ running s ! i # rev us" using t(3) us by simp
      moreover have "running s = take i (running s) @ running s ! i # drop (Suc i) (running s)"
        using halt(1) by (rule id_take_nth_drop)
      moreover have "distinct (running s)" using core_inv_distinct [OF c] by simp
      ultimately show ?thesis
        by (metis distinct_append_decomp)
    qed
    have "acc_inv (running s') s' acc'" "acc_running acc' = running s'"
      using n(3,4) less.prems(5) by (simp_all only: eq)
    with t(1-7) show ?thesis by blast
  next
    case (turn n s1 acc1 p)
    let ?s2 = "upd_req (running s ! i) (lookahead_exit (snd (lookahead_enter la (heap s (running s ! i))))) s1"
    from lookahead_turn [OF c a fresh quiet turn(2) refl] turn(1,3) obtain vs k where
      t: "core_inv (running ?s2) (waiting ?s2) ?s2" "same_sched s ?s2"
      "running s = running ?s2 @ rev vs" "waiting ?s2 = waiting s @ vs"
      "acc_preempted acc1 = acc_preempted acc @ vs" "acc_new acc1 = acc_new acc" "acc_resumed acc1 = acc_resumed acc"
      and n: "running s ! i \<notin> set vs" "acc_inv (take i (running s) @ [running s ! i]) ?s2 acc1"
      "acc_running acc1 = acc_running acc @ [running s ! i]" by (auto split: option.splits)
    obtain us where us: "us = running ?s2" by simp
    note split = prefix_keeps [OF t(3) [folded us] turn(1) n(1)]
    have il: "i < length (running ?s2)" using split us by simp
    have tk: "take (Suc i) (running ?s2) = take i (running s) @ [running s ! i]" using split us by simp
    have "length (running s) = length (running ?s2) + length vs"
      using arg_cong [OF t(3), of length] by simp
    with il have "length (running ?s2) - Suc i < length (running s) - i" by linarith
    moreover have "\<forall>x \<in> set (running ?s2). \<not> lookahead (heap ?s2 x)"
    proof
      fix x assume "x \<in> set (running ?s2)"
      then have "x \<in> set (running s)" by (subst t(3)) simp
      with t(2) less.prems(6) show "\<not> lookahead (heap ?s2 x)" by (simp add: same_sched_def)
    qed
    ultimately have IH: "core_inv (running s') (waiting s') s' \<and> same_sched ?s2 s' \<and> acc_inv (running s') s' acc'
      \<and> acc_running acc' = running s' \<and> acc_new acc' = acc_new acc1 \<and> acc_resumed acc' = acc_resumed acc1
      \<and> (\<exists>vs. running ?s2 = running s' @ rev vs \<and> waiting s' = waiting ?s2 @ vs
        \<and> acc_preempted acc' = acc_preempted acc1 @ vs)"
      using less.hyps [of ?s2 "Suc i" p acc1, OF _ turn(5) t(1)] n(2,3) less.prems(5) Suc_leI [OF il]
      unfolding tk by (simp only: simp_thms)
    then obtain ws where ws: "running ?s2 = running s' @ rev ws" "waiting s' = waiting ?s2 @ ws"
      "acc_preempted acc' = acc_preempted acc1 @ ws" by blast
    have "running s = running s' @ rev (vs @ ws)" "waiting s' = waiting s @ (vs @ ws)"
      "acc_preempted acc' = acc_preempted acc @ (vs @ ws)"
      using t(3) unfolding ws(1) using ws(2,3) t(4,5) by simp_all
    with IH t(2,6,7) show ?thesis using same_sched_trans by metis
  qed
qed

section \<open>One waiting request\<close>

definition admits :: "ref \<Rightarrow> scheduler \<Rightarrow> scheduler \<Rightarrow> bool \<Rightarrow> bool" where
  "admits x s s' success \<longleftrightarrow>
     (\<exists>r m. s' = put_kv x r m s \<and> cache_fields_only (heap s x) r \<and> kv_ok m
        \<and> dom (req_to_blocks m) = (if success then insert (request_id (heap s x)) (dom (req_to_blocks (kvm s)))
             else dom (req_to_blocks (kvm s)))
        \<and> dom (req_to_blocks_cpu (kvm s)) - (if success then {request_id (heap s x)} else {})
             \<subseteq> dom (req_to_blocks_cpu m))"

lemma admits_self: "kv_ok (kvm s) \<Longrightarrow> admits x s s False"
  unfolding admits_def by (intro exI [of _ "heap s x"] exI [of _ "kvm s"]) (simp add: put_kv_def)

lemma admits_fail:
  assumes "core_inv R W s" "admits x s s' False"
  shows "core_inv R W s'" "same_sched s s'"
proof -
  from assms(2) obtain r m where s': "s' = put_kv x r m s" "cache_fields_only (heap s x) r" "kv_ok m"
    "dom (req_to_blocks m) = dom (req_to_blocks (kvm s))"
    "dom (req_to_blocks_cpu (kvm s)) \<subseteq> dom (req_to_blocks_cpu m)" by (auto simp: admits_def)
  have e: "request_id (heap s' y) = request_id (heap s y)" "req_status (heap s' y) = req_status (heap s y)"
    "lookahead (heap s' y) = lookahead (heap s y)" for y
    using cache_fields_only_frame(1) [OF s'(2)] cache_fields_only_frame [OF s'(2)] by (simp_all add: s'(1) put_kv_def)
  have k: "kvm s' = m" "requests s' = requests s" by (simp_all add: s'(1) put_kv_def)
  have "waiting_ok s' y" if "waiting_ok s y" for y
    using that s'(5) unfolding waiting_ok_def e k by auto
  with assms(1) s' show "core_inv R W s'"
    unfolding core_inv_def e k by simp
  show "same_sched s s'" using e by (simp add: same_sched_def s'(1) put_kv_def)
qed

lemma admits_core_inv:
  assumes c: "core_inv R (x # W) s" and a: "admits x s s1 True"
    and s2: "s2 = upd_req x (\<lambda>r. r\<lparr>req_status := RUNNING, num_computed_tokens := k\<rparr>) s1"
  shows "core_inv (R @ [x]) W s2" "same_sched s s2"
proof -
  from a obtain r m where s1: "s1 = put_kv x r m s" "cache_fields_only (heap s x) r" "kv_ok m"
    "dom (req_to_blocks m) = insert (request_id (heap s x)) (dom (req_to_blocks (kvm s)))"
    "dom (req_to_blocks_cpu (kvm s)) - {request_id (heap s x)} \<subseteq> dom (req_to_blocks_cpu m)"
    by (auto simp: admits_def)
  have e: "request_id (heap s2 y) = request_id (heap s y)" "lookahead (heap s2 y) = lookahead (heap s y)"
    "req_status (heap s2 y) = (if y = x then RUNNING else req_status (heap s y))" for y
    using cache_fields_only_frame(1) [OF s1(2)] cache_fields_only_frame [OF s1(2)]
    by (simp_all add: s2 s1(1) put_kv_def upd_req_def)
  have k: "kvm s2 = m" "requests s2 = requests s" by (simp_all add: s2 s1(1) put_kv_def upd_req_def)
  have d: "distinct (ids s (R @ x # W))" using c by (simp add: core_inv_def)
  have "waiting_ok s2 y" if "y \<in> set W" for y
  proof -
    have "waiting_ok s y" using c that by (simp add: core_inv_def)
    moreover have "request_id (heap s y) \<in> set (ids s W)" using that by simp
    then have "request_id (heap s y) \<noteq> request_id (heap s x)" "y \<noteq> x" using d by auto
    ultimately show ?thesis using s1(5) unfolding waiting_ok_def e k by auto
  qed
  moreover have "distinct (ids s ((R @ [x]) @ W))" using d by simp
  ultimately show "core_inv (R @ [x]) W s2"
    using c s1(3,4) unfolding core_inv_def e k by auto
  show "same_sched s s2" using e by (simp add: same_sched_def s2 s1(1) put_kv_def upd_req_def)
qed

lemma admit_waiting_steps:
  assumes "admit_waiting hsh x bs k s acc = Inr (adm, s')"
  obtains (none) "adm = None" "s' = s"
  | (tried) nc1 n1 c1 inputs n b nb r m where
      "c1 = bs \<or> c1 = butlast bs"
      "try_schedule_encoder_inputs (heap s x) nc1 (min n1 (token_budget acc)) (encoder_budget acc) (enc_cache s)
        = Inr (inputs, n, b)"
      "n \<noteq> 0" "allocate_slots hsh (heap s x) n c1 False (kvm s) = Inr (nb, r, m)" "s' = put_kv x r m s"
      "adm = map_option (\<lambda>new. (nc1, n, c1, inputs, b, new)) nb"
proof -
  obtain nc1 n1 c1 where ch: "(if num_tokens (heap s x) - k = 0
         then if bs = [] then Inl IndexError
              else Inr (k - sched_block_size s, sched_block_size s, butlast bs)
         else Inr (k, num_tokens (heap s x) - k, bs)) = (Inr (nc1, n1, c1) :: (int \<times> int \<times> nat list) result)"
    using assms by (auto simp: admit_waiting_def Let_def)
  with assms obtain inputs n b where
    e: "try_schedule_encoder_inputs (heap s x) nc1 (min n1 (token_budget acc)) (encoder_budget acc) (enc_cache s)
        = Inr (inputs, n, b)"
    and rest: "(if n = 0 then Inr (None, s)
        else andthen (allocate_slots hsh (heap s x) n c1 False (kvm s)) (\<lambda>(nb, r, m).
          let s = put_kv x r m s in
          case nb of
            None \<Rightarrow> Inr (None, s)
          | Some new \<Rightarrow> Inr (Some (nc1, n, c1, inputs, b, new), s))) = Inr (adm, s')"
    unfolding admit_waiting_def Let_def by (simp only: ch andthen_simps prod.case) auto
  show thesis
  proof (cases "n = 0")
    case True
    with rest none show thesis by simp
  next
    case False
    with rest obtain nb r m where al: "allocate_slots hsh (heap s x) n c1 False (kvm s) = Inr (nb, r, m)"
      and fin: "(case nb of None \<Rightarrow> Inr (None, put_kv x r m s)
          | Some new \<Rightarrow> Inr (Some (nc1, n, c1, inputs, b, new), put_kv x r m s)) = (Inr (adm, s') :: (admission option \<times> scheduler) result)"
      by (auto simp: Let_def)
    have "c1 = bs \<or> c1 = butlast bs" using ch by (auto split: if_splits)
    moreover have "s' = put_kv x r m s" "adm = map_option (\<lambda>new. (nc1, n, c1, inputs, b, new)) nb"
      using fin by (auto split: option.splits)
    ultimately show thesis using e False al tried by blast
  qed
qed

lemma admit_waiting_inv:
  assumes ok: "kv_ok (kvm s)" and u: "usable_blocks (kvm s) bs"
    and fresh: "request_id (heap s x) \<notin> dom (req_to_blocks (kvm s))"
    and a: "admit_waiting hsh x bs k s acc = Inr (adm, s')"
  shows "admits x s s' (adm \<noteq> None)
    \<and> (\<forall>nc n c inputs b new. adm = Some (nc, n, c, inputs, b, new) \<longrightarrow> n \<noteq> 0 \<and> n \<le> token_budget acc)"
  using a
proof (cases rule: admit_waiting_steps)
  case none
  with admits_self [OF ok] show ?thesis by simp
next
  case (tried nc1 n1 c1 inputs n b nb r m)
  have u1: "usable_blocks (kvm s) c1"
    using tried(1) u kv.usable_butlast [of "kvm s" bs] by auto
  have le: "n \<le> token_budget acc" using try_schedule_encoder_inputs_le [OF tried(2)] by simp
  have "admits x s s' (adm \<noteq> None)"
    unfolding admits_def using kv.alloc_law [OF ok u1 fresh tried(4)] tried(5,6)
    by (intro exI [of _ r] exI [of _ m]) auto
  with le tried(3,6) show ?thesis by auto
qed

lemma admit_swapped_inv:
  assumes ok: "kv_ok (kvm s)" and u: "usable_blocks (kvm s) bs"
    and fresh: "request_id (heap s x) \<notin> dom (req_to_blocks (kvm s))"
    and budget: "0 < token_budget acc"
    and a: "admit_swapped hsh x bs k s acc = Inr (adm, s')"
  shows "admits x s s' (adm \<noteq> None)
    \<and> (\<forall>nc n c inputs b new. adm = Some (nc, n, c, inputs, b, new) \<longrightarrow> n \<noteq> 0 \<and> n \<le> token_budget acc)"
proof -
  from a obtain nb r m where sw: "swap_in hsh (heap s x) bs (kvm s) = Inr (nb, r, m)"
    and pos: "num_computed_tokens (heap s x) < num_tokens (heap s x)" "k < num_tokens (heap s x)"
    and fin: "(case nb of None \<Rightarrow> Inr (None, put_kv x r m s)
       | Some new \<Rightarrow> Inr (Some (max (num_computed_tokens (heap s x)) k,
             min (num_tokens (heap s x) - max (num_computed_tokens (heap s x)) k) (token_budget acc),
             bs, [], encoder_budget acc, new), put_kv x r m s)) = (Inr (adm, s') :: (admission option \<times> scheduler) result)"
    unfolding admit_swapped_def Let_def by auto
  have "admits x s s' (adm \<noteq> None)"
    unfolding admits_def using kv.swapin_law [OF ok u fresh sw] fin
    by (intro exI [of _ r] exI [of _ m]) (auto split: option.splits)
  with fin pos budget show ?thesis by (auto split: option.splits)
qed

lemma admit_request_inv:
  assumes "kv_ok (kvm s)" "usable_blocks (kvm s) bs"
    "request_id (heap s x) \<notin> dom (req_to_blocks (kvm s))" "0 < token_budget acc"
    "admit_request hsh x bs s acc = Inr (adm, s')"
  shows "admits x s s' (adm \<noteq> None)
    \<and> (\<forall>nc n c inputs b new. adm = Some (nc, n, c, inputs, b, new) \<longrightarrow> n \<noteq> 0 \<and> n \<le> token_budget acc)"
  using assms admit_waiting_inv [OF assms(1-3)] admit_swapped_inv [OF assms(1-4)]
  by (auto simp: admit_request_def Let_def split: if_splits)

lemma record_admission_steps:
  assumes "record_admission x (nc, n, c, inputs, b, new) s acc = Inr (res, s', acc')"
  shows "res = Some n
    \<and> acc_block_ids acc' = (acc_block_ids acc)(request_id (heap s x) \<mapsto> c @ new)
    \<and> acc_tokens acc' = dict_set (request_id (heap s x)) n (acc_tokens acc)
    \<and> token_budget acc' = token_budget acc - n
    \<and> mset (acc_new acc' @ acc_resumed acc' @ acc_running acc')
      = add_mset x (mset (acc_new acc @ acc_resumed acc @ acc_running acc))
    \<and> acc_preempted acc' = acc_preempted acc \<and> acc_running acc' = acc_running acc
    \<and> (\<exists>e. s' = (upd_req x (\<lambda>r. r\<lparr>req_status := RUNNING, num_computed_tokens := nc\<rparr>) s)\<lparr>enc_cache := e\<rparr>)"
proof -
  define acc0 where "acc0 = (if req_status (heap s x) = WAITING then acc\<lparr>acc_new := acc_new acc @ [x]\<rparr>
                 else acc\<lparr>acc_resumed := acc_resumed acc @ [x]\<rparr>)"
  define acc1 where "acc1 = acc0\<lparr>acc_block_ids := (acc_block_ids acc0)(request_id (heap s x) \<mapsto> c @ new),
                    acc_tokens := dict_set (request_id (heap s x)) n (acc_tokens acc0),
                    token_budget := token_budget acc0 - n\<rparr>"
  have "res = Some n \<and> commit_encoder_inputs x inputs b
      (upd_req x (\<lambda>r. r\<lparr>req_status := RUNNING, num_computed_tokens := nc\<rparr>) s) acc1 = Inr (s', acc')"
    using assms unfolding record_admission_def Let_def prod.case acc0_def [symmetric] acc1_def [symmetric] by auto
  with commit_encoder_inputs_steps obtain e ea eb where
    "res = Some n" "s' = (upd_req x (\<lambda>r. r\<lparr>req_status := RUNNING, num_computed_tokens := nc\<rparr>) s)\<lparr>enc_cache := e\<rparr>"
    "acc' = acc1\<lparr>acc_encoder := ea, encoder_budget := eb\<rparr>" by blast
  then show ?thesis by (auto simp: acc1_def acc0_def)
qed

lemma single_waiting_inv:
  assumes c: "core_inv R (x # W) s" and a: "acc_inv D s acc" and sub: "set D \<subseteq> set R"
    and budget: "0 < token_budget acc"
    and w: "schedule_single_waiting_request hsh x s acc = Inr (n, s', acc')"
  shows "same_sched s s' \<and> acc_preempted acc' = acc_preempted acc \<and> acc_running acc' = acc_running acc
    \<and> (case n of None \<Rightarrow> core_inv R (x # W) s' \<and> acc' = acc
       | Some k \<Rightarrow> k \<noteq> 0 \<and> core_inv (R @ [x]) W s' \<and> acc_inv (D @ [x]) s' acc')"
proof -
  from w obtain bs r adm s1 where g: "get_computed_blocks hsh (heap s x) (kvm s) = Inr (bs, r)"
    and ad: "admit_request hsh x bs (s\<lparr>heap := (heap s)(x := r)\<rparr>) acc = Inr (adm, s1)"
    and fin: "(case adm of None \<Rightarrow> Inr (None, s1, acc) | Some a \<Rightarrow> record_admission x a s1 acc) = Inr (n, s', acc')"
    by (auto simp: schedule_single_waiting_request_def)
  let ?s = "s\<lparr>heap := (heap s)(x := r)\<rparr>"
  have ok: "kv_ok (kvm s)" using c by (simp add: core_inv_def)
  note g1 = kv.computed_law [OF ok g]
  have cf: "cache_fields_only (heap s x) r" using g1 hashes_only_cache_fields by blast
  have e: "request_id (heap ?s y) = request_id (heap s y)" "req_status (heap ?s y) = req_status (heap s y)"
    "lookahead (heap ?s y) = lookahead (heap s y)" for y
    using cache_fields_only_frame(1) [OF cf] cache_fields_only_frame [OF cf] by simp_all
  have cs: "core_inv R (x # W) ?s" using c core_inv_cong [of ?s s] e by simp
  have ss: "same_sched s ?s" using e by (simp add: same_sched_def)
  have fresh: "request_id (heap ?s x) \<notin> dom (req_to_blocks (kvm ?s))"
    using cs by (auto simp: core_inv_def)
  have okk: "kv_ok (kvm ?s)" "usable_blocks (kvm ?s) bs" using ok g1 by simp_all
  note A = admit_request_inv [OF okk fresh budget ad]
  show ?thesis
  proof (cases adm)
    case None
    with fin have eq: "n = None" "s' = s1" "acc' = acc" by auto
    from A None have "admits x ?s s1 False" by simp
    from admits_fail [OF cs this] ss eq show ?thesis using same_sched_trans by auto
  next
    case (Some t)
    obtain nc k bl inputs b new where t: "t = (nc, k, bl, inputs, b, new)" by (cases t) auto
    from A Some t have ad1: "admits x ?s s1 True" and k: "k \<noteq> 0" "k \<le> token_budget acc" by auto
    from fin Some t have "record_admission x (nc, k, bl, inputs, b, new) s1 acc = Inr (n, s', acc')" by simp
    note rec = record_admission_steps [OF this]
    then obtain en where s': "s' = (upd_req x (\<lambda>r. r\<lparr>req_status := RUNNING, num_computed_tokens := nc\<rparr>) s1)\<lparr>enc_cache := en\<rparr>"
      by blast
    note B = admits_core_inv [OF cs ad1 refl, of nc]
    have s2: "same_sched s s'" using ss B(2) same_sched_trans same_sched_fields(3) unfolding s' by blast
    have id1: "request_id (heap s1 x) = request_id (heap s x)"
      using s2 by (auto simp: same_sched_def s' upd_req_def split: if_splits)
    have "request_id (heap s x) \<notin> set (ids s D)"
    proof
      assume "request_id (heap s x) \<in> set (ids s D)"
      then have "request_id (heap s x) \<in> set (ids s R)" using sub by auto
      with c show False by (auto simp: core_inv_def)
    qed
    then have "acc_inv (D @ [x]) s acc'"
      using rec unfolding id1 by (intro acc_inv_record [OF a _ k(2)]) auto
    then have "acc_inv (D @ [x]) s' acc'" unfolding acc_inv_same_sched [OF s2] .
    moreover have "core_inv (R @ [x]) W s'" using B(1) by (simp add: s')
    ultimately show ?thesis using rec k(1) s2 by simp
  qed
qed

section \<open>The waiting loop\<close>

lemma waiting_loop_cases:
  assumes "waiting_loop hsh clk u partial ex s acc = Inr (ex', s', acc')"
  obtains (halt) "ex' = ex" "s' = s" "acc' = acc"
  | (exclude) x ws where "waiting s = x # ws"
      "waiting_loop hsh clk u partial (ex @ [x]) (s\<lparr>waiting := ws\<rparr>) acc = Inr (ex', s', acc')"
  | (refuse) x ws n where "waiting s = x # ws" "int (length (running s)) \<noteq> max_num_running_reqs s"
      "token_budget acc \<noteq> 0"
      "schedule_single_waiting_request hsh x s acc = Inr (n, s', acc')" "n = None \<or> n = Some 0" "ex' = ex"
  | (admit) x ws n s1 acc1 p where "waiting s = x # ws" "int (length (running s)) \<noteq> max_num_running_reqs s"
      "token_budget acc \<noteq> 0"
      "schedule_single_waiting_request hsh x s acc = Inr (n, s1, acc1)" "n \<noteq> None" "n \<noteq> Some 0"
      "waiting_loop hsh clk u p ex (log_event clk ''RUNNING'' (request_id (heap s1 x))
                       (s1\<lparr>waiting := tl (waiting s1), running := running s1 @ [x]\<rparr>)) acc1
        = Inr (ex', s', acc')"
proof (cases "waiting s = [] \<or> partial \<or> int (length (running s)) = max_num_running_reqs s \<or> token_budget acc = 0")
  case True
  with assms have "ex' = ex" "s' = s" "acc' = acc" by (subst (asm) waiting_loop.simps, simp)+
  then show thesis by (rule halt)
next
  case False
  then obtain x ws where ws: "waiting s = x # ws" by (cases "waiting s") auto
  show thesis
  proof (cases "u > 9 / 10 \<and> req_status (heap s x) = WAITING")
    case True
    with False ws assms have "waiting_loop hsh clk u partial (ex @ [x]) (s\<lparr>waiting := ws\<rparr>) acc = Inr (ex', s', acc')"
      by (subst (asm) waiting_loop.simps) simp
    with ws show thesis by (rule exclude)
  next
    case no: False
    with False ws assms obtain n s1 acc1 where 1: "schedule_single_waiting_request hsh x s acc = Inr (n, s1, acc1)"
      and 2: "(if n = None \<or> n = Some 0 then Inr (ex, s1, acc1)
          else
            let s2 = log_event clk ''RUNNING'' (request_id (heap s1 x))
                       (s1\<lparr>waiting := tl (waiting s1), running := running s1 @ [x]\<rparr>);
                r = heap s2 x
            in waiting_loop hsh clk u (num_computed_tokens r + the n < num_tokens r)
                 ex s2 acc1) = Inr (ex', s', acc')"
      by (subst (asm) waiting_loop.simps) auto
    show thesis
    proof (cases "n = None \<or> n = Some 0")
      case True
      with 2 have "ex' = ex" "s1 = s'" "acc1 = acc'" by auto
      with ws False 1 True show thesis by (intro refuse) auto
    next
      case n: False
      with 2 have "\<exists>p. waiting_loop hsh clk u p ex (log_event clk ''RUNNING'' (request_id (heap s1 x))
                       (s1\<lparr>waiting := tl (waiting s1), running := running s1 @ [x]\<rparr>)) acc1 = Inr (ex', s', acc')"
        unfolding Let_def by (simp only: if_False) blast
      with ws False 1 n show thesis using admit by blast
    qed
  qed
qed

lemma waiting_loop_inv:
  assumes "waiting_loop hsh clk u partial ex s acc = Inr (ex', s', acc')"
    and "core_inv (running s) (waiting s @ ex) s" "acc_inv (running s) s acc"
    and "int (length (running s)) \<le> max_num_running_reqs s"
  shows "core_inv (running s') (waiting s' @ ex') s' \<and> same_sched s s' \<and> acc_inv (running s') s' acc'
    \<and> int (length (running s')) \<le> max_num_running_reqs s' \<and> acc_preempted acc' = acc_preempted acc
    \<and> acc_running acc' = acc_running acc
    \<and> mset (running s' @ waiting s' @ ex') = mset (running s @ waiting s @ ex)"
  using assms
proof (induction "length (waiting s)" arbitrary: s acc ex partial rule: less_induct)
  case less
  note c = less.prems(2) and a = less.prems(3)
  have nonneg: "0 \<le> token_budget acc" using a by (simp add: acc_inv_def)
  from less.prems(1) show ?case
  proof (cases rule: waiting_loop_cases)
    case halt
    with less.prems show ?thesis by simp
  next
    case (exclude x ws)
    have "core_inv (running s) (ws @ ex @ [x]) s"
      using c exclude(1) unfolding core_inv_def by auto
    moreover have "acc_inv (running s) (s\<lparr>waiting := ws\<rparr>) acc"
      using a by (simp add: acc_inv_def)
    moreover have "same_sched s (s\<lparr>waiting := ws\<rparr>)" by simp
    ultimately show ?thesis
      using less.hyps [OF _ exclude(2)] less.prems(4) exclude(1) same_sched_trans by fastforce
  next
    case (refuse x ws n)
    have "core_inv (running s) (x # ws @ ex) s" using c refuse(1) by simp
    from single_waiting_inv [OF this a _ _ refuse(4)] nonneg refuse(3,5)
    have "same_sched s s'" "core_inv (running s) (waiting s @ ex) s'" "acc' = acc"
      by (auto simp: refuse(1) split: option.splits)
    with a less.prems(4) refuse(6) single_waiting_frame [OF refuse(4)] show ?thesis
      by (simp add: acc_inv_same_sched) (simp add: same_sched_def)
  next
    case (admit x ws n s1 acc1 p)
    let ?s2 = "log_event clk ''RUNNING'' (request_id (heap s1 x))
                       (s1\<lparr>waiting := tl (waiting s1), running := running s1 @ [x]\<rparr>)"
    have "core_inv (running s) (x # ws @ ex) s" using c admit(1) by simp
    from single_waiting_inv [OF this a _ _ admit(4)] nonneg admit(3,5,6)
    have w: "same_sched s s1" "core_inv (running s @ [x]) (ws @ ex) s1" "acc_inv (running s @ [x]) s1 acc1"
      "acc_preempted acc1 = acc_preempted acc" "acc_running acc1 = acc_running acc"
      by (auto split: option.splits)
    have q: "running ?s2 = running s @ [x]" "waiting ?s2 = ws"
      using single_waiting_frame [OF admit(4)] admit(1) by (simp_all add: log_event_def)
    have s2: "same_sched s1 ?s2" by (simp add: same_sched_def log_event_def)
    have c2: "core_inv (running ?s2) (waiting ?s2 @ ex) ?s2" using w(2) unfolding q by simp
    have a2: "acc_inv (running ?s2) ?s2 acc1" using w(3) unfolding q acc_inv_same_sched [OF s2] .
    have m2: "int (length (running ?s2)) \<le> max_num_running_reqs ?s2"
      using less.prems(4) admit(2) w(1) s2 unfolding q by (simp add: same_sched_def)
    have "length (waiting ?s2) < length (waiting s)" using q admit(1) by simp
    from less.hyps [OF this admit(7) c2 a2 m2] w(1,4,5) s2 show ?thesis
      unfolding q admit(1) using same_sched_trans by (auto simp: ac_simps)
  qed
qed

lemma waiting_phase_cases:
  assumes "waiting_phase hsh clk pe partial s acc = Inr (s', acc')"
  obtains "s' = s" "acc' = acc"
  | u ex s1 where "waiting_loop hsh clk u partial [] s acc = Inr (ex, s1, acc')"
      "s' = log_events clk ''WAITING'' (ids s1 ex) (s1\<lparr>waiting := waiting s1 @ ex\<rparr>)"
  using assms by (auto simp: waiting_phase_def split: if_splits)

lemma waiting_phase_inv:
  assumes w: "waiting_phase hsh clk pe partial s acc = Inr (s', acc')"
    and c: "core_inv (running s) (waiting s) s" and a: "acc_inv (running s) s acc"
    and m: "int (length (running s)) \<le> max_num_running_reqs s"
  shows "core_inv (running s') (waiting s') s' \<and> same_sched s s' \<and> acc_inv (running s') s' acc'
    \<and> int (length (running s')) \<le> max_num_running_reqs s' \<and> acc_preempted acc' = acc_preempted acc
    \<and> acc_running acc' = acc_running acc
    \<and> mset (running s' @ waiting s') = mset (running s @ waiting s)"
proof (cases rule: waiting_phase_cases [OF w])
  case 1
  with c a m show ?thesis by simp
next
  case (2 u ex s1)
  note l = 2(1) and s' = 2(2)
  have q: "running s' = running s1" "waiting s' = waiting s1 @ ex" by (simp_all add: s' log_events_def)
  have s2: "same_sched s1 s'" by (simp add: s' same_sched_def log_events_def)
  from waiting_loop_inv [OF l _ a m] c
  have L: "core_inv (running s1) (waiting s1 @ ex) s1" "same_sched s s1" "acc_inv (running s1) s1 acc'"
    "int (length (running s1)) \<le> max_num_running_reqs s1" "acc_preempted acc' = acc_preempted acc"
    "acc_running acc' = acc_running acc" "mset (running s1 @ waiting s1 @ ex) = mset (running s @ waiting s)"
    by simp_all
  have "core_inv (running s') (waiting s') s'" using L(1) unfolding q by (simp add: s')
  moreover have "acc_inv (running s') s' acc'" using L(3) unfolding q acc_inv_same_sched [OF s2] .
  moreover have "int (length (running s')) \<le> max_num_running_reqs s'"
    using L(4) s2 unfolding q by (simp add: same_sched_def)
  ultimately show ?thesis using L s2 same_sched_trans unfolding q by auto
qed

section \<open>The proactive phase\<close>

lemma get_computed_blocks_hashes:
  "get_computed_blocks hsh r m = Inr (bs, r') \<Longrightarrow> hashes_only r r'"
  by (auto simp: get_computed_blocks_def hashes_only_def set_kv_block_hashes_def split: if_splits)

lemma hold_waiting_heap:
  "hold_waiting hsh m xs free rs = Inr (b, rs') \<Longrightarrow> hashes_only (rs y) (rs' y)"
proof (induction xs arbitrary: free rs)
  case (Cons x xs)
  then obtain bs r where g: "get_computed_blocks hsh (rs x) m = Inr (bs, r)" by auto
  have h: "hashes_only (rs y) ((rs(x := r)) y)" using get_computed_blocks_hashes [OF g] by simp
  let ?n = "get_allocated_slots_num_new_blocks (num_tokens r - int (length bs) * block_size m) bs m"
  show ?case
  proof (cases "free - ?n < 0")
    case True
    with Cons.prems g h show ?thesis by (auto simp: Let_def)
  next
    case False
    with Cons.prems g have "hold_waiting hsh m xs (free - ?n) (rs(x := r)) = Inr (b, rs')"
      by (simp add: Let_def)
    from Cons.IH [OF this] h show ?thesis by (rule hashes_only_trans [rotated])
  qed
qed simp

lemma can_hold_heap:
  "can_hold_all_requests hsh rn wt rs m = Inr (b, rs') \<Longrightarrow> hashes_only (rs y) (rs' y)"
  by (auto simp: can_hold_all_requests_def dest: hold_waiting_heap split: option.splits)

lemma core_inv_heap:
  assumes "\<And>y. hashes_only (heap s y) (hp y)"
  shows "core_inv R W (s\<lparr>heap := hp\<rparr>) = core_inv R W s" "same_sched s (s\<lparr>heap := hp\<rparr>)"
proof -
  have e: "request_id (hp y) = request_id (heap s y) \<and> req_status (hp y) = req_status (heap s y)
      \<and> lookahead (hp y) = lookahead (heap s y)" for y
    using hashes_only_cache_fields [OF assms [of y]] cache_fields_only_frame by blast
  then show "core_inv R W (s\<lparr>heap := hp\<rparr>) = core_inv R W s" by (intro core_inv_cong) simp_all
  show "same_sched s (s\<lparr>heap := hp\<rparr>)" using e by (simp add: same_sched_def)
qed

lemma core_inv_perm:
  assumes "core_inv R W s" "mset W' = mset W"
  shows "core_inv R W' s"
proof -
  have "mset (ids s (R @ W')) = mset (ids s (R @ W))" using assms(2) by simp
  then have "distinct (ids s (R @ W')) = distinct (ids s (R @ W))" by (rule mset_eq_imp_distinct_iff)
  moreover have "set W' = set W" using assms(2) by (rule mset_eq_setD)
  ultimately show ?thesis using assms(1) by (simp add: core_inv_def)
qed

lemma swap_victims_inv:
  assumes "fold_result (swap_victim clk) xs (s, acc) = Inr (s', acc')"
    and "core_inv (running s) (waiting s) s"
  shows "core_inv (running s') (waiting s') s' \<and> same_sched s s'
    \<and> acc' = acc\<lparr>acc_preempted := acc_preempted acc @ xs\<rparr>
    \<and> mset (running s' @ waiting s') = mset (running s @ waiting s)
    \<and> length (running s') \<le> length (running s)"
  using assms
proof (induction xs arbitrary: s acc)
  case (Cons x xs)
  then obtain s1 acc1 where v: "swap_victim clk x (s, acc) = Inr (s1, acc1)"
    and rest: "fold_result (swap_victim clk) xs (s1, acc1) = Inr (s', acc')" by auto
  note V = swap_victim_inv [OF Cons.prems(2) v]
  have "mset (running s1 @ waiting s1) = mset (running s @ waiting s)" using V(3-5) by simp
  moreover have "length (running s1) \<le> length (running s)" using V(3,4) by (simp add: length_remove1)
  ultimately show ?case using Cons.IH [OF rest V(1)] V(2,6) same_sched_trans by fastforce
qed simp

lemma schedule_early_inv:
  assumes e: "schedule_early hsh clk s acc = Inr (s', acc')" and c: "core_inv (running s) (waiting s) s"
  shows "core_inv (running s') (waiting s') s' \<and> same_sched s s'
    \<and> (\<exists>p. acc' = acc\<lparr>acc_preempted := acc_preempted acc @ p\<rparr>)
    \<and> mset (running s' @ waiting s') = mset (running s @ waiting s)
    \<and> length (running s') \<le> length (running s)"
proof -
  have self: "\<exists>p. acc = acc\<lparr>acc_preempted := acc_preempted acc @ p\<rparr>" by (intro exI [of _ "[]"]) simp
  from e obtain hold hp where h: "can_hold_all_requests hsh (running s) (waiting s) (heap s) (kvm s) = Inr (hold, hp)"
    by (auto simp: schedule_early_def)
  let ?s = "s\<lparr>heap := hp\<rparr>"
  note H = core_inv_heap [of s hp, OF can_hold_heap [OF h]]
  show ?thesis
  proof (cases hold)
    case True
    with e h have "s' = ?s" "acc' = acc" by (auto simp: schedule_early_def)
    with c H self show ?thesis by auto
  next
    case False
    with e h obtain ws where ws: "py_sorted_by (\<lambda>x. in_waiting_since (hp x)) (waiting s) = Inr ws"
      and rest: "andthen (choose_victims (?s\<lparr>waiting := ws\<rparr>)) (\<lambda>idxs.
         case idxs of None \<Rightarrow> Inr (?s\<lparr>waiting := ws\<rparr>, acc)
         | Some victims \<Rightarrow> fold_result (swap_victim clk) (map (\<lambda>i. running (?s\<lparr>waiting := ws\<rparr>) ! i) victims)
             (?s\<lparr>waiting := ws\<rparr>, acc)) = Inr (s', acc')"
      by (auto simp: schedule_early_def Let_def)
    let ?t = "?s\<lparr>waiting := ws\<rparr>"
    have m: "mset ws = mset (waiting s)" using ws by (auto simp: py_sorted_by_def split: if_splits)
    have ct: "core_inv (running ?t) (waiting ?t) ?t"
      using core_inv_perm [OF c m] H(1) by simp
    have st: "same_sched s ?t" using H(2) by (simp add: same_sched_def)
    from rest obtain idxs where r: "(case idxs of None \<Rightarrow> Inr (?t, acc)
         | Some victims \<Rightarrow> fold_result (swap_victim clk) (map (\<lambda>i. running ?t ! i) victims) (?t, acc)) = Inr (s', acc')"
      by blast
    show ?thesis
    proof (cases idxs)
      case None
      with r have "s' = ?t" "acc' = acc" by auto
      with ct st m self show ?thesis by auto
    next
      case (Some victims)
      with r have "fold_result (swap_victim clk) (map (\<lambda>i. running ?t ! i) victims) (?t, acc) = Inr (s', acc')" by simp
      from swap_victims_inv [OF this ct] st m show ?thesis by (auto intro: same_sched_trans)
    qed
  qed
qed

lemma early_phase_inv:
  assumes e: "early_phase hsh clk s acc = Inr (pe, se, s', acc')" and c: "core_inv (running s) (waiting s) s"
    and a: "acc_new acc = []" "acc_resumed acc = []"
  shows "core_inv (running s') (waiting s') s' \<and> same_sched s s' \<and> se = None
    \<and> (\<exists>p. acc' = acc\<lparr>acc_preempted := acc_preempted acc @ p\<rparr>)
    \<and> mset (running s' @ waiting s') = mset (running s @ waiting s)
    \<and> length (running s') \<le> length (running s)"
proof (cases "proactive_swapping s")
  case True
  with e have se: "schedule_early hsh clk s acc = Inr (s', acc')"
    and s: "se = (if length (ids s' (acc_new acc' @ acc_resumed acc')) = 0 then None
       else Some (ids s' (acc_new acc' @ acc_resumed acc')))"
    by (auto simp: early_phase_def Let_def)
  note S = schedule_early_inv [OF se c]
  then have "acc_new acc' = [] \<and> acc_resumed acc' = []" using a by auto
  with s have "se = None" by simp
  with S show ?thesis by blast
next
  case False
  have "\<exists>p. acc = acc\<lparr>acc_preempted := acc_preempted acc @ p\<rparr>" by (intro exI [of _ "[]"]) simp
  with False e c show ?thesis by (auto simp: early_phase_def)
qed

section \<open>A whole step\<close>

lemma dispatch_inv:
  assumes i: "sched_inv s" and budget: "0 \<le> max_num_scheduled_tokens s" and d: "dispatch hsh clk la s = Inr (s', acc)"
  shows "core_inv (running s') (waiting s') s' \<and> same_sched s s' \<and> acc_inv (running s') s' acc
    \<and> int (length (running s')) \<le> max_num_running_reqs s'
    \<and> mset (running s' @ waiting s') = mset (running s @ waiting s)"
proof -
  have c: "core_inv (running s) (waiting s) s" and m: "int (length (running s)) \<le> max_num_running_reqs s"
    and q: "\<forall>x \<in> set (running s @ waiting s). \<not> lookahead (heap s x)"
    using i by (auto simp: sched_inv_def)
  let ?a = "sched_acc_init s"
  from d obtain pe se s1 a1 p s2 a2 where 1: "early_phase hsh clk s ?a = Inr (pe, se, s1, a1)"
    and 2: "running_loop hsh clk la se 0 False s1 a1 = Inr (p, s2, a2)"
    and 3: "waiting_phase hsh clk pe p s2 a2 = Inr (s', acc)"
    by (auto simp: dispatch_def)
  from early_phase_inv [OF 1 c] obtain ps where E: "core_inv (running s1) (waiting s1) s1" "same_sched s s1" "se = None"
    "a1 = ?a\<lparr>acc_preempted := ps\<rparr>" "mset (running s1 @ waiting s1) = mset (running s @ waiting s)"
    "length (running s1) \<le> length (running s)" by (auto simp: sched_acc_init_def)
  have a0: "acc_inv (take 0 (running s1)) s1 a1"
    unfolding acc_inv_same_sched [OF E(2)] E(4) using budget
    by (simp add: acc_inv_def sched_acc_init_def total_tokens_def)
  have "set (running s1) \<subseteq> set (running s @ waiting s)"
    using mset_eq_setD [OF E(5)] by auto
  then have q1: "\<forall>x \<in> set (running s1). \<not> lookahead (heap s1 x)"
    using q E(2) by (auto simp: same_sched_def)
  have rl: "running_loop hsh clk la None 0 False s1 a1 = Inr (p, s2, a2)" using 2 E(3) by simp
  from running_loop_inv [OF rl E(1) a0 _ _ q1] obtain vs where
    R: "core_inv (running s2) (waiting s2) s2" "same_sched s1 s2" "acc_inv (running s2) s2 a2"
    and vs: "running s1 = running s2 @ rev vs" "waiting s2 = waiting s1 @ vs"
    by (auto simp: E(4) sched_acc_init_def)
  have m2: "int (length (running s2)) \<le> max_num_running_reqs s2"
    using m E(2,6) R(2) vs(1) by (simp add: same_sched_def)
  from waiting_phase_inv [OF 3 R(1,3) m2] have
    W: "core_inv (running s') (waiting s') s'" "same_sched s2 s'" "acc_inv (running s') s' acc"
    "int (length (running s')) \<le> max_num_running_reqs s'"
    "mset (running s' @ waiting s') = mset (running s2 @ waiting s2)" by simp_all
  have "mset (running s2 @ waiting s2) = mset (running s1 @ waiting s1)" using vs by simp
  with W E(5) show ?thesis using E(2) R(2) same_sched_trans by metis
qed

text \<open>The assertions at the end of \<open>schedule\<close> cannot fail.\<close>

lemma check_constraints_ok:
  assumes "acc_inv (running s) s acc" "int (length (running s)) \<le> max_num_running_reqs s"
  shows "check_constraints s acc = Inr ()"
proof -
  have "length (running s) = length (acc_new acc @ acc_resumed acc @ acc_running acc)"
    using assms(1) unfolding acc_inv_def by (metis size_mset)
  then show ?thesis using assms by (simp add: check_constraints_def acc_inv_def)
qed

end
