(* ===== verification/SchedulerOps.thy ===== *)
theory SchedulerOps
  imports SchedulerInv
begin

text \<open>
  Every public operation of the scheduler keeps \<open>sched_inv\<close>: a whole \<open>schedule\<close> step,
  \<open>update_from_output\<close>, \<open>add_request\<close> and \<open>finish_requests\<close>; and what each of
  them does to the queues, the request index and the block tables.
\<close>

section \<open>Steps that leave the queues alone\<close>

definition same_core :: "scheduler \<Rightarrow> scheduler \<Rightarrow> bool" where
  "same_core s s' \<longleftrightarrow>
     kvm s' = kvm s \<and> requests s' = requests s \<and> running s' = running s \<and> waiting s' = waiting s
     \<and> max_num_running_reqs s' = max_num_running_reqs s
     \<and> max_num_scheduled_tokens s' = max_num_scheduled_tokens s
     \<and> (\<forall>x. request_id (heap s' x) = request_id (heap s x) \<and> req_status (heap s' x) = req_status (heap s x)
          \<and> lookahead (heap s' x) = lookahead (heap s x))"

lemma same_core_refl [simp]: "same_core s s"
  by (simp add: same_core_def)

lemma same_core_trans: "same_core a b \<Longrightarrow> same_core b c \<Longrightarrow> same_core a c"
  by (simp add: same_core_def)

lemma sched_inv_same_core:
  assumes "same_core s s'"
  shows "sched_inv s' = sched_inv s"
proof -
  have "core_inv R W s' = core_inv R W s" for R W
    using assms by (intro core_inv_cong) (simp_all add: same_core_def)
  then show ?thesis using assms by (simp add: sched_inv_def same_core_def)
qed

lemma same_core_upd_req:
  "request_id (f (heap s x)) = request_id (heap s x) \<Longrightarrow> req_status (f (heap s x)) = req_status (heap s x) \<Longrightarrow>
   lookahead (f (heap s x)) = lookahead (heap s x) \<Longrightarrow> same_core s (upd_req x f s)"
  by (simp add: same_core_def upd_req_def)

lemma fold_same_core:
  assumes "\<And>x s. same_core s (f x s)"
  shows "same_core s (fold f xs s)"
  by (induction xs arbitrary: s) (auto intro: same_core_trans assms)

lemma fold_result_same_core:
  assumes "fold_result f xs s = Inr s'" "\<And>x s s'. f x s = Inr s' \<Longrightarrow> same_core s s'"
  shows "same_core s s'"
  using assms(1)
  by (rule fold_result_invariant [where P = "same_core s"]) (auto intro: same_core_trans assms(2))

lemma stamp_times_same_core: "same_core s (stamp_times clk s)"
proof -
  have r: "same_core s (upd_req x (stamp_running t) s)" and w: "same_core s (upd_req x (stamp_waiting t) s)" for x t s
    by (simp_all add: same_core_def upd_req_def stamp_running_def stamp_waiting_def)
  have t: "same_core s (s\<lparr>ticks := ticks s + 1\<rparr>)" by (simp add: same_core_def)
  show ?thesis unfolding stamp_times_def Let_def
    by (rule same_core_trans [OF same_core_trans [OF t]]) (rule fold_same_core, rule r w)+
qed

lemma running_reqs_data_loop_frame:
  "running_reqs_data_loop la bl xs s = Inr (ds, s') \<Longrightarrow>
   same_core s s' \<and> heap s' = heap s
   \<and> finished_req_ids s' = finished_req_ids s \<and> enc_cache s' = enc_cache s
   \<and> schedule_counter s' = schedule_counter s \<and> max_model_len s' = max_model_len s"
proof (induction xs arbitrary: s ds)
  case (Cons x xs)
  then obtain ids where l: "lookup_key bl (request_id (heap s x)) = Inr ids" by (auto simp: Let_def)
  let ?m = "make_running_request_data (heap s x) ids
             (if la then num_computed_tokens_next (heap s x) else num_computed_tokens (heap s x))
             (if la then num_tokens_next (heap s x) else num_tokens (heap s x)) s"
  obtain ds' where "running_reqs_data_loop la bl xs (snd ?m) = Inr (ds', s')"
    using Cons.prems l by (auto simp: Let_def split: prod.splits)
  from Cons.IH [OF this] show ?case
    by (auto simp: make_running_request_data_def same_core_def Let_def split: option.splits)
qed simp

lemma advance_same_core:
  "advance_running la toks x s = Inr s' \<Longrightarrow> same_core s s'"
  "advance_admitted toks x s = Inr s' \<Longrightarrow> same_core s s'"
  by (auto simp: advance_running_def advance_admitted_def advance_predicted_def advance_current_def
      Let_def same_core_def upd_req_def split: if_splits)

lemma emit_output_cases:
  assumes "emit_output la si so s acc = Inr (out, s')"
  obtains ds s1 s2 s3 where "running_reqs_data_loop la (acc_block_ids acc) (acc_running acc) s = Inr (ds, s1)"
    "fold_result (advance_running la (acc_tokens acc)) (acc_running acc) s1 = Inr s2"
    "fold_result (advance_admitted (acc_tokens acc)) (acc_new acc @ acc_resumed acc) s2 = Inr s3"
    "s' = s3\<lparr>enc_cache := snd (get_freed_ids (enc_cache s3)),
              schedule_counter := schedule_counter s3 + 1, finished_req_ids := {}\<rparr>"
    "num_scheduled_tokens out = acc_tokens acc" "total_num_scheduled_tokens out = total_tokens (acc_tokens acc)"
    "preempted_req_ids out = set (ids s1 (acc_preempted acc))"
    "out_finished_req_ids out = finished_req_ids s3" "counter out = schedule_counter s3"
    "blocks_to_swap_in out = si" "blocks_to_swap_out out = so"
  using assms by (auto simp: emit_output_def Let_def)

lemma emit_output_same_core:
  assumes "emit_output la si so s acc = Inr (out, s')"
  shows "same_core s s'"
  using assms
proof (rule emit_output_cases)
  fix ds s1 s2 s3
  assume "running_reqs_data_loop la (acc_block_ids acc) (acc_running acc) s = Inr (ds, s1)"
    and "fold_result (advance_running la (acc_tokens acc)) (acc_running acc) s1 = Inr s2"
    and "fold_result (advance_admitted (acc_tokens acc)) (acc_new acc @ acc_resumed acc) s2 = Inr s3"
    and s': "s' = s3\<lparr>enc_cache := snd (get_freed_ids (enc_cache s3)),
              schedule_counter := schedule_counter s3 + 1, finished_req_ids := {}\<rparr>"
  then have "same_core s s1" "same_core s1 s2" "same_core s2 s3"
    using running_reqs_data_loop_frame fold_result_same_core advance_same_core by metis+
  then show "same_core s s'" unfolding s' by (simp add: same_core_def)
qed

lemma kv_ok_pending [simp]:
  "kv_ok (m\<lparr>pending_swap_in := p\<rparr>) = kv_ok m" "kv_ok (m\<lparr>pending_swap_out := q\<rparr>) = kv_ok m"
  by (simp_all add: kv_ok_def tables_fit_def)

lemma take_pending_inv:
  assumes "take_pending s = (si, so, s')" "core_inv R W s"
  shows "core_inv R W s' \<and> running s' = running s \<and> waiting s' = waiting s
    \<and> max_num_running_reqs s' = max_num_running_reqs s
    \<and> max_num_scheduled_tokens s' = max_num_scheduled_tokens s \<and> heap s' = heap s \<and> requests s' = requests s
    \<and> req_to_blocks (kvm s') = req_to_blocks (kvm s)
    \<and> si = pending_swap_in (kvm s) \<and> so = pending_swap_out (kvm s)
    \<and> pending_swap_in (kvm s') = [] \<and> pending_swap_out (kvm s') = []"
proof -
  have s': "si = pending_swap_in (kvm s)" "so = pending_swap_out (kvm s)"
    "s' = s\<lparr>kvm := (kvm s)\<lparr>pending_swap_in := [], pending_swap_out := []\<rparr>\<rparr>"
    using assms(1) by (auto simp: take_pending_def get_and_reset_pending_blocks_to_swap_in_def
        get_and_reset_pending_blocks_to_swap_out_def)
  have "core_inv R W s' = core_inv R W s" by (simp add: s'(3) core_inv_def waiting_ok_def)
  with assms(2) show ?thesis by (simp add: s')
qed

lemma schedule_cases:
  assumes "schedule hsh clk la s = Inr (out, s')"
  obtains s1 acc si so s2 where "dispatch hsh clk la s = Inr (s1, acc)" "check_constraints s1 acc = Inr ()"
    "take_pending s1 = (si, so, s2)" "emit_output la si so (stamp_times clk s2) acc = Inr (out, s')"
  using assms by (auto simp: schedule_def split: prod.splits)

lemma schedule_inv:
  assumes i: "sched_inv s" and budget: "0 \<le> max_num_scheduled_tokens s"
    and r: "schedule hsh clk la s = Inr (out, s')"
  shows "sched_inv s'" "mset (running s' @ waiting s') = mset (running s @ waiting s)"
    "map fst (num_scheduled_tokens out) = ids s' (running s')"
    "total_num_scheduled_tokens out \<le> max_num_scheduled_tokens s"
    "requests s' = requests s" "max_num_scheduled_tokens s' = max_num_scheduled_tokens s"
proof -
  from r obtain s1 acc si so s2 where d: "dispatch hsh clk la s = Inr (s1, acc)"
    and t: "take_pending s1 = (si, so, s2)" and e: "emit_output la si so (stamp_times clk s2) acc = Inr (out, s')"
    by (rule schedule_cases)
  from dispatch_inv [OF i budget d] have D: "core_inv (running s1) (waiting s1) s1" "same_sched s s1"
    "acc_inv (running s1) s1 acc" "int (length (running s1)) \<le> max_num_running_reqs s1"
    "mset (running s1 @ waiting s1) = mset (running s @ waiting s)" by auto
  from take_pending_inv [OF t D(1)] have T: "core_inv (running s2) (waiting s2) s2" "running s2 = running s1"
    "waiting s2 = waiting s1" "max_num_running_reqs s2 = max_num_running_reqs s1" "heap s2 = heap s1"
    "requests s2 = requests s1" "max_num_scheduled_tokens s2 = max_num_scheduled_tokens s1" by auto
  have sc: "same_core s2 s'"
    using stamp_times_same_core emit_output_same_core [OF e] by (rule same_core_trans)
  have "set (running s1 @ waiting s1) = set (running s @ waiting s)" using D(5) by (rule mset_eq_setD)
  then have "\<forall>x \<in> set (running s1 @ waiting s1). \<not> lookahead (heap s1 x)"
    using i D(2) unfolding sched_inv_def same_sched_def by auto
  then have "sched_inv s2" using T D(4) by (simp add: sched_inv_def)
  then show "sched_inv s'" using sched_inv_same_core [OF sc] by simp
  have q: "running s' = running s1" "waiting s' = waiting s1" "ids s' xs = ids s1 xs" for xs
    using sc T by (simp_all add: same_core_def)
  show "mset (running s' @ waiting s') = mset (running s @ waiting s)" using D(5) by (simp add: q)
  have o: "num_scheduled_tokens out = acc_tokens acc \<and> total_num_scheduled_tokens out = total_tokens (acc_tokens acc)"
    using e by (rule emit_output_cases) auto
  then show "map fst (num_scheduled_tokens out) = ids s' (running s')"
    using D(3) unfolding q by (simp add: acc_inv_def)
  show "total_num_scheduled_tokens out \<le> max_num_scheduled_tokens s"
    using D(2,3) o by (auto simp: acc_inv_def same_sched_def)
  show "requests s' = requests s" "max_num_scheduled_tokens s' = max_num_scheduled_tokens s"
    using sc T(6,7) D(2) by (simp_all add: same_core_def same_sched_def)
qed

section \<open>Requests leave\<close>

lemma core_inv_drop:
  assumes c: "core_inv R W s" and x: "x \<in> set (R @ W)" and ok: "kv_ok m"
    and t: "dom (req_to_blocks m) = dom (req_to_blocks (kvm s)) - {request_id (heap s x)}"
    and cpu: "dom (req_to_blocks_cpu m) = dom (req_to_blocks_cpu (kvm s))"
    and s': "kvm s' = m" "requests s' = (requests s)(request_id (heap s x) := None)"
    and h: "\<And>y. request_id (heap s' y) = request_id (heap s y)"
      "\<And>y. y \<noteq> x \<Longrightarrow> req_status (heap s' y) = req_status (heap s y)"
  shows "core_inv (filter (\<lambda>y. y \<noteq> x) R) (filter (\<lambda>y. y \<noteq> x) W) s'"
proof -
  have d: "distinct (ids s (R @ W))" using c by (simp add: core_inv_def)
  then have inj: "y = x" if "y \<in> set (R @ W)" "request_id (heap s y) = request_id (heap s x)" for y
    using that x unfolding distinct_map inj_on_def by blast
  have "distinct (ids s (filter (\<lambda>y. y \<noteq> x) (R @ W)))" using d by (rule distinct_map_filter)
  moreover have "set (ids s R) - {request_id (heap s x)} = set (ids s (filter (\<lambda>y. y \<noteq> x) R))"
    using inj by auto
  moreover have "waiting_ok s' y" if "y \<in> set W" "y \<noteq> x" for y
    using c that h(2) [OF that(2)] unfolding core_inv_def waiting_ok_def s'(1) h(1) cpu by auto
  moreover have "(requests s' rid = Some y) = (y \<in> set (filter (\<lambda>y. y \<noteq> x) R @ filter (\<lambda>y. y \<noteq> x) W)
      \<and> request_id (heap s y) = rid)" for rid y
    using c inj unfolding core_inv_def s'(2) by (auto split: if_splits)
  ultimately show ?thesis
    using c ok t h(2) unfolding core_inv_def s'(1) h(1) by auto
qed

text \<open>\<open>_free_request\<close> on a request of the queues succeeds and removes it from every index.\<close>

lemma free_request_inv:
  assumes c: "core_inv R W s" and x: "x \<in> set (R @ W)"
    and f: "request_id (f (heap s x)) = request_id (heap s x)" "status_is_finished (req_status (f (heap s x)))"
  shows "\<exists>s'. free_request x (upd_req x f s) = Inr s'
    \<and> core_inv (filter (\<lambda>y. y \<noteq> x) R) (filter (\<lambda>y. y \<noteq> x) W) s'
    \<and> heap s' = (heap s)(x := f (heap s x)) \<and> running s' = running s \<and> waiting s' = waiting s
    \<and> max_num_running_reqs s' = max_num_running_reqs s
    \<and> max_num_scheduled_tokens s' = max_num_scheduled_tokens s
    \<and> requests s' = (requests s)(request_id (heap s x) := None)
    \<and> finished_req_ids s' = insert (request_id (heap s x)) (finished_req_ids s)"
proof -
  let ?rid = "request_id (heap s x)"
  have ok: "kv_ok (kvm s)" using c by (simp add: core_inv_def)
  from kv.free_law [OF ok, of ?rid] obtain m where m: "kv_free ?rid False False (kvm s) = Inr m" "kv_ok m"
    "dom (req_to_blocks m) = dom (req_to_blocks (kvm s)) - {?rid}"
    "dom (req_to_blocks_cpu m) = dom (req_to_blocks_cpu (kvm s))" by blast
  have r: "requests s ?rid = Some x" using c x by (simp add: core_inv_def)
  let ?s' = "(upd_req x f s)\<lparr>kvm := m, running_reqs_data := (running_reqs_data s)(?rid := None),
                  requests := (requests s)(?rid := None),
                  finished_req_ids := insert ?rid (finished_req_ids s)\<rparr>"
  have "free_request x (upd_req x f s) = Inr ?s'"
    using m(1) r f by (simp add: free_request_def upd_req_def is_finished_def Let_def)
  moreover have "core_inv (filter (\<lambda>y. y \<noteq> x) R) (filter (\<lambda>y. y \<noteq> x) W) ?s'"
    by (rule core_inv_drop [OF c x m(2-4)]) (simp_all add: upd_req_def f)
  ultimately show ?thesis by (simp add: upd_req_def)
qed

lemma check_stop_cases:
  assumes "check_stop x s = Inr (b, s')"
  obtains "\<not> b" "s' = s"
  | f where "b" "free_request x (upd_req x f s) = Inr s'"
      "request_id (f (heap s x)) = request_id (heap s x)" "status_is_finished (req_status (f (heap s x)))"
      "lookahead (f (heap s x)) = lookahead (heap s x)"
proof (cases b)
  case False
  with assms have "s' = s" by (auto simp: check_stop_def Let_def split: if_splits)
  with False that show thesis by blast
next
  case True
  with assms have "\<exists>f. free_request x (upd_req x f s) = Inr s'
      \<and> request_id (f (heap s x)) = request_id (heap s x) \<and> status_is_finished (req_status (f (heap s x)))
      \<and> lookahead (f (heap s x)) = lookahead (heap s x)"
    by (auto simp: check_stop_def Let_def status_is_finished_def split: if_splits intro!: exI)
  with True that show thesis by blast
qed

section \<open>Updating from the model output\<close>

text \<open>
  The state in the middle of \<open>update_from_output\<close>: the invariant holds for the queues
  without the requests stopped so far, which the method filters out at its end.
\<close>

definition upd_inv :: "scheduler \<Rightarrow> scheduler \<Rightarrow> req_id list \<Rightarrow> bool" where
  "upd_inv s0 s stopped \<longleftrightarrow>
     running s = running s0 \<and> waiting s = waiting s0
     \<and> max_num_running_reqs s = max_num_running_reqs s0
     \<and> max_num_scheduled_tokens s = max_num_scheduled_tokens s0
     \<and> (\<forall>x. request_id (heap s x) = request_id (heap s0 x) \<and> lookahead (heap s x) = lookahead (heap s0 x))
     \<and> distinct stopped
     \<and> set stopped \<subseteq> finished_req_ids s
     \<and> set stopped \<inter> dom (requests s) = {}
     \<and> core_inv (filter (\<lambda>x. request_id (heap s0 x) \<notin> set stopped) (running s0))
         (filter (\<lambda>x. request_id (heap s0 x) \<notin> set stopped) (waiting s0)) s"

lemma upd_inv_upd_req:
  assumes "upd_inv s0 s stopped" "request_id (f (heap s x)) = request_id (heap s x)"
    "req_status (f (heap s x)) = req_status (heap s x)" "lookahead (f (heap s x)) = lookahead (heap s x)"
  shows "upd_inv s0 (upd_req x f s) stopped"
proof -
  note core_inv_upd_req [of f s x, OF assms(2,3)]
  moreover have "request_id (heap (upd_req x f s) y) = request_id (heap s y)"
    "lookahead (heap (upd_req x f s) y) = lookahead (heap s y)" for y
    using assms by (simp_all add: upd_req_def)
  ultimately show ?thesis using assms(1) by (simp add: upd_inv_def) (simp add: upd_req_def)
qed

lemma accept_token_inv:
  assumes i: "upd_inv s0 s stopped" and x: "requests s rid = Some x"
    and a: "accept_token rid x t (s, outs, stopped) = Inr (s', outs', stopped')"
  shows "upd_inv s0 s' stopped'"
proof -
  let ?s = "upd_req x (append_output_token_ids [t]) s"
  let ?k = "\<lambda>st xs. filter (\<lambda>y. request_id (heap s0 y) \<notin> set st) xs"
  have i1: "upd_inv s0 ?s stopped"
    by (rule upd_inv_upd_req [OF i]) (simp_all add: append_output_token_ids_def)
  have id: "request_id (heap ?s y) = request_id (heap s0 y)" for y using i1 by (simp add: upd_inv_def)
  have c: "core_inv (?k stopped (running s0)) (?k stopped (waiting s0)) ?s" using i1 by (simp add: upd_inv_def)
  have x1: "requests ?s rid = Some x" using x by (simp add: upd_req_def)
  then have mem: "x \<in> set (?k stopped (running s0) @ ?k stopped (waiting s0))" and rid: "request_id (heap s0 x) = rid"
    using c unfolding core_inv_def id by blast+
  from a obtain b where cs: "check_stop x ?s = Inr (b, s')" and st: "stopped' = (if b then dict_add rid stopped else stopped)"
    by (auto simp: accept_token_def)
  from cs show ?thesis
  proof (rule check_stop_cases)
    assume "\<not> b" "s' = ?s"
    with i1 st show ?thesis by simp
  next
    fix f assume b: "b" and fr: "free_request x (upd_req x f ?s) = Inr s'"
      and f: "request_id (f (heap ?s x)) = request_id (heap ?s x)" "status_is_finished (req_status (f (heap ?s x)))"
      "lookahead (f (heap ?s x)) = lookahead (heap ?s x)"
    from free_request_inv [of _ _ ?s x f, OF c mem f(1,2)] fr have F:
      "core_inv (filter (\<lambda>y. y \<noteq> x) (?k stopped (running s0))) (filter (\<lambda>y. y \<noteq> x) (?k stopped (waiting s0))) s'"
      "heap s' = (heap ?s)(x := f (heap ?s x))" "running s' = running ?s" "waiting s' = waiting ?s"
      "max_num_running_reqs s' = max_num_running_reqs ?s" "max_num_scheduled_tokens s' = max_num_scheduled_tokens ?s"
      "requests s' = (requests ?s)(request_id (heap ?s x) := None)"
      "finished_req_ids s' = insert (request_id (heap ?s x)) (finished_req_ids ?s)" by auto
    have dist: "distinct (ids s0 (?k stopped (running s0) @ ?k stopped (waiting s0)))"
      using c by (simp add: core_inv_def id)
    have inj: "y = x" if "y \<in> set (?k stopped (running s0) @ ?k stopped (waiting s0))" "request_id (heap s0 y) = rid" for y
      using dist that mem rid unfolding distinct_map inj_on_def by blast
    have eq: "filter (\<lambda>y. y \<noteq> x) (?k stopped xs) = ?k stopped' xs"
      if "set xs \<subseteq> set (running s0 @ waiting s0)" for xs
      unfolding filter_filter st using b inj rid that by (intro filter_cong) auto
    have "core_inv (?k stopped' (running s0)) (?k stopped' (waiting s0)) s'"
      using F(1) eq [of "running s0"] eq [of "waiting s0"] by simp
    moreover have "request_id (heap s' y) = request_id (heap s0 y)" "lookahead (heap s' y) = lookahead (heap s0 y)" for y
      using F(2) f i1 by (auto simp: upd_inv_def)
    ultimately show ?thesis
      using i1 F(3-8) st b rid id by (auto simp: upd_inv_def)
  qed
qed

lemma update_request_inv:
  assumes i: "upd_inv s0 s stopped"
    and u: "update_request mro (rid, n) (s, outs, stopped) = Inr (s', outs', stopped')"
  shows "upd_inv s0 s' stopped'"
proof -
  from u obtain x where x: "requests s rid = Some x"
    by (auto simp: update_request_def lookup_key_def split: option.splits)
  let ?s = "upd_req x (\<lambda>r. r\<lparr>num_computed_tokens := num_computed_tokens r + n\<rparr>) s"
  have i1: "upd_inv s0 ?s stopped" by (rule upd_inv_upd_req [OF i]) simp_all
  have x1: "requests ?s rid = Some x" using x by (simp add: upd_req_def)
  have "(s', stopped') = (?s, stopped) \<or> (\<exists>t outs1. accept_token rid x t (?s, outs, stopped) = Inr (s', outs1, stopped'))"
    using u x by (auto simp: update_request_def lookup_key_def Let_def split: option.splits if_splits)
  then show ?thesis using i1 accept_token_inv [OF i1 x1] by auto
qed

lemma update_loop_inv:
  assumes "fold_result (update_request mro) xs (s, outs, st) = Inr (s', outs', st')" "upd_inv s0 s st"
  shows "upd_inv s0 s' st'"
  using assms
proof (induction xs arbitrary: s outs st)
  case (Cons p xs)
  obtain rid n where p: "p = (rid, n)" by (cases p)
  from Cons.prems p obtain s1 outs1 st1 where "update_request mro (rid, n) (s, outs, st) = Inr (s1, outs1, st1)"
    "fold_result (update_request mro) xs (s1, outs1, st1) = Inr (s', outs', st')" by auto
  with Cons.IH update_request_inv [OF Cons.prems(2)] show ?case by blast
qed simp

lemma core_inv_dom: "core_inv R W s \<Longrightarrow> dom (requests s) = set (ids s (R @ W))"
  unfolding core_inv_def by (auto simp: dom_def)

lemma update_from_output_inv:
  assumes i: "sched_inv s" and u: "update_from_output it clk out mro s = Inr (outs, stopped, s')"
  shows "sched_inv s'"
    "running s' = filter (\<lambda>x. request_id (heap s x) \<notin> set stopped) (running s)"
    "waiting s' = filter (\<lambda>x. request_id (heap s x) \<notin> set stopped) (waiting s)"
    "distinct stopped" "set stopped \<subseteq> finished_req_ids s'" "set stopped \<inter> dom (requests s') = {}"
    "set stopped \<inter> dom (req_to_blocks (kvm s')) = {}"
    "max_num_scheduled_tokens s' = max_num_scheduled_tokens s" "dom (requests s') = dom (requests s) - set stopped"
proof -
  from u obtain s1 where l: "fold_result (update_request mro) (num_scheduled_tokens out) (s, [], []) = Inr (s1, outs, stopped)"
    and s': "s' = log_events clk ''STOPPED'' (it stopped)
      (s1\<lparr>running := filter (\<lambda>x. request_id (heap s1 x) \<notin> set stopped) (running s1),
         waiting := filter (\<lambda>x. request_id (heap s1 x) \<notin> set stopped) (waiting s1)\<rparr>)"
    by (auto simp: update_from_output_def Let_def)
  have "upd_inv s s []" using i by (simp add: upd_inv_def sched_inv_def)
  from update_loop_inv [OF l this] have U: "upd_inv s s1 stopped" .
  then have id: "request_id (heap s1 x) = request_id (heap s x)" for x by (simp add: upd_inv_def)
  have q: "running s1 = running s" "waiting s1 = waiting s" using U by (simp_all add: upd_inv_def)
  have f: "heap s' = heap s1" "requests s' = requests s1" "kvm s' = kvm s1" "finished_req_ids s' = finished_req_ids s1"
    "max_num_running_reqs s' = max_num_running_reqs s1" "max_num_scheduled_tokens s' = max_num_scheduled_tokens s1"
    by (simp_all add: s' log_events_def)
  show r: "running s' = filter (\<lambda>x. request_id (heap s x) \<notin> set stopped) (running s)"
    and w: "waiting s' = filter (\<lambda>x. request_id (heap s x) \<notin> set stopped) (waiting s)"
    by (simp_all add: s' log_events_def id q)
  have c: "core_inv (running s') (waiting s') s'"
    using U unfolding r w upd_inv_def by (simp add: s')
  moreover have "length (running s') \<le> length (running s)" unfolding r by simp
  then have "int (length (running s')) \<le> max_num_running_reqs s'"
    using i U f(5) by (simp add: sched_inv_def upd_inv_def)
  moreover have "\<not> lookahead (heap s' x)" if "x \<in> set (running s' @ waiting s')" for x
    using that i U unfolding r w f(1) by (auto simp: sched_inv_def upd_inv_def)
  ultimately show "sched_inv s'" unfolding sched_inv_def by blast
  show "distinct stopped" "set stopped \<subseteq> finished_req_ids s'" "set stopped \<inter> dom (requests s') = {}"
    "max_num_scheduled_tokens s' = max_num_scheduled_tokens s"
    using U f by (simp_all add: upd_inv_def)
  have "dom (req_to_blocks (kvm s')) = set (ids s' (running s'))" using c by (simp add: core_inv_def)
  also have "\<dots> \<subseteq> - set stopped" unfolding r f(1) id by auto
  finally show "set stopped \<inter> dom (req_to_blocks (kvm s')) = {}" by blast
  have "dom (requests s') = set (ids s (running s' @ waiting s'))" using core_inv_dom [OF c] by (simp add: f(1) id)
  moreover have "dom (requests s) = set (ids s (running s @ waiting s))"
    using i core_inv_dom by (simp add: sched_inv_def)
  ultimately show "dom (requests s') = dom (requests s) - set stopped" unfolding r w by auto
qed

section \<open>Requests come and go from outside\<close>

text \<open>
  A new request: an object not yet queued, waiting, with an id that neither the index nor the
  block tables know.
\<close>

definition fresh_request :: "ref \<Rightarrow> scheduler \<Rightarrow> bool" where
  "fresh_request x s \<longleftrightarrow>
     x \<notin> set (running s @ waiting s) \<and> req_status (heap s x) = WAITING \<and> \<not> lookahead (heap s x)
     \<and> request_id (heap s x) \<notin> set (ids s (running s @ waiting s))"

lemma add_request_inv:
  assumes i: "sched_inv s" and x: "fresh_request x s"
  shows "sched_inv (add_request clk x s)"
    "running (add_request clk x s) = running s" "waiting (add_request clk x s) = waiting s @ [x]"
proof -
  let ?s = "add_request clk x s"
  let ?rid = "request_id (heap s x)"
  have f: "heap ?s = heap s" "kvm ?s = kvm s" "requests ?s = (requests s)(?rid \<mapsto> x)"
    "max_num_running_reqs ?s = max_num_running_reqs s"
    by (simp_all add: add_request_def Let_def log_event_def)
  show q: "running ?s = running s" "waiting ?s = waiting s @ [x]"
    by (simp_all add: add_request_def Let_def log_event_def)
  have c: "core_inv (running s) (waiting s) s" using i by (simp add: sched_inv_def)
  have "(requests ?s rid = Some y) = (y \<in> set (running s @ waiting s @ [x]) \<and> request_id (heap s y) = rid)" for rid y
  proof (cases "rid = ?rid")
    case True
    have "y = x" if "y \<in> set (running s @ waiting s)" "request_id (heap s y) = ?rid" for y
      using x that unfolding fresh_request_def set_map by (metis imageI)
    then show ?thesis unfolding f(3) using True by auto
  next
    case False
    then show ?thesis using c unfolding core_inv_def f(3) by auto
  qed
  moreover have "distinct (ids s (running s @ waiting s @ [x]))"
    using c x by (auto simp: core_inv_def fresh_request_def)
  moreover have "waiting_ok ?s y" if "y \<in> set (waiting s @ [x])" for y
    using that c x unfolding waiting_ok_def f core_inv_def fresh_request_def by auto
  ultimately have "core_inv (running ?s) (waiting ?s) ?s"
    using c unfolding core_inv_def q f(1,2) by auto
  then show "sched_inv ?s" using i x unfolding sched_inv_def q f fresh_request_def by auto
qed

lemma remove1_filter: "distinct xs \<Longrightarrow> remove1 x xs = filter (\<lambda>y. y \<noteq> x) xs"
  by (simp add: distinct_remove1_removeAll removeAll_filter_not_eq eq_commute)

lemma filter_neq_idle: "x \<notin> set xs \<Longrightarrow> filter (\<lambda>y. y \<noteq> x) xs = xs"
  by (induction xs) auto

text \<open>Finishing a request never raises, whatever its state, and takes it out of the scheduler.\<close>

lemma finish_request_inv:
  assumes i: "sched_inv s" and st: "status_is_finished st"
  shows "\<exists>s'. finish_request clk st rid s = Inr s' \<and> sched_inv s' \<and> requests s' = (requests s)(rid := None)
    \<and> (\<forall>x. request_id (heap s' x) = request_id (heap s x))
    \<and> (rid \<in> dom (requests s) \<longrightarrow> rid \<in> finished_req_ids s') \<and> finished_req_ids s \<subseteq> finished_req_ids s'
    \<and> running s' = filter (\<lambda>x. request_id (heap s x) \<noteq> rid) (running s)
    \<and> waiting s' = filter (\<lambda>x. request_id (heap s x) \<noteq> rid) (waiting s)
    \<and> max_num_scheduled_tokens s' = max_num_scheduled_tokens s"
proof (cases "requests s rid")
  case None
  have c: "core_inv (running s) (waiting s) s" using i by (simp add: sched_inv_def)
  have "request_id (heap s x) \<noteq> rid" if "x \<in> set (running s @ waiting s)" for x
    using c that None unfolding core_inv_def by (metis option.distinct(1))
  then have "filter (\<lambda>x. request_id (heap s x) \<noteq> rid) (running s) = running s"
    "filter (\<lambda>x. request_id (heap s x) \<noteq> rid) (waiting s) = waiting s" by (auto simp: filter_id_conv)
  moreover have "(requests s)(rid := None) = requests s" using None by (simp add: fun_upd_idem)
  ultimately show ?thesis using None i by (simp add: finish_request_def) (simp add: domIff)
next
  case (Some x)
  have c: "core_inv (running s) (waiting s) s" using i by (simp add: sched_inv_def)
  have mem: "x \<in> set (running s @ waiting s)" and rid: "request_id (heap s x) = rid"
    using c Some unfolding core_inv_def by blast+
  have d: "distinct (running s @ waiting s)" using c by (rule core_inv_distinct)
  have wst: "y \<in> set (waiting s) \<Longrightarrow> req_status (heap s y) \<noteq> RUNNING" for y
    using c unfolding core_inv_def waiting_ok_def by auto
  have rst: "y \<in> set (running s) \<Longrightarrow> req_status (heap s y) = RUNNING" for y
    using c unfolding core_inv_def by auto
  let ?s1 = "s\<lparr>running := filter (\<lambda>y. y \<noteq> x) (running s), waiting := filter (\<lambda>y. y \<noteq> x) (waiting s)\<rparr>"
  let ?q = "if req_status (heap s x) = RUNNING
             then if x \<in> set (running s) then Inr (s\<lparr>running := remove1 x (running s)\<rparr>) else Inl ValueError
             else if x \<in> set (waiting s) then Inr (s\<lparr>waiting := remove1 x (waiting s)\<rparr>) else Inl ValueError"
  have q: "?q = Inr ?s1"
  proof (cases "x \<in> set (running s)")
    case True
    then have "x \<notin> set (waiting s)" using d by auto
    then show ?thesis using True rst d remove1_filter [of "running s" x] filter_neq_idle [of x "waiting s"] by simp
  next
    case False
    then have "x \<in> set (waiting s)" using mem by auto
    then show ?thesis using False wst d remove1_filter [of "waiting s" x] filter_neq_idle [of x "running s"] by simp
  qed
  let ?s2 = "log_event clk ''FINISHED'' rid ?s1"
  let ?f = "\<lambda>r. r\<lparr>req_status := st\<rparr>"
  have h: "heap ?s2 = heap s" "requests ?s2 = requests s" by (simp_all add: log_event_def)
  have c2: "core_inv (running s) (waiting s) ?s2" using c by simp
  have "request_id (?f (heap ?s2 x)) = request_id (heap ?s2 x)" "status_is_finished (req_status (?f (heap ?s2 x)))"
    using st by simp_all
  from free_request_inv [of _ _ ?s2 x ?f, OF c2 mem this] obtain s' where
    F: "free_request x (upd_req x ?f ?s2) = Inr s'"
    "core_inv (filter (\<lambda>y. y \<noteq> x) (running s)) (filter (\<lambda>y. y \<noteq> x) (waiting s)) s'"
    "heap s' = (heap s)(x := ?f (heap s x))" "running s' = running ?s2" "waiting s' = waiting ?s2"
    "max_num_running_reqs s' = max_num_running_reqs ?s2" "max_num_scheduled_tokens s' = max_num_scheduled_tokens ?s2"
    "requests s' = (requests s)(rid := None)"
    "finished_req_ids s' = insert rid (finished_req_ids ?s2)"
    unfolding h rid by blast
  have fin: "finish_request clk st rid s = Inr s'"
    using F(1) q unfolding finish_request_def Some rid by (simp add: rid)
  have rw: "running s' = filter (\<lambda>y. y \<noteq> x) (running s)" "waiting s' = filter (\<lambda>y. y \<noteq> x) (waiting s)"
    using F(4,5) by (simp_all add: log_event_def)
  have inj: "request_id (heap s y) = rid \<longleftrightarrow> y = x" if "y \<in> set (running s @ waiting s)" for y
    using c that mem rid unfolding core_inv_def distinct_map inj_on_def by blast
  have e: "filter (\<lambda>y. request_id (heap s y) \<noteq> rid) (running s) = filter (\<lambda>y. y \<noteq> x) (running s)"
    "filter (\<lambda>y. request_id (heap s y) \<noteq> rid) (waiting s) = filter (\<lambda>y. y \<noteq> x) (waiting s)"
    using inj by (auto intro!: filter_cong)
  have "int (length (running s')) \<le> max_num_running_reqs s"
    using i length_filter_le [of "\<lambda>y. y \<noteq> x" "running s"] unfolding sched_inv_def rw by linarith
  then have "sched_inv s'"
    using i F(2,3,6) unfolding sched_inv_def rw by (auto simp: log_event_def)
  with fin F(3,7,8,9) rw e show ?thesis by (auto simp: log_event_def)
qed

lemma finish_loop_inv:
  assumes "sched_inv s" "status_is_finished st"
  shows "\<exists>s'. fold_result (finish_request clk st) rids s = Inr s' \<and> sched_inv s'
    \<and> dom (requests s') = dom (requests s) - set rids
    \<and> set rids \<inter> dom (requests s) \<subseteq> finished_req_ids s'
    \<and> finished_req_ids s \<subseteq> finished_req_ids s'
    \<and> running s' = filter (\<lambda>x. request_id (heap s x) \<notin> set rids) (running s)
    \<and> waiting s' = filter (\<lambda>x. request_id (heap s x) \<notin> set rids) (waiting s)
    \<and> max_num_scheduled_tokens s' = max_num_scheduled_tokens s"
  using assms
proof (induction rids arbitrary: s)
  case (Cons rid rids)
  from finish_request_inv [OF Cons.prems, of clk rid] obtain s1 where
    1: "finish_request clk st rid s = Inr s1" "sched_inv s1" "requests s1 = (requests s)(rid := None)"
    "\<forall>x. request_id (heap s1 x) = request_id (heap s x)" "rid \<in> dom (requests s) \<longrightarrow> rid \<in> finished_req_ids s1"
    "finished_req_ids s \<subseteq> finished_req_ids s1"
    "running s1 = filter (\<lambda>x. request_id (heap s x) \<noteq> rid) (running s)"
    "waiting s1 = filter (\<lambda>x. request_id (heap s x) \<noteq> rid) (waiting s)"
    "max_num_scheduled_tokens s1 = max_num_scheduled_tokens s" by blast
  from Cons.IH [OF 1(2) Cons.prems(2)] obtain s' where
    2: "fold_result (finish_request clk st) rids s1 = Inr s'" "sched_inv s'"
    "dom (requests s') = dom (requests s1) - set rids" "set rids \<inter> dom (requests s1) \<subseteq> finished_req_ids s'"
    "finished_req_ids s1 \<subseteq> finished_req_ids s'"
    "running s' = filter (\<lambda>x. request_id (heap s1 x) \<notin> set rids) (running s1)"
    "waiting s' = filter (\<lambda>x. request_id (heap s1 x) \<notin> set rids) (waiting s1)"
    "max_num_scheduled_tokens s' = max_num_scheduled_tokens s1" by blast
  have q: "running s' = filter (\<lambda>x. request_id (heap s x) \<notin> set (rid # rids)) (running s)"
    "waiting s' = filter (\<lambda>x. request_id (heap s x) \<notin> set (rid # rids)) (waiting s)"
    using 1(4) by (auto simp: 2(6,7) 1(7,8) intro!: filter_cong)
  moreover have "dom (requests s') = dom (requests s) - set (rid # rids)"
    by (auto simp: 2(3) 1(3))
  moreover have "set (rid # rids) \<inter> dom (requests s) \<subseteq> finished_req_ids s'"
    using 1(3,5) 2(4,5) by auto
  moreover have "finished_req_ids s \<subseteq> finished_req_ids s'" using 1(6) 2(5) by blast
  ultimately show ?case using 1(1,9) 2(1,2,8) by simp
qed simp

lemma finish_requests_inv:
  assumes "sched_inv s" "status_is_finished st" "\<And>xs. set (it xs) = set xs"
  shows "\<exists>s'. finish_requests it clk rids st s = Inr s' \<and> sched_inv s'
    \<and> dom (requests s') = dom (requests s) - set rids
    \<and> set rids \<inter> dom (requests s) \<subseteq> finished_req_ids s'
    \<and> running s' = filter (\<lambda>x. request_id (heap s x) \<notin> set rids) (running s)
    \<and> waiting s' = filter (\<lambda>x. request_id (heap s x) \<notin> set rids) (waiting s)
    \<and> max_num_scheduled_tokens s' = max_num_scheduled_tokens s"
  using finish_loop_inv [OF assms(1,2), of clk "it (remdups rids)"] assms(2,3)
  by (auto simp: finish_requests_def)

section \<open>Construction\<close>

lemma scheduler_init_inv:
  assumes "scheduler_init sc cc lora hp dh = Inr s" "0 < cc_block_size cc" "0 \<le> max_num_seqs sc"
  shows "sched_inv s" "max_num_scheduled_tokens s = max_num_batched_tokens sc"
    "enable_caching (kvm s) = enable_prefix_caching cc" "heap s = hp"
proof -
  from assms(1) obtain ng nc m where g: "cc_num_gpu_blocks cc = Some ng" "ng > 0" "cc_num_cpu_blocks cc = Some nc"
    and k: "kv_init (cc_block_size cc) (nat ng) (nat nc) (sc_max_model_len sc) (cc_sliding_window cc)
       (enable_prefix_caching cc) 64 (prefix_cache_fix sc) = Inr m"
    and s: "kvm s = m" "requests s = Map.empty" "waiting s = []" "running s = []"
      "max_num_running_reqs s = max_num_seqs sc" "max_num_scheduled_tokens s = max_num_batched_tokens sc" "heap s = hp"
    by (auto simp: scheduler_init_def split: option.splits)
  have I: "kv_inv (\<lambda>_. 0) (\<lambda>_. 0) m" "block_size m = cc_block_size cc" "req_to_blocks m = Map.empty"
    "req_to_blocks_cpu m = Map.empty" "enable_caching m = enable_prefix_caching cc"
    using kv_init_ok [OF k] assms(2) g(2) by auto
  have "kv_ok m" by (rule kv_okI [OF I(1)]) (use I assms(2) in \<open>simp_all add: tables_fit_def\<close>)
  then show "sched_inv s" using s I(3) assms(3) by (simp add: sched_inv_def core_inv_def)
  show "max_num_scheduled_tokens s = max_num_batched_tokens sc" "heap s = hp"
    "enable_caching (kvm s) = enable_prefix_caching cc" using s I(5) by simp_all
qed

end
