(* ===== verification/SchedulerMachine.thy ===== *)
theory SchedulerMachine
  imports SchedulerOps
begin

text \<open>
  The scheduler as a state machine: its public methods are the steps, and a state is reachable
  when it comes from the constructor by any sequence of them. The invariant holds in every
  reachable state; the small configuration at the end is the one the examples run.
\<close>

section \<open>Steps and reachable states\<close>

inductive sched_step ::
  "hash_fun \<Rightarrow> (req_id list \<Rightarrow> req_id list) \<Rightarrow> clock \<Rightarrow> scheduler \<Rightarrow> scheduler \<Rightarrow> bool"
  for hsh :: hash_fun and it :: "req_id list \<Rightarrow> req_id list" and clk :: clock where
  step_schedule: "schedule hsh clk la s = Inr (out, s') \<Longrightarrow> sched_step hsh it clk s s'"
| step_update: "update_from_output it clk out mro s = Inr (outs, stopped, s') \<Longrightarrow> sched_step hsh it clk s s'"
| step_add: "\<lbrakk>from_engine_core_request er = Inr r; x \<notin> set (running s @ waiting s);
    request_id r \<notin> set (ids s (running s @ waiting s))\<rbrakk> \<Longrightarrow>
    sched_step hsh it clk s (add_request clk x (s\<lparr>heap := (heap s)(x := r)\<rparr>))"
| step_finish: "finish_requests it clk rids st s = Inr s' \<Longrightarrow> sched_step hsh it clk s s'"

inductive sched_reach ::
  "hash_fun \<Rightarrow> (req_id list \<Rightarrow> req_id list) \<Rightarrow> clock \<Rightarrow> scheduler_config \<Rightarrow> cache_config \<Rightarrow> scheduler \<Rightarrow> bool"
  for hsh :: hash_fun and it :: "req_id list \<Rightarrow> req_id list" and clk :: clock
    and sc :: scheduler_config and cc :: cache_config where
  reach_init: "scheduler_init sc cc False hp dh = Inr s \<Longrightarrow> sched_reach hsh it clk sc cc s"
| reach_step: "\<lbrakk>sched_reach hsh it clk sc cc s; sched_step hsh it clk s s'\<rbrakk> \<Longrightarrow> sched_reach hsh it clk sc cc s'"

text \<open>What the code assumes of its configuration and of the enumeration of a set.\<close>

definition config_ok :: "scheduler_config \<Rightarrow> cache_config \<Rightarrow> bool" where
  "config_ok sc cc \<longleftrightarrow>
     0 < cc_block_size cc \<and> 0 \<le> max_num_seqs sc \<and> 0 \<le> max_num_batched_tokens sc"

definition enumerates :: "(req_id list \<Rightarrow> req_id list) \<Rightarrow> bool" where
  "enumerates it \<longleftrightarrow> (\<forall>xs. set (it xs) = set xs)"

section \<open>The invariant\<close>

lemma request_init_fresh:
  assumes "from_engine_core_request er = Inr r"
  shows "req_status r = WAITING" "\<not> lookahead r"
  using assms by (auto simp: from_engine_core_request_def request_init_def split: option.splits)

lemma sched_inv_heap_new:
  assumes i: "sched_inv s" and x: "x \<notin> set (running s @ waiting s)"
  shows "sched_inv (s\<lparr>heap := (heap s)(x := r)\<rparr>)"
proof -
  let ?s = "s\<lparr>heap := (heap s)(x := r)\<rparr>"
  have e: "heap ?s y = heap s y" if "y \<in> set (running s @ waiting s)" for y
    using that x by auto
  have m: "ids ?s (running s) = ids s (running s)"
    "ids ?s (running s @ waiting s) = ids s (running s @ waiting s)"
    using x by (auto intro!: map_cong)
  have w: "waiting_ok ?s y = waiting_ok s y" if "y \<in> set (waiting s)" for y
    using e [of y] that by (simp add: waiting_ok_def)
  have r: "(y \<in> set (running s @ waiting s) \<and> request_id (heap ?s y) = rid)
      = (y \<in> set (running s @ waiting s) \<and> request_id (heap s y) = rid)" for y rid
    using e [of y] by metis
  have c: "core_inv (running s) (waiting s) s" using i by (simp add: sched_inv_def)
  have "core_inv (running s) (waiting s) ?s"
    unfolding core_inv_def
  proof (intro conjI)
    show "distinct (ids ?s (running s @ waiting s))" using c unfolding m core_inv_def by blast
    show "dom (req_to_blocks (kvm ?s)) = set (ids ?s (running s))" using c unfolding m core_inv_def by simp
    show "\<forall>rid y. (requests ?s rid = Some y)
        = (y \<in> set (running s @ waiting s) \<and> request_id (heap ?s y) = rid)"
      using c unfolding r core_inv_def by simp
    show "\<forall>x \<in> set (waiting s). waiting_ok ?s x" using c w unfolding core_inv_def by blast
    show "\<forall>x \<in> set (running s). req_status (heap ?s x) = RUNNING" using c e unfolding core_inv_def by auto
    show "kv_ok (kvm ?s)" using c by (simp add: core_inv_def)
  qed
  then have "core_inv (running ?s) (waiting ?s) ?s" by simp
  then show ?thesis using i e unfolding sched_inv_def by auto
qed

lemma sched_step_inv:
  assumes "sched_step hsh it clk s s'" "sched_inv s" "0 \<le> max_num_scheduled_tokens s" "enumerates it"
  shows "sched_inv s' \<and> max_num_scheduled_tokens s' = max_num_scheduled_tokens s"
  using assms(1)
proof cases
  case (step_schedule la out)
  then show ?thesis using schedule_inv(1,6) assms(2,3) by blast
next
  case (step_update out mro outs stopped)
  then show ?thesis using update_from_output_inv(1,8) assms(2) by blast
next
  case (step_add er r x)
  let ?s = "s\<lparr>heap := (heap s)(x := r)\<rparr>"
  have "ids ?s (running s @ waiting s) = ids s (running s @ waiting s)"
    using step_add(3) by (auto intro!: map_cong)
  then have "fresh_request x ?s"
    using step_add(3,4) request_init_fresh [OF step_add(2)] unfolding fresh_request_def by simp
  from add_request_inv(1) [OF sched_inv_heap_new [OF assms(2) step_add(3)] this]
  have "sched_inv s'" by (simp only: step_add(1))
  then show ?thesis by (simp add: step_add(1) add_request_def Let_def log_event_def)
next
  case (step_finish rids st)
  then have "status_is_finished st" by (auto simp: finish_requests_def)
  with step_finish finish_requests_inv [OF assms(2), of st it clk rids] assms(4) show ?thesis
    by (auto simp: enumerates_def)
qed

lemma sched_reach_inv:
  assumes "sched_reach hsh it clk sc cc s" "config_ok sc cc" "enumerates it"
  shows "sched_inv s \<and> max_num_scheduled_tokens s = max_num_batched_tokens sc"
  using assms(1)
proof (induction rule: sched_reach.induct)
  case (reach_init hp dh s)
  with assms(2) scheduler_init_inv show ?case by (auto simp: config_ok_def)
next
  case (reach_step s s')
  with sched_step_inv assms(2,3) show ?case by (metis config_ok_def)
qed

end
