(* ===== verification/Examples.thy ===== *)
theory Examples
  imports SchedulerMachine
begin

text \<open>
  The concrete inputs of the development's witnesses, and the rewrite collections that run
  the model on them: \<open>kv_run\<close> evaluates the block pools, \<open>sched_run\<close> the scheduler.
  The stores are functions updated at a few addresses, which the simplifier keeps in normal form.
\<close>

section \<open>Evaluation by rewriting\<close>

lemmas kv_run = kv_init_def fq_init_def link_block_def new_block_def init_block_def cpu_popleft_def
  fq_popleft_def fq_remove_def fq_append_def upd_block_def mark_free_def Let_def cdiv_def upt_rec
  gpu_popleft_def gpu_append_def gpu_remove_def cpu_append_def kv_incr_ref_def kv_decr_ref_def
  cpu_decr_ref_def incr_ref_def decr_ref_def add_ref_def try_upd_block_def mark_empty_def mark_clean_def
  mapped_of_def lookup_key_def get_cached_block_def get_computed_blocks_def evict_cached_block_def
  touch_block_def touch_def cow_cpu_mapping_def get_new_block_def get_new_blocks_def
  get_append_slots_num_new_blocks_def append_slots_def append_new_blocks_def append_slots_caching_def
  get_allocated_slots_num_new_blocks_def allocate_slots_def allocate_slots_caching_def
  touch_computed_def free_block_def kv_free_def swap_in_def swap_out_def release_cpu_block_def
  relocate_block_def restore_block_def get_kv_caches_usage_def
  get_and_reset_pending_blocks_to_swap_in_def get_and_reset_pending_blocks_to_swap_out_def
  get_num_blocks_to_free_def is_dirty_def eval_nat_numeral

lemmas sched_run = scheduler_init_def upd_req_def put_kv_def log_event_def log_events_def
  can_extend_after_full_step_def try_schedule_encoder_inputs_def commit_encoder_inputs_def
  preempt_request_def preempt_loop.simps schedule_single_running_request_def admit_waiting_def
  admit_swapped_def admit_request_def record_admission_def schedule_single_waiting_request_def
  running_loop.simps waiting_loop.simps sched_acc_init_def early_phase_def waiting_phase_def
  dispatch_def total_tokens_def check_constraints_def stamp_times_def stamp_running_def
  stamp_waiting_def new_data_from_request_def resumed_data_from_request_def
  running_data_from_request_def make_running_request_data_def new_reqs_data_def
  resumed_reqs_data_def advance_current_def advance_predicted_def advance_running_def
  advance_admitted_def emit_output_def take_pending_def schedule_def add_request_def
  encoder_cache_init_def get_freed_ids_def has_encoder_inputs_def num_tokens_def
  num_output_tokens_def lookahead_enter_def lookahead_exit_def

section \<open>Requests and configurations\<close>

definition demo_hash :: hash_fun where
  "demo_hash = (\<lambda>_ _. 0)"

definition demo_clk :: clock where
  "demo_clk n = of_nat n"

definition demo_core_request :: "req_id \<Rightarrow> token list \<Rightarrow> engine_core_request" where
  "demo_core_request rid toks =
     \<lparr>ecr_request_id = rid, ecr_prompt = None, ecr_prompt_token_ids = toks,
      ecr_mm_inputs = None, ecr_mm_hashes = None, ecr_mm_placeholders = None,
      ecr_sampling_params = \<lparr>sp_max_tokens = Some 4, ignore_eos = False, stop_token_ids = None\<rparr>,
      ecr_eos_token_id = Some 0, ecr_arrival_time = 0\<rparr>"

definition demo_request :: "req_id \<Rightarrow> token list \<Rightarrow> request" where
  "demo_request rid toks =
     \<lparr>request_id = rid, prompt = None, prompt_token_ids = toks,
      num_prompt_tokens = int (length toks),
      sampling = \<lparr>sp_max_tokens = Some 4, ignore_eos = False, stop_token_ids = None\<rparr>,
      eos_token_id = Some 0, req_status = WAITING, stop_reason = None, max_tokens = 4,
      lookahead = False, output_ids = [], all_ids = toks, num_computed_tokens = 0,
      num_cached_tokens = 0, num_tokens_next = int (length toks), num_computed_tokens_next = 0,
      in_running_since = None, in_waiting_since = Some 0, mm_positions = [], mm_inputs = [],
      mm_hashes = [], kv_block_hashes = []\<rparr>"

lemma demo_request_init:
  "from_engine_core_request (demo_core_request rid toks) = Inr (demo_request rid toks)"
  by (simp add: from_engine_core_request_def request_init_def demo_core_request_def demo_request_def)

definition demo_sc :: scheduler_config where
  "demo_sc = \<lparr>max_num_seqs = 4, max_num_batched_tokens = 16, sc_max_model_len = 8,
     prefix_cache_fix = True, sc_max_num_encoder_input_tokens = 8, encoder_cache_size = 8,
     proactive_swap_budget = 0, sc_preemption_mode = None\<rparr>"

definition demo_cc :: cache_config where
  "demo_cc = \<lparr>cc_block_size = 4, cc_num_gpu_blocks = Some 2, cc_num_cpu_blocks = Some 4,
     cc_sliding_window = None, enable_prefix_caching = False\<rparr>"

definition demo_data :: "ref \<Rightarrow> running_request_data" where
  "demo_data = (\<lambda>_. \<lparr>rrd_req_id = '''', rrd_new_block_ids = [], rrd_num_computed_tokens = 0,
     rrd_num_tokens = 0\<rparr>)"

lemmas demo_defs = demo_sc_def demo_cc_def demo_request_def

lemma demo_config: "config_ok demo_sc demo_cc" "enumerates id"
  by (simp_all add: config_ok_def enumerates_def demo_defs)

text \<open>The scheduler right after construction, and with one request \<^verbatim>\<open>a\<close> at address 0.\<close>

definition demo_idle :: scheduler where
  "demo_idle = projr (scheduler_init demo_sc demo_cc False (\<lambda>_. demo_request '''' []) demo_data)"

lemma demo_idle_init:
  "scheduler_init demo_sc demo_cc False (\<lambda>_. demo_request '''' []) demo_data = Inr demo_idle"
  by (simp add: demo_idle_def sched_run kv_run demo_sc_def demo_cc_def)

lemma demo_idle_queues [simp]:
  "running demo_idle = []" "waiting demo_idle = []" "requests demo_idle = Map.empty"
  by (simp_all add: demo_idle_def sched_run kv_run demo_sc_def demo_cc_def)

lemma demo_idle_reach: "sched_reach demo_hash id demo_clk demo_sc demo_cc demo_idle"
  using demo_idle_init by (rule reach_init)

definition demo_one :: scheduler where
  "demo_one = add_request demo_clk 0 (demo_idle\<lparr>heap := (heap demo_idle)(0 := demo_request ''a'' [1, 2, 3])\<rparr>)"

lemma demo_one_reach: "sched_reach demo_hash id demo_clk demo_sc demo_cc demo_one"
  unfolding demo_one_def
  by (rule reach_step [OF demo_idle_reach]) (rule step_add [OF demo_request_init], simp_all)

lemma demo_one_queues [simp]: "running demo_one = []" "waiting demo_one = [0]"
  by (simp_all add: demo_one_def add_request_def Let_def log_event_def)

lemma demo_one_inv: "sched_inv demo_one" "max_num_scheduled_tokens demo_one = 16"
  using sched_reach_inv [OF demo_one_reach demo_config] by (simp_all add: demo_sc_def)

lemma demo_one_schedule:
  "\<exists>out s. schedule demo_hash demo_clk False demo_one = Inr (out, s)
    \<and> num_scheduled_tokens out = [(''a'', 3)] \<and> running s = [0] \<and> waiting s = []"
  by (simp add: demo_one_def demo_idle_def sched_run kv_run demo_defs)

definition demo_ran :: "scheduler_output \<times> scheduler" where
  "demo_ran = projr (schedule demo_hash demo_clk False demo_one)"

lemma demo_ran_schedule: "schedule demo_hash demo_clk False demo_one = Inr (fst demo_ran, snd demo_ran)"
  using demo_one_schedule by (auto simp: demo_ran_def)

lemma demo_ran_facts:
  "running (snd demo_ran) = [0]" "waiting (snd demo_ran) = []" "num_scheduled_tokens (fst demo_ran) = [(''a'', 3)]"
  using demo_one_schedule by (auto simp: demo_ran_def)

lemma demo_ran_reach: "sched_reach demo_hash id demo_clk demo_sc demo_cc (snd demo_ran)"
  using demo_one_reach step_schedule [OF demo_ran_schedule] by (rule reach_step)

text \<open>The worker samples token 0, the end-of-sequence token of the requests.\<close>

definition demo_mro :: model_runner_output where
  "demo_mro = \<lparr>mro_req_ids = [''a''], req_id_to_index = [''a'' \<mapsto> 0], sampled_token_ids = [0],
     new_token_ids = Map.empty, bad_ids = []\<rparr>"

end
