(* ===== verification/KVCacheProps.thy ===== *)
theory KVCacheProps
  imports Examples
begin

text \<open>
  The properties of the KV-cache manager and of its free-block queue, each with the concrete
  run that shows its hypotheses can hold.
\<close>

section \<open>The pool\<close>

text \<open>
  C10: whatever sequence of appends, allocations, swaps and frees a client performs after
  construction, the free queue holds exactly the blocks with reference count 0, each once; a
  block's count is never below the number of times the block tables mention it, and is
  exactly that number when prefix caching is off.
\<close>

theorem kv_pool_accounting:
  assumes "kv_init bs ng nc mml win cach pre fx = Inr m0" "0 < bs"
    and "fold_result (kv_apply hsh) ops m0 = Inr m"
  shows "\<exists>xs. get_all_free_blocks (pool m, queue m) = Some xs \<and> distinct xs
    \<and> set xs = {b. b < ng \<and> ref_cnt (pool m b) = 0} \<and> num_free_blocks (queue m) = int (length xs)
    \<and> (\<forall>b. b < ng \<longrightarrow> table_uses (req_to_blocks m) b \<le> ref_cnt (pool m b))
    \<and> (\<not> cach \<longrightarrow> (\<forall>b. b < ng \<longrightarrow> ref_cnt (pool m b) = table_uses (req_to_blocks m) b))"
proof -
  note I = kv_init_ok [OF assms(1)]
  have ok: "kv_ok m" using assms by (rule kv_run_ok)
  have "kv_ok m0" by (rule kv_okI [OF I(1)]) (use I assms(2) in \<open>simp_all add: tables_fit_def\<close>)
  from kv_run_config [OF this assms(3)] I have "num_gpu_blocks m = ng" "enable_caching m = cach"
    by (simp_all add: same_config_def)
  with ok show ?thesis by (elim kv_ok_pool) blast
qed

definition demo_kv :: kv_manager where
  "demo_kv = projr (kv_init 4 2 4 8 None False 64 True)"

lemma demo_kv_init: "kv_init 4 2 4 8 None False 64 True = Inr demo_kv"
  by (simp add: demo_kv_def kv_run)

definition demo_ops :: "kv_op list" where
  "demo_ops = [OpAllocate (demo_request ''a'' [1, 2, 3]) 3, OpSwapOut ''a'', OpFree ''b'']"

definition demo_kv_end :: kv_manager where
  "demo_kv_end = projr (fold_result (kv_apply demo_hash) demo_ops demo_kv)"

lemma demo_kv_ops: "fold_result (kv_apply demo_hash) demo_ops demo_kv = Inr demo_kv_end"
  by (simp add: demo_kv_end_def demo_kv_def demo_ops_def kv_apply_def kv_run demo_request_def)

theorem kv_pool_accounting_witness:
  "\<exists>xs. get_all_free_blocks (pool demo_kv_end, queue demo_kv_end) = Some xs \<and> distinct xs
    \<and> set xs = {b. b < 2 \<and> ref_cnt (pool demo_kv_end b) = 0}"
  using kv_pool_accounting [OF demo_kv_init _ demo_kv_ops] by auto


definition demo_held :: kv_manager where
  "demo_held = projr (kv_apply demo_hash (OpAllocate (demo_request ''a'' [1, 2, 3]) 3) demo_kv)"

lemma demo_held_eq: "fold_result (kv_apply demo_hash) [OpAllocate (demo_request ''a'' [1, 2, 3]) 3] demo_kv = Inr demo_held"
  by (simp add: demo_held_def demo_kv_def kv_apply_def kv_run demo_request_def)

lemma demo_held_ok: "kv_ok demo_held"
  using kv_run_ok [OF demo_kv_init _ demo_held_eq] by simp




text \<open>
  C12: freeing a request never raises in a consistent manager, whatever it holds, and gives up
  its table and nobody else's.
\<close>

theorem kv_free_succeeds:
  assumes "kv_ok m"
  shows "\<exists>m'. kv_free rid False False m = Inr m' \<and> kv_ok m'
    \<and> req_to_blocks m' = (req_to_blocks m)(rid := None) \<and> req_to_blocks_cpu m' = req_to_blocks_cpu m"
proof -
  from assms obtain ex cx where i: "kv_inv ex cx m" by (auto simp: kv_ok_def)
  from kv.free_law [OF assms, of rid] obtain m' where m': "kv_free rid False False m = Inr m'" "kv_ok m'" by blast
  with kv_free_inv(3,4) [OF i m'(1)] show ?thesis by blast
qed

theorem kv_free_succeeds_witness: "\<exists>m'. kv_free ''a'' False False demo_held = Inr m'"
  using kv_free_succeeds [OF demo_held_ok] by blast





end
