(* ===== verification/CacheProps.thy ===== *)
theory CacheProps
  imports KVCacheProps
begin

text \<open>
  The properties of prefix caching, of the block-hash chain, of the free-block queue and of the
  manager's construction.
\<close>

section \<open>Prefix caching\<close>

text \<open>
  C14: the blocks \<open>get_computed_blocks\<close> returns for a request are blocks of the pool that carry,
  one by one, the request's own block hashes from the first on; the run is as long as possible,
  and only the cached hashes of the request are changed.
\<close>

theorem computed_blocks_sound:
  assumes "kv_ok m" "get_computed_blocks hsh r m = Inr (bs, r')"
  shows "length bs \<le> length (kv_block_hashes r')
    \<and> (\<forall>i < length bs. bs ! i < num_gpu_blocks m \<and> block_hash (pool m (bs ! i)) = Some (kv_block_hashes r' ! i))
    \<and> (enable_caching m \<and> length bs < length (kv_block_hashes r')
         \<longrightarrow> cached_blocks m (kv_block_hashes r' ! length bs) = None)
    \<and> r'\<lparr>kv_block_hashes := kv_block_hashes r\<rparr> = r"
proof -
  from assms(1) obtain ex cx where i: "kv_inv ex cx m" by (auto simp: kv_ok_def)
  note S = get_computed_blocks_sound [OF i assms(2)]
  have "bs ! k < num_gpu_blocks m" if "k < length bs" for k using S(2) that by force
  moreover have "r'\<lparr>kv_block_hashes := kv_block_hashes r\<rparr> = r"
    using S(1) by (cases r; cases r') (simp add: hashes_only_def)
  ultimately show ?thesis using S(3-5) by blast
qed

text \<open>A caching pool in which request \<^verbatim>\<open>a\<close> has filled its first block.\<close>

definition demo_five :: "req_id \<Rightarrow> request" where
  "demo_five rid = demo_request rid [1, 2, 3, 4, 5]"

definition demo_cached :: kv_manager where
  "demo_cached = projr (andthen (kv_init 4 2 4 8 None True 64 True) (fold_result (kv_apply demo_hash)
     [OpAllocate (demo_five ''a'') 5, OpAppend ((demo_five ''a'')\<lparr>num_computed_tokens := 4\<rparr>) 1]))"

lemmas cache_run = kv_run hash_request_tokens_def hash_blocks_from.simps hash_block_tokens_def
  cached_prefix.simps append_slots_caching_def allocate_slots_caching_def cache_full_blocks_def
  cache_full_block_def set_block_hash_def mark_cached_block_def set_kv_block_hashes_def append_kv_block_hashes_def
  generate_block_hash_extra_keys_def mark_full_def mark_half_def py_slice_def dict_add_def
  demo_five_def demo_request_def demo_hash_def numeral_eq_Suc

lemma demo_cached_eq:
  "\<exists>m0. kv_init 4 2 4 8 None True 64 True = Inr m0 \<and> fold_result (kv_apply demo_hash)
     [OpAllocate (demo_five ''a'') 5, OpAppend ((demo_five ''a'')\<lparr>num_computed_tokens := 4\<rparr>) 1] m0 = Inr demo_cached"
  by (simp add: demo_cached_def kv_apply_def cache_run)

lemma demo_cached_ok: "kv_ok demo_cached"
  using demo_cached_eq kv_run_ok by fastforce

lemma demo_cached_hit:
  "\<exists>r'. get_computed_blocks demo_hash (demo_five ''b'') demo_cached = Inr ([0], r')"
  by (simp add: demo_cached_def kv_apply_def cache_run)

theorem computed_blocks_sound_witness:
  "\<exists>r'. get_computed_blocks demo_hash (demo_five ''b'') demo_cached = Inr ([0], r')
    \<and> block_hash (pool demo_cached 0) = Some (kv_block_hashes r' ! 0)"
  using demo_cached_hit computed_blocks_sound [OF demo_cached_ok] by fastforce



section \<open>The free-block queue\<close>

text \<open>
  C16: the linked list refines a plain list. In a state that represents the list \<open>xs\<close>, the walk
  over all blocks ends with \<open>xs\<close>, \<open>popleft\<close> takes its head or raises on the empty list,
  \<open>remove\<close> deletes a member from anywhere, and \<open>append\<close> adds a new block at the end; all in
  constant time on the links, and without disturbing anything else stored in the blocks.
\<close>

theorem free_queue_refines_list:
  assumes "dll s xs"
  shows "get_all_free_blocks s = Some xs \<and> num_free_blocks (snd s) = int (length xs)
    \<and> (xs = [] \<longrightarrow> fq_popleft s = Inl ValueError)
    \<and> (\<forall>b ys. xs = b # ys \<longrightarrow> (\<exists>s'. fq_popleft s = Inr (b, s') \<and> dll s' ys \<and> same_data (fst s) (fst s')))
    \<and> (\<forall>b \<in> set xs. dll (fq_remove b s) (remove1 b xs) \<and> same_data (fst s) (fst (fq_remove b s)))
    \<and> (\<forall>b. b \<notin> set xs \<longrightarrow> (\<exists>s'. fq_append b s = Inr s' \<and> dll s' (xs @ [b])))"
proof (intro conjI allI ballI impI)
  show "get_all_free_blocks s = Some xs" using assms by (rule get_all_free_blocks_dll)
  show "num_free_blocks (snd s) = int (length xs)" using assms by (rule fq.num)
  show "fq_popleft s = Inl ValueError" if "xs = []" using assms that fq.popleft_Nil by blast
  show "\<exists>s'. fq_popleft s = Inr (b, s') \<and> dll s' ys \<and> same_data (fst s) (fst s')" if "xs = b # ys" for b ys
    using assms that fq.popleft_Cons fq_popleft_same_data by blast
  show "dll (fq_remove b s) (remove1 b xs)" if "b \<in> set xs" for b using assms that by (rule fq.remove)
  show "same_data (fst s) (fst (fq_remove b s))" for b by (rule fq_remove_same_data)
  show "\<exists>s'. fq_append b s = Inr s' \<and> dll s' (xs @ [b])" if "b \<notin> set xs" for b using assms that by (rule fq.append)
qed

lemma demo_kv_queue: "dll (pool demo_kv, queue demo_kv) [0, 1]"
  using kv_init_inv [of 4 2 4 8 None False 64 True] demo_kv_init by (auto simp: upt_rec)

theorem free_queue_refines_list_witness:
  "get_all_free_blocks (pool demo_kv, queue demo_kv) = Some [0, 1]
    \<and> dll (fq_remove 0 (pool demo_kv, queue demo_kv)) [1]"
  using free_queue_refines_list [OF demo_kv_queue] by simp

section \<open>Construction\<close>

text \<open>
  C17: constructing the manager succeeds exactly when the block size is not 0, the GPU pool is
  not empty and there is a CPU block to pair with every GPU block. It starts with all GPU blocks
  free in order, block \<open>b\<close> paired with CPU block \<open>b\<close>, and the other CPU blocks free.
\<close>

theorem kv_init_decides:
  "(\<exists>m. kv_init bs ng nc mml win cach pre fx = Inr m) \<longleftrightarrow> bs \<noteq> 0 \<and> 0 < ng \<and> ng \<le> nc"
proof
  assume "\<exists>m. kv_init bs ng nc mml win cach pre fx = Inr m"
  then obtain m where m: "kv_init bs ng nc mml win cach pre fx = Inr m" by blast
  then have "bs \<noteq> 0" "0 < ng" by (auto simp: kv_init_def fq_init_def split: if_splits)
  with kv_init_ok(7) [OF m] show "bs \<noteq> 0 \<and> 0 < ng \<and> ng \<le> nc" by simp
qed (use kv_init_inv in blast)

lemma init_cpu_blocks:
  assumes "kv_init bs ng nc mml win cach pre fx = Inr m"
  shows "num_cpu_blocks m = nc"
proof -
  have keep: "num_cpu_blocks m' = num_cpu_blocks m" if "init_block b m = Inr m'" for b m m'
    using that by (auto simp: init_block_def cpu_popleft_def upd_block_def)
  from assms show ?thesis
    by (auto simp: kv_init_def split: if_splits elim!: fold_result_invariant [where P = "\<lambda>m. num_cpu_blocks m = nc"] dest: keep)
qed

text \<open>
  C18: because every GPU block owns a CPU block from the start, the CPU pool counts as used to
  the extent of \<open>num_gpu_blocks / num_cpu_blocks\<close> before anything has been swapped.
\<close>

theorem initial_cpu_usage:
  assumes "kv_init bs ng nc mml win cach pre fx = Inr m"
  shows "get_kv_caches_usage m = Inr (0, of_nat ng / of_nat nc)"
proof -
  have c: "bs \<noteq> 0" "0 < ng" "ng \<le> nc"
    using assms kv_init_ok(7) [OF assms] by (auto simp: kv_init_def fq_init_def split: if_splits)
  from kv_init_inv [OF this, of mml win cach pre fx] assms
  have "dll (pool m, queue m) [0..<ng]" "dll (pool_cpu m, queue_cpu m) [ng..<nc]" "num_gpu_blocks m = ng" by auto
  then have n: "num_free_blocks (queue m) = int ng" "num_free_blocks (queue_cpu m) = int nc - int ng" "num_gpu_blocks m = ng"
    using dll_num [of "(pool m, queue m)"] dll_num [of "(pool_cpu m, queue_cpu m)"] c(3) by (auto simp: of_nat_diff)
  have "num_cpu_blocks m = nc" using assms init_cpu_blocks by simp
  with n c show ?thesis by (simp add: get_kv_caches_usage_def field_simps)
qed

theorem initial_cpu_usage_witness: "get_kv_caches_usage demo_kv = Inr (0, 1 / 2)"
  using initial_cpu_usage [OF demo_kv_init] by simp

text \<open>
  C19: an allocation that fails for lack of free blocks has already taken the computed blocks: it
  returns \<open>None\<close> with their reference counts raised and no table that will ever release them.
\<close>

theorem failed_allocation_keeps_references:
  assumes "kv_ok m" "set computed \<subseteq> {..<num_gpu_blocks m}"
    and "allocate_slots hsh r n computed np m = Inr (None, r', m')"
  shows "req_to_blocks m' = req_to_blocks m
    \<and> (\<forall>b < num_gpu_blocks m. ref_cnt (pool m' b) = ref_cnt (pool m b) + int (count_list computed b))"
proof -
  from assms(1) obtain ex cx where i: "kv_inv ex cx m" by (auto simp: kv_ok_def)
  note N = allocate_slots_None_inv [OF i assms(2,3)]
  then have "req_to_blocks m' = req_to_blocks m" "num_gpu_blocks m' = num_gpu_blocks m"
    by (simp_all add: same_static_def)
  with i N(1) show ?thesis by (simp add: kv_inv_def data_ok_def refs_ok_def)
qed

lemma demo_cached_fails:
  "\<exists>m'. allocate_slots demo_hash (demo_five ''b'') 1 [0] False demo_cached = Inr (None, demo_five ''b'', m')"
  by (simp add: demo_cached_def kv_apply_def cache_run)

lemma demo_cached_size: "num_gpu_blocks demo_cached = 2"
  by (simp add: demo_cached_def kv_apply_def cache_run)

theorem failed_allocation_keeps_references_witness:
  "\<exists>m'. allocate_slots demo_hash (demo_five ''b'') 1 [0] False demo_cached = Inr (None, demo_five ''b'', m')
    \<and> ref_cnt (pool m' 0) = ref_cnt (pool demo_cached 0) + 1"
  using demo_cached_fails failed_allocation_keeps_references [OF demo_cached_ok, of "[0]"]
  by (fastforce simp: demo_cached_size)

end
