(* ===== verification/SchedulerProps.thy ===== *)
theory SchedulerProps
  imports Examples
begin

text \<open>
  The properties of the v1 scheduler, each with the concrete run that shows its hypotheses can
  hold. All of them speak of reachable states: any sequence of \<open>schedule\<close>,
  \<open>update_from_output\<close>, \<open>add_request\<close> and \<open>finish_requests\<close> calls from the constructor.
\<close>

section \<open>Reachable states\<close>

text \<open>
  C1: in every reachable state no request is tracked twice, the requests in \<open>running\<close> have
  status RUNNING and own a block table, those in \<open>waiting\<close> are WAITING, PREEMPTED or SWAPPED
  and own none, a SWAPPED request owns a CPU block table, \<open>requests\<close> indexes exactly the two
  queues, and the number of running requests is within the limit.
\<close>

theorem scheduler_invariant:
  assumes "sched_reach hsh it clk sc cc s" "config_ok sc cc" "enumerates it"
  shows "distinct (ids s (running s @ waiting s))
    \<and> (\<forall>x \<in> set (running s). req_status (heap s x) = RUNNING)
    \<and> (\<forall>x \<in> set (waiting s). req_status (heap s x) \<in> {WAITING, PREEMPTED, SWAPPED}
         \<and> (req_status (heap s x) = SWAPPED \<longrightarrow> request_id (heap s x) \<in> dom (req_to_blocks_cpu (kvm s))))
    \<and> dom (req_to_blocks (kvm s)) = set (ids s (running s))
    \<and> (\<forall>rid x. requests s rid = Some x \<longleftrightarrow> x \<in> set (running s @ waiting s) \<and> request_id (heap s x) = rid)
    \<and> int (length (running s)) \<le> max_num_running_reqs s"
  using sched_reach_inv [OF assms] by (simp add: sched_inv_def core_inv_def waiting_ok_def)

theorem scheduler_invariant_witness:
  "running (snd demo_ran) = [0] \<and> dom (req_to_blocks (kvm (snd demo_ran))) = {request_id (heap (snd demo_ran) 0)}"
  using scheduler_invariant [OF demo_ran_reach demo_config] by (simp add: demo_ran_facts)

text \<open>
  C2: a call of \<open>schedule\<close> neither loses nor duplicates a request: the two queues together
  hold the same requests as before. It schedules tokens for exactly the requests that end up in
  \<open>running\<close>, and never more tokens than the step's budget.
\<close>

theorem schedule_conserves:
  assumes "sched_reach hsh it clk sc cc s" "config_ok sc cc" "enumerates it"
    and "schedule hsh clk la s = Inr (out, s')"
  shows "mset (running s' @ waiting s') = mset (running s @ waiting s)
    \<and> map fst (num_scheduled_tokens out) = ids s' (running s')
    \<and> total_num_scheduled_tokens out \<le> max_num_batched_tokens sc
    \<and> requests s' = requests s"
proof -
  note I = sched_reach_inv [OF assms(1-3)]
  with assms(2) have "0 \<le> max_num_scheduled_tokens s" by (simp add: config_ok_def)
  with I schedule_inv [OF _ _ assms(4)] show ?thesis by simp
qed

theorem schedule_conserves_witness:
  "mset (running (snd demo_ran) @ waiting (snd demo_ran)) = mset (running demo_one @ waiting demo_one)
    \<and> total_num_scheduled_tokens (fst demo_ran) \<le> 16"
  using schedule_conserves [OF demo_one_reach demo_config demo_ran_schedule] by (simp add: demo_sc_def)

text \<open>
  C3: the four assertions at the end of \<open>schedule\<close> ("Check if the scheduling constraints are
  satisfied") can never fail in a reachable state.
\<close>

theorem schedule_constraints_hold:
  assumes "sched_reach hsh it clk sc cc s" "config_ok sc cc" "enumerates it"
    and "dispatch hsh clk la s = Inr (s', acc)"
  shows "check_constraints s' acc = Inr ()"
proof -
  note I = sched_reach_inv [OF assms(1-3)]
  with assms(2) have "0 \<le> max_num_scheduled_tokens s" by (simp add: config_ok_def)
  with I dispatch_inv [OF _ _ assms(4)] show ?thesis by (simp add: check_constraints_ok)
qed

theorem schedule_constraints_hold_witness:
  "\<exists>s' acc. dispatch demo_hash demo_clk False demo_one = Inr (s', acc) \<and> check_constraints s' acc = Inr ()"
proof -
  from demo_ran_schedule obtain s' acc where d: "dispatch demo_hash demo_clk False demo_one = Inr (s', acc)"
    by (elim schedule_cases) blast
  with schedule_constraints_hold [OF demo_one_reach demo_config d] show ?thesis by blast
qed

text \<open>
  C4: the preemption loop gives up running requests from the back of the queue only. It ends
  either with the slots it wanted, the asking request untouched, or by preempting the asking
  request itself last; every victim moves to the back of the waiting queue in that order.
\<close>

theorem preempt_loop_tail:
  assumes "sched_reach hsh it clk sc cc s" "config_ok sc cc" "enumerates it"
    and "preempt_loop hsh clk allow x n pre s = Inr (nb, pre', s')"
  shows "\<exists>victims. running s = running s' @ rev victims \<and> pre' = pre @ victims
    \<and> waiting s' = waiting s @ victims
    \<and> (nb = None \<longrightarrow> victims \<noteq> [] \<and> last victims = x) \<and> (nb \<noteq> None \<longrightarrow> x \<notin> set victims)"
  using preempt_loop_inv [OF assms(4)] sched_reach_inv [OF assms(1-3)] by (simp add: sched_inv_def)

definition demo_preempt :: "(nat list option \<times> ref list \<times> scheduler) result" where
  "demo_preempt = preempt_loop demo_hash demo_clk True 0 9 [] (snd demo_ran)"

lemma demo_preempt_self: "\<exists>s'. demo_preempt = Inr (None, [0], s')"
  by (simp add: demo_preempt_def demo_ran_def demo_one_def demo_idle_def sched_run kv_run demo_defs)

theorem preempt_loop_tail_witness:
  "\<exists>s'. demo_preempt = Inr (None, [0], s') \<and> running s' = [] \<and> waiting s' = [0]"
proof -
  from demo_preempt_self obtain s' where e: "demo_preempt = Inr (None, [0], s')" by blast
  from preempt_loop_tail [OF demo_ran_reach demo_config e [unfolded demo_preempt_def]]
  have "running s' = []" "waiting s' = [0]" by (auto simp: demo_ran_facts)
  with e show ?thesis by blast
qed

section \<open>Finishing requests\<close>

text \<open>
  C5: a step of \<open>update_from_output\<close> takes the stopped requests, and only them, out of both
  queues; every one is reported once, forgotten by \<open>requests\<close>, has given its blocks back and
  is announced to the workers through \<open>finished_req_ids\<close>.
\<close>

theorem update_from_output_stops:
  assumes "sched_reach hsh it clk sc cc s" "config_ok sc cc" "enumerates it"
    and "update_from_output it clk out mro s = Inr (outs, stopped, s')"
  shows "running s' = filter (\<lambda>x. request_id (heap s x) \<notin> set stopped) (running s)
    \<and> waiting s' = filter (\<lambda>x. request_id (heap s x) \<notin> set stopped) (waiting s)
    \<and> distinct stopped \<and> set stopped \<subseteq> finished_req_ids s'
    \<and> set stopped \<inter> dom (requests s') = {} \<and> set stopped \<inter> dom (req_to_blocks (kvm s')) = {}"
  using update_from_output_inv [OF _ assms(4)] sched_reach_inv [OF assms(1-3)] by simp

lemma demo_update:
  "\<exists>outs s'. update_from_output id demo_clk (fst demo_ran) demo_mro (snd demo_ran) = Inr (outs, [''a''], s')"
  by (simp add: demo_mro_def demo_ran_def demo_one_def demo_idle_def update_from_output_def update_request_def
      accept_token_def check_stop_def free_request_def is_finished_def status_is_finished_def output_token_ids_def
      append_output_token_ids_def dict_add_def sched_run kv_run demo_defs)

theorem update_from_output_stops_witness:
  "\<exists>outs s'. update_from_output id demo_clk (fst demo_ran) demo_mro (snd demo_ran) = Inr (outs, [''a''], s')
    \<and> ''a'' \<in> finished_req_ids s' \<and> requests s' ''a'' = None"
proof -
  from demo_update obtain outs s' where
    u: "update_from_output id demo_clk (fst demo_ran) demo_mro (snd demo_ran) = Inr (outs, [''a''], s')" by blast
  from update_from_output_stops [OF demo_ran_reach demo_config u]
  have "''a'' \<in> finished_req_ids s'" "requests s' ''a'' = None" by auto
  with u show ?thesis by blast
qed

text \<open>
  C6: \<open>finish_requests\<close> with a finished status never raises, whatever ids it is given: the
  unknown ones are skipped, the others leave the queues and the index and are announced.
\<close>

theorem finish_requests_total:
  assumes "sched_reach hsh it clk sc cc s" "config_ok sc cc" "enumerates it" "status_is_finished st"
  shows "\<exists>s'. finish_requests it clk rids st s = Inr s'
    \<and> dom (requests s') = dom (requests s) - set rids
    \<and> set rids \<inter> dom (requests s) \<subseteq> finished_req_ids s'
    \<and> running s' = filter (\<lambda>x. request_id (heap s x) \<notin> set rids) (running s)
    \<and> waiting s' = filter (\<lambda>x. request_id (heap s x) \<notin> set rids) (waiting s)"
  using finish_requests_inv [OF _ assms(4), of s it clk rids] sched_reach_inv [OF assms(1-3)] assms(3)
  unfolding enumerates_def by blast

theorem finish_requests_total_witness:
  "\<exists>s'. finish_requests id demo_clk [''a'', ''zz''] FINISHED_ABORTED (snd demo_ran) = Inr s'
    \<and> ''a'' \<notin> dom (requests s')"
  using finish_requests_total [OF demo_ran_reach demo_config, of FINISHED_ABORTED "[''a'', ''zz'']"]
  by (auto simp: status_is_finished_def)

text \<open>The three reasons to stop, in the order \<open>_check_stop\<close> tests them.\<close>

definition length_capped :: "scheduler \<Rightarrow> request \<Rightarrow> bool" where
  "length_capped s r \<longleftrightarrow> num_tokens r \<ge> max_model_len s \<or> num_output_tokens r \<ge> max_tokens r"

definition ends_with_eos :: "request \<Rightarrow> bool" where
  "ends_with_eos r \<longleftrightarrow> \<not> ignore_eos (sampling r) \<and> Some (last (output_token_ids r)) = eos_token_id r"

definition ends_with_stop :: "request \<Rightarrow> bool" where
  "ends_with_stop r \<longleftrightarrow>
     last (output_token_ids r) \<in> set (case stop_token_ids (sampling r) of None \<Rightarrow> [] | Some ts \<Rightarrow> ts)"

lemma free_tracked:
  assumes "sched_inv s" "requests s (request_id (heap s x)) = Some x"
    and "request_id (f (heap s x)) = request_id (heap s x)" "status_is_finished (req_status (f (heap s x)))"
  shows "\<exists>s'. free_request x (upd_req x f s) = Inr s' \<and> heap s' x = f (heap s x)
    \<and> requests s' = (requests s)(request_id (heap s x) := None)"
proof -
  from assms(1,2) have "core_inv (running s) (waiting s) s" "x \<in> set (running s @ waiting s)"
    by (auto simp: sched_inv_def core_inv_def)
  from free_request_inv [OF this, of f] assms(3,4) show ?thesis by auto
qed

text \<open>
  C7: once a token was appended, \<open>_check_stop\<close> never raises. It stops exactly when a length
  limit is hit, the last token is an honoured end-of-sequence, or it is a stop token; the order of
  the tests fixes the recorded status and stop reason, a stopped request is forgotten, and a
  request that goes on is left untouched.
\<close>

theorem check_stop_decides:
  assumes "sched_inv s" "requests s (request_id (heap s x)) = Some x" "output_token_ids (heap s x) \<noteq> []"
  shows "\<exists>stop s'. check_stop x s = Inr (stop, s')
    \<and> (stop \<longleftrightarrow> length_capped s (heap s x) \<or> ends_with_eos (heap s x) \<or> ends_with_stop (heap s x))
    \<and> (stop \<longrightarrow> requests s' = (requests s)(request_id (heap s x) := None)
         \<and> req_status (heap s' x) = (if length_capped s (heap s x) then FINISHED_LENGTH_CAPPED else FINISHED_STOPPED)
         \<and> stop_reason (heap s' x) = (if length_capped s (heap s x) \<or> ends_with_eos (heap s x)
              then stop_reason (heap s x) else Some (StopInt (last (output_token_ids (heap s x))))))
    \<and> (\<not> stop \<longrightarrow> s' = s)"
proof -
  note F = free_tracked [OF assms(1,2)]
  from F [of "\<lambda>r. r\<lparr>req_status := FINISHED_LENGTH_CAPPED\<rparr>"]
    F [of "\<lambda>r. r\<lparr>req_status := FINISHED_STOPPED\<rparr>"]
    F [of "\<lambda>r. r\<lparr>req_status := FINISHED_STOPPED, stop_reason := Some (StopInt (last (output_token_ids (heap s x))))\<rparr>"]
  show ?thesis using assms(3)
    by (auto simp: check_stop_def Let_def length_capped_def ends_with_eos_def ends_with_stop_def
        status_is_finished_def)
qed

definition demo_told :: scheduler where
  "demo_told = upd_req 0 (append_output_token_ids [0]) (snd demo_ran)"

lemma demo_told_inv: "sched_inv demo_told"
proof -
  have "same_core (snd demo_ran) demo_told"
    unfolding demo_told_def by (rule same_core_upd_req) (simp_all add: append_output_token_ids_def)
  with sched_reach_inv [OF demo_ran_reach demo_config] show ?thesis by (simp add: sched_inv_same_core)
qed

lemma demo_told_facts:
  "request_id (heap demo_told 0) = ''a''" "requests demo_told ''a'' = Some 0" "output_token_ids (heap demo_told 0) = [0]"
  "ends_with_eos (heap demo_told 0)"
  by (simp_all add: demo_told_def demo_ran_def demo_one_def demo_idle_def append_output_token_ids_def
      output_token_ids_def ends_with_eos_def sched_run kv_run demo_defs)

theorem check_stop_decides_witness:
  "\<exists>s'. check_stop 0 demo_told = Inr (True, s') \<and> requests s' ''a'' = None"
proof -
  from check_stop_decides [OF demo_told_inv, of 0] obtain s' where
    "check_stop 0 demo_told = Inr (True, s')" "requests s' = (requests demo_told)(''a'' := None)"
    by (auto simp: demo_told_facts)
  then show ?thesis by (auto simp del: fun_upd_apply simp: fun_upd_def)
qed

section \<open>Rescheduling\<close>


section \<open>Blocks held by the running requests\<close>

lemma table_uses_pos:
  assumes "finite (dom t)"
  shows "0 < table_uses t b \<longleftrightarrow> (\<exists>rid bs. t rid = Some bs \<and> b \<in> set bs)"
proof
  assume "0 < table_uses t b"
  then obtain rid where "rid \<in> dom t" "table_count t rid b \<noteq> 0"
    unfolding table_uses_def by (metis less_irrefl sum.not_neutral_contains_not_neutral)
  then obtain bs where "t rid = Some bs" "b \<in> set bs"
    by (auto simp: table_count_def count_list_0_iff)
  then show "\<exists>rid bs. t rid = Some bs \<and> b \<in> set bs" by blast
next
  assume "\<exists>rid bs. t rid = Some bs \<and> b \<in> set bs"
  then obtain rid bs where r: "t rid = Some bs" "b \<in> set bs" by blast
  then have "0 < table_count t rid b" by (simp add: table_count_def) (metis count_list_0_iff gr0I)
  also have "\<dots> \<le> table_uses t b"
    unfolding table_uses_def using assms r(1) by (intro member_le_sum) (auto simp: table_count_nonneg)
  finally show "0 < table_uses t b" .
qed

text \<open>
  C9: in every reachable state a free block belongs to no running request, so none is handed out
  while in use; and without prefix caching every block that belongs to no running request is free,
  so none is ever lost, whatever was preempted, swapped, aborted or finished before.
\<close>

theorem scheduler_no_block_lost:
  assumes "sched_reach hsh it clk sc cc s" "config_ok sc cc" "enumerates it"
  shows "\<exists>free. get_all_free_blocks (pool (kvm s), queue (kvm s)) = Some free \<and> distinct free
    \<and> (\<forall>b \<in> set free. \<forall>rid bs. req_to_blocks (kvm s) rid = Some bs \<longrightarrow> b \<notin> set bs)
    \<and> (\<not> enable_caching (kvm s) \<longrightarrow> (\<forall>b < num_gpu_blocks (kvm s). b \<in> set free
         \<or> (\<exists>x \<in> set (running s). \<exists>bs. req_to_blocks (kvm s) (request_id (heap s x)) = Some bs \<and> b \<in> set bs)))"
proof -
  from sched_reach_inv [OF assms] have ok: "kv_ok (kvm s)"
    and dom: "dom (req_to_blocks (kvm s)) = set (ids s (running s))"
    by (auto simp: sched_inv_def core_inv_def)
  then have fin: "finite (dom (req_to_blocks (kvm s)))" by simp
  from ok obtain free where free: "get_all_free_blocks (pool (kvm s), queue (kvm s)) = Some free" "distinct free"
    and set: "set free = {b. b < num_gpu_blocks (kvm s) \<and> ref_cnt (pool (kvm s) b) = 0}"
    and le: "\<And>b. b < num_gpu_blocks (kvm s) \<Longrightarrow> table_uses (req_to_blocks (kvm s)) b \<le> ref_cnt (pool (kvm s) b)"
    and eq: "\<And>b. b < num_gpu_blocks (kvm s) \<Longrightarrow> \<not> enable_caching (kvm s) \<Longrightarrow>
        ref_cnt (pool (kvm s) b) = table_uses (req_to_blocks (kvm s)) b"
    by (rule kv_ok_pool) blast
  have "b \<notin> set bs" if "b \<in> set free" "req_to_blocks (kvm s) rid = Some bs" for b rid bs
    using table_uses_pos [OF fin, of b] le [of b] set that by force
  moreover have "b \<in> set free \<or> (\<exists>x \<in> set (running s). \<exists>bs. req_to_blocks (kvm s) (request_id (heap s x)) = Some bs \<and> b \<in> set bs)"
    if nc: "\<not> enable_caching (kvm s)" and b: "b < num_gpu_blocks (kvm s)" for b
  proof (cases "ref_cnt (pool (kvm s) b) = 0")
    case False
    with eq [OF b nc] table_uses_nonneg [of "req_to_blocks (kvm s)" b] table_uses_pos [OF fin, of b]
    obtain rid bs where r: "req_to_blocks (kvm s) rid = Some bs" "b \<in> set bs" by auto
    with dom have "rid \<in> set (ids s (running s))" by blast
    with r show ?thesis by auto
  qed (use b set in simp)
  ultimately show ?thesis using free by blast
qed

theorem scheduler_no_block_lost_witness:
  "\<exists>free. get_all_free_blocks (pool (kvm (snd demo_ran)), queue (kvm (snd demo_ran))) = Some free \<and> distinct free
    \<and> (\<forall>b \<in> set free. \<forall>rid bs. req_to_blocks (kvm (snd demo_ran)) rid = Some bs \<longrightarrow> b \<notin> set bs)"
  using scheduler_no_block_lost [OF demo_ran_reach demo_config] by blast

end
