(* ===== verification/RequestProps.thy ===== *)
theory RequestProps
  imports Examples
begin

text \<open>
  The properties of requests, of the read-only token lists and of the encoder budget.
\<close>

section \<open>Encoder cache\<close>

text \<open>
  C20: allocating an input that is not cached and freeing it again restores the cache: the same
  entries and the same number of free slots, and in between the slot counter is the cache size
  minus the tokens of all cached inputs.
\<close>

theorem encoder_round_trip:
  assumes "slots_ok tok ec" "reports tok r" "\<not> has_cache r i ec"
    and "ec_allocate r i ec = Inr ec1" "ec_free r i ec1 = Inr ec2"
  shows "slots_ok tok ec1 \<and> num_free_slots ec1 = num_free_slots ec - tok (request_id r) i
    \<and> slots_ok tok ec2 \<and> entries ec2 = entries ec \<and> num_free_slots ec2 = num_free_slots ec"
proof -
  note A = ec_allocate_slots_ok [OF assms(1-4)]
  have h: "has_cache r i ec1" using A(2) by (simp add: has_cache_entries)
  note F = ec_free_slots_ok [OF A(1) assms(2) h assms(5)]
  have e: "entries ec2 = entries ec" using F(2) A(2) assms(3) by (auto simp: has_cache_entries)
  with A F assms(1,3) show ?thesis by (auto simp: slots_ok_def has_cache_entries)
qed

definition demo_image :: request where
  "demo_image = (demo_request ''a'' [1, 2, 3])\<lparr>mm_inputs := [Some 0], mm_positions := [\<lparr>offset = 1, range_length = 2\<rparr>]\<rparr>"

theorem encoder_round_trip_witness:
  "\<exists>ec1 ec2. ec_allocate demo_image 0 (encoder_cache_init 8) = Inr ec1 \<and> num_free_slots ec1 = 6
    \<and> ec_free demo_image 0 ec1 = Inr ec2 \<and> num_free_slots ec2 = 8"
proof -
  let ?tok = "\<lambda>rid i. 2 :: int"
  have r: "reports ?tok demo_image" by (simp add: reports_def demo_image_def)
  have n: "\<not> has_cache demo_image 0 (encoder_cache_init 8)" by (simp add: has_cache_def encoder_cache_init_def)
  obtain ec1 where a: "ec_allocate demo_image 0 (encoder_cache_init 8) = Inr ec1"
    by (simp add: ec_allocate_def get_num_encoder_tokens_def demo_image_def)
  obtain ec2 where f: "ec_free demo_image 0 ec1 = Inr ec2"
    using a by (cases "cached ec1 (request_id demo_image)")
      (auto simp: ec_free_def get_num_encoder_tokens_def demo_image_def Let_def)
  from encoder_round_trip [OF slots_ok_init r n a f] a f show ?thesis
    by (auto simp: encoder_cache_init_def)
qed

lemma encoder_inputs_loop_budget:
  assumes "encoder_inputs_loop r ec nc ps acc n budget = Inr (inputs, n', budget')"
    and "\<forall>(i, p) \<in> set ps. i < length (mm_positions r) \<and> p = mm_positions r ! i" "distinct (map fst ps)"
    and "set acc \<inter> fst ` set ps = {}" "distinct acc" "\<forall>i \<in> set acc. \<not> has_cache r i ec" "0 \<le> budget"
  shows "distinct inputs \<and> (\<forall>i \<in> set inputs. \<not> has_cache r i ec) \<and> n' \<le> n \<and> 0 \<le> budget'
    \<and> budget' = budget - (\<Sum>i \<leftarrow> drop (length acc) inputs. range_length (mm_positions r ! i))
    \<and> take (length acc) inputs = acc"
  using assms
proof (induction ps arbitrary: acc budget)
  case (Cons q ps)
  obtain i p where q: "q = (i, p)" by (cases q)
  show ?case
  proof (cases "offset p < nc + n \<and> \<not> offset p + range_length p \<le> nc \<and> \<not> has_cache r i ec")
    case True
    with Cons.prems(1) q obtain ok where ok: "can_allocate r i ec = Inr ok" by auto
    show ?thesis
    proof (cases "ok \<and> range_length p \<le> budget")
      case False
      with True ok Cons.prems q show ?thesis by (auto split: if_splits)
    next
      case go: True
      have "encoder_inputs_loop r ec nc ps (acc @ [i]) n (budget - range_length p) = Inr (inputs, n', budget')"
        using Cons.prems(1) True go ok q by simp
      from Cons.IH [OF this] Cons.prems(2-) q True go
      have I: "distinct inputs \<and> (\<forall>i \<in> set inputs. \<not> has_cache r i ec) \<and> n' \<le> n \<and> 0 \<le> budget'
        \<and> budget' = budget - range_length p - (\<Sum>i \<leftarrow> drop (Suc (length acc)) inputs. range_length (mm_positions r ! i))
        \<and> take (Suc (length acc)) inputs = acc @ [i]" by auto
      then obtain rest where "inputs = acc @ i # rest"
        by (metis append_take_drop_id append.assoc append_Cons append_Nil)
      then show ?thesis using I Cons.prems(2) q by simp
    qed
  next
    case False
    with Cons.prems q Cons.IH [of acc budget] show ?thesis by (auto split: if_splits)
  qed
qed auto

text \<open>
  C21: \<open>_try_schedule_encoder_inputs\<close> picks each input at most once, only inputs that are not
  cached yet, charges exactly their tokens to the encoder budget, never overdraws it, and never
  schedules more decoder tokens than it was asked for.
\<close>

theorem encoder_budget_respected:
  assumes "try_schedule_encoder_inputs r nc n budget ec = Inr (inputs, n', budget')" "0 \<le> budget"
  shows "distinct inputs \<and> (\<forall>i \<in> set inputs. \<not> has_cache r i ec) \<and> n' \<le> n \<and> 0 \<le> budget'
    \<and> budget' = budget - (\<Sum>i \<leftarrow> inputs. range_length (mm_positions r ! i))"
proof (cases "has_encoder_inputs r")
  case True
  with assms(1) have l: "encoder_inputs_loop r ec nc (zip [0..<length (mm_positions r)] (mm_positions r)) [] n budget
      = Inr (inputs, n', budget')"
    by (auto simp: try_schedule_encoder_inputs_def)
  have "\<forall>(i, p) \<in> set (zip [0..<length (mm_positions r)] (mm_positions r)). i < length (mm_positions r) \<and> p = mm_positions r ! i"
    by (auto simp: set_zip)
  from encoder_inputs_loop_budget [OF l this] assms(2) show ?thesis by simp
qed (use assms in \<open>auto simp: try_schedule_encoder_inputs_def\<close>)

lemma demo_image_inputs:
  "try_schedule_encoder_inputs demo_image 0 3 8 (encoder_cache_init 8) = Inr ([0], 3, 6)"
  by (simp add: try_schedule_encoder_inputs_def has_encoder_inputs_def demo_image_def demo_request_def can_allocate_def
      get_num_encoder_tokens_def has_cache_def encoder_cache_init_def upt_rec)

theorem encoder_budget_respected_witness:
  "try_schedule_encoder_inputs demo_image 0 3 8 (encoder_cache_init 8) = Inr ([0], 3, 6)
    \<and> (6::int) = 8 - (\<Sum>i \<leftarrow> [0]. range_length (mm_positions demo_image ! i))"
  using encoder_budget_respected [OF demo_image_inputs] demo_image_inputs by simp

section \<open>Token lists\<close>

text \<open>
  \<open>ConstantList.index\<close> returns \<open>k\<close> exactly when position \<open>k\<close> of the list holds the item,
  lies in the searched window, and is the first such position there.
\<close>

theorem constant_list_index:
  "cl_index (ConstantList xs) x start stop = Inr k \<longleftrightarrow>
     (let a = norm_bound (int (length xs)) start;
          b = norm_bound (int (length xs)) (case stop of None \<Rightarrow> int (length xs) | Some e \<Rightarrow> e)
      in a \<le> k \<and> k < b \<and> k < length xs \<and> xs ! k = x \<and> (\<forall>l. a \<le> l \<and> l < k \<longrightarrow> xs ! l \<noteq> x))"
proof -
  define a where "a = norm_bound (int (length xs)) start"
  define b where "b = norm_bound (int (length xs)) (case stop of None \<Rightarrow> int (length xs) | Some e \<Rightarrow> e)"
  have "(\<exists>j < length xs - a. k = a + j \<and> k < b \<and> xs ! (a + j) = x \<and> (\<forall>l < j. xs ! (a + l) \<noteq> x)) \<longleftrightarrow>
      a \<le> k \<and> k < b \<and> k < length xs \<and> xs ! k = x \<and> (\<forall>l. a \<le> l \<and> l < k \<longrightarrow> xs ! l \<noteq> x)" (is "?L = ?R")
  proof
    assume ?L
    then obtain j where j: "j < length xs - a" "k = a + j" "k < b" "xs ! k = x" "\<forall>l < j. xs ! (a + l) \<noteq> x" by auto
    then have "xs ! l \<noteq> x" if "a \<le> l" "l < k" for l using that by (metis le_Suc_ex nat_add_left_cancel_less)
    with j show ?R by auto
  next
    assume R: ?R
    then have "\<forall>l < k - a. xs ! (a + l) \<noteq> x" by auto
    with R show ?L by (intro exI [of _ "k - a"]) auto
  qed
  then show ?thesis by (simp add: Let_def index_from_Inr a_def [symmetric] b_def [symmetric] nth_drop add.commute cong: conj_cong)
qed

theorem constant_list_index_witness:
  "cl_index (ConstantList [5, 7, 7 :: int]) 7 (-2) None = Inr 1"
  unfolding constant_list_index by (auto simp: norm_bound_def less_Suc_eq)

end
