(* ===== verification/LRUCache.thy ===== *)
theory LRUCache
  imports Prelude
begin

text \<open>
  \<^verbatim>\<open>src/vllm/utils.py\<close>, class \<open>LRUCache\<close>: a bounded dictionary that evicts the least
  recently used entry that is not pinned.

  The \<open>OrderedDict\<close> is an association list, oldest entry first. The capacity is a size, so a
  natural number. The hook \<open>_on_remove\<close> does nothing in this class.
\<close>

section \<open>Operations\<close>

record ('k, 'v) lru_cache =
  lru_items :: "('k \<times> 'v) list"
  pinned_items :: "'k set"
  lru_capacity :: nat

definition lru_init :: "nat \<Rightarrow> ('k, 'v) lru_cache" where
  "lru_init cap = \<lparr>lru_items = [], pinned_items = {}, lru_capacity = cap\<rparr>"

definition lru_contains :: "'k \<Rightarrow> ('k, 'v) lru_cache \<Rightarrow> bool" where
  "lru_contains k c \<longleftrightarrow> k \<in> fst ` set (lru_items c)"

definition lru_len :: "('k, 'v) lru_cache \<Rightarrow> nat" where
  "lru_len c = length (lru_items c)"

definition lru_touch :: "'k \<Rightarrow> ('k, 'v) lru_cache \<Rightarrow> ('k, 'v) lru_cache result" where
  "lru_touch k c =
     (case map_of (lru_items c) k of
        None \<Rightarrow> Inl KeyError
      | Some v \<Rightarrow> Inr (c\<lparr>lru_items := dict_pop k (lru_items c) @ [(k, v)]\<rparr>))"

definition lru_getitem :: "'k \<Rightarrow> ('k, 'v) lru_cache \<Rightarrow> ('v \<times> ('k, 'v) lru_cache) result" where
  "lru_getitem k c =
     (case map_of (lru_items c) k of
        None \<Rightarrow> Inl KeyError
      | Some v \<Rightarrow> andthen (lru_touch k c) (\<lambda>c. Inr (v, c)))"

definition lru_get :: "'k \<Rightarrow> 'v option \<Rightarrow> ('k, 'v) lru_cache \<Rightarrow> 'v option \<times> ('k, 'v) lru_cache" where
  "lru_get k dflt c =
     (case map_of (lru_items c) k of
        None \<Rightarrow> (dflt, c)
      | Some v \<Rightarrow> (Some v, c\<lparr>lru_items := dict_pop k (lru_items c) @ [(k, v)]\<rparr>))"

definition lru_pop :: "'k \<Rightarrow> 'v option \<Rightarrow> ('k, 'v) lru_cache \<Rightarrow> 'v option \<times> ('k, 'v) lru_cache" where
  "lru_pop k dflt c =
     (case map_of (lru_items c) k of None \<Rightarrow> dflt | Some v \<Rightarrow> Some v,
      c\<lparr>lru_items := dict_pop k (lru_items c), pinned_items := pinned_items c - {k}\<rparr>)"

definition remove_oldest :: "bool \<Rightarrow> ('k, 'v) lru_cache \<Rightarrow> ('k, 'v) lru_cache result" where
  "remove_oldest remove_pinned c =
     (case lru_items c of
        [] \<Rightarrow> Inr c
      | (k0, _) # _ \<Rightarrow>
          if remove_pinned then Inr (snd (lru_pop k0 None c))
          else
            (case filter (\<lambda>(k, _). k \<notin> pinned_items c) (lru_items c) of
               [] \<Rightarrow> Inl RuntimeError
             | (k, _) # _ \<Rightarrow> Inr (snd (lru_pop k None c))))"

lemma length_dict_pop_less: "k \<in> fst ` set d \<Longrightarrow> length (dict_pop k d) < length d"
  unfolding dict_pop_def by (auto intro: length_filter_less)

lemma remove_oldest_shrinks:
  assumes "remove_oldest rp c = Inr c'" "lru_items c \<noteq> []"
  shows "length (lru_items c') < length (lru_items c)"
proof -
  from assms obtain k where "k \<in> fst ` set (lru_items c)" "c' = snd (lru_pop k None c)"
    by (auto simp: remove_oldest_def image_iff dest!: filter_eq_ConsD split: list.splits if_splits)
       (metis fst_conv in_set_conv_decomp)+
  then show ?thesis by (simp add: lru_pop_def length_dict_pop_less)
qed

text \<open>The two \<^verbatim>\<open>while\<close> loops.\<close>

function remove_old_if_needed :: "('k, 'v) lru_cache \<Rightarrow> ('k, 'v) lru_cache result" where
  "remove_old_if_needed c =
     (if length (lru_items c) > lru_capacity c
      then andthen (remove_oldest False c) (\<lambda>c. remove_old_if_needed c)
      else Inr c)"
  by pat_completeness auto
termination
  by (relation "measure (\<lambda>c. length (lru_items c))") (auto dest: remove_oldest_shrinks)

function lru_clear_loop :: "('k, 'v) lru_cache \<Rightarrow> ('k, 'v) lru_cache result" where
  "lru_clear_loop c =
     (if length (lru_items c) > 0
      then andthen (remove_oldest True c) (\<lambda>c. lru_clear_loop c)
      else Inr c)"
  by pat_completeness auto
termination
  by (relation "measure (\<lambda>c. length (lru_items c))") (auto dest: remove_oldest_shrinks)

declare remove_old_if_needed.simps [simp del] lru_clear_loop.simps [simp del]

definition lru_put :: "'k \<Rightarrow> 'v \<Rightarrow> ('k, 'v) lru_cache \<Rightarrow> ('k, 'v) lru_cache result" where
  "lru_put k v c = remove_old_if_needed (c\<lparr>lru_items := dict_pop k (lru_items c) @ [(k, v)]\<rparr>)"

definition lru_pin :: "'k \<Rightarrow> ('k, 'v) lru_cache \<Rightarrow> ('k, 'v) lru_cache result" where
  "lru_pin k c =
     (if \<not> lru_contains k c then Inl ValueError else Inr (c\<lparr>pinned_items := insert k (pinned_items c)\<rparr>))"

definition lru_clear :: "('k, 'v) lru_cache \<Rightarrow> ('k, 'v) lru_cache result" where
  "lru_clear c = andthen (lru_clear_loop c) (\<lambda>c. Inr (c\<lparr>lru_items := []\<rparr>))"

section \<open>Invariant and behaviour\<close>

text \<open>Keys are unique, pinned keys are cached, the size is bounded.\<close>

definition lru_ok :: "('k, 'v) lru_cache \<Rightarrow> bool" where
  "lru_ok c \<longleftrightarrow> distinct (map fst (lru_items c)) \<and> pinned_items c \<subseteq> fst ` set (lru_items c)
     \<and> length (lru_items c) \<le> lru_capacity c"

lemma lru_ok_init: "lru_ok (lru_init cap)"
  by (simp add: lru_ok_def lru_init_def)

lemma keys_dict_pop: "fst ` set (dict_pop k d) = fst ` set d - {k}"
  by (auto simp: dict_pop_def image_iff)

lemma dict_pop_absent: "k \<notin> fst ` set d \<Longrightarrow> dict_pop k d = d"
  by (auto simp: dict_pop_def filter_id_conv image_iff)

lemma dict_pop_Cons [simp]: "distinct (k # map fst d) \<Longrightarrow> dict_pop k ((k, v) # d) = d"
  using dict_pop_absent [of k d] by (simp add: dict_pop_def)

lemma length_dict_pop: "distinct (map fst d) \<Longrightarrow> k \<in> fst ` set d \<Longrightarrow> Suc (length (dict_pop k d)) = length d"
proof (induction d)
  case (Cons p d)
  obtain k' v where p: "p = (k', v)" by (cases p)
  show ?case
  proof (cases "k' = k")
    case True
    with Cons.prems p show ?thesis using dict_pop_Cons [of k d v] by simp
  next
    case False
    with Cons p show ?thesis by (simp add: dict_pop_def)
  qed
qed simp

lemma lru_get_ok:
  assumes "lru_ok c"
  shows "lru_ok (snd (lru_get k dflt c))" "fst (lru_get k dflt c) = (case map_of (lru_items c) k of None \<Rightarrow> dflt | Some v \<Rightarrow> Some v)"
    "pinned_items (snd (lru_get k dflt c)) = pinned_items c" "map_of (lru_items (snd (lru_get k dflt c))) = map_of (lru_items c)"
proof -
  have l: "Suc (length (dict_pop k (lru_items c))) = length (lru_items c)" if "map_of (lru_items c) k = Some v" for v
    using assms that by (intro length_dict_pop) (auto simp: lru_ok_def dest: map_of_SomeD intro: rev_image_eqI)
  show "lru_ok (snd (lru_get k dflt c))"
  proof (cases "map_of (lru_items c) k")
    case (Some v)
    with assms l [OF Some] show ?thesis
      by (auto simp: lru_get_def lru_ok_def keys_dict_pop distinct_dict_pop simp flip: set_map)
         (auto simp: keys_dict_pop dest: map_of_SomeD)
  qed (use assms in \<open>simp add: lru_get_def\<close>)
  show "map_of (lru_items (snd (lru_get k dflt c))) = map_of (lru_items c)"
    by (auto simp: lru_get_def fun_eq_iff map_add_def split: option.splits)
qed (auto simp: lru_get_def split: option.splits)

text \<open>
  Insertion into a cache without pinned entries: the new entry becomes the newest, and the oldest
  one is dropped when the cache was full.
\<close>

lemma remove_old_unpinned:
  assumes "distinct (map fst (lru_items c))" "pinned_items c = {}"
  shows "remove_old_if_needed c = Inr (c\<lparr>lru_items := drop (length (lru_items c) - lru_capacity c) (lru_items c)\<rparr>)"
  using assms
proof (induction "length (lru_items c)" arbitrary: c rule: less_induct)
  case less
  show ?case
  proof (cases "length (lru_items c) > lru_capacity c")
    case True
    then obtain k v d where d: "lru_items c = (k, v) # d" by (cases "lru_items c") auto
    let ?c = "c\<lparr>lru_items := d\<rparr>"
    have "remove_oldest False c = Inr ?c"
      using d less.prems by (simp add: remove_oldest_def lru_pop_def)
    moreover have "remove_old_if_needed ?c = Inr (?c\<lparr>lru_items := drop (length (lru_items ?c) - lru_capacity ?c) (lru_items ?c)\<rparr>)"
      using less d by simp
    ultimately show ?thesis
      using True d by (subst remove_old_if_needed.simps) (simp add: Suc_diff_le)
  next
    case False
    then show ?thesis by (subst remove_old_if_needed.simps) simp
  qed
qed

lemma lru_put_unpinned:
  assumes "lru_ok c" "pinned_items c = {}"
  shows "lru_put k v c = Inr (c\<lparr>lru_items :=
    drop (Suc (length (dict_pop k (lru_items c))) - lru_capacity c) (dict_pop k (lru_items c) @ [(k, v)])\<rparr>)"
proof -
  have "distinct (map fst (dict_pop k (lru_items c) @ [(k, v)]))"
    using assms(1) keys_dict_pop [of k "lru_items c"] by (simp add: lru_ok_def distinct_dict_pop)
  from remove_old_unpinned [of "c\<lparr>lru_items := dict_pop k (lru_items c) @ [(k, v)]\<rparr>"] this assms(2)
  show ?thesis by (simp add: lru_put_def)
qed

lemma lru_put_ok:
  assumes "lru_ok c" "pinned_items c = {}"
  obtains c' where "lru_put k v c = Inr c'" "lru_ok c'" "pinned_items c' = {}" "lru_capacity c' = lru_capacity c"
proof -
  define d where "d = dict_pop k (lru_items c) @ [(k, v)]"
  have "distinct (map fst d)"
    using assms(1) keys_dict_pop [of k "lru_items c"] by (simp add: d_def lru_ok_def distinct_dict_pop)
  then have "distinct (map fst (drop n d))" for n by (metis distinct_drop drop_map)
  moreover have e: "lru_put k v c = Inr (c\<lparr>lru_items := drop (length d - lru_capacity c) d\<rparr>)"
    using lru_put_unpinned [OF assms] by (simp add: d_def)
  ultimately show thesis using assms(2) by (intro that [OF e]) (auto simp: lru_ok_def)
qed

end
