(* ===== verification/MMInputMapper.thy ===== *)
theory MMInputMapper
  imports LRUCache Request
begin

text \<open>
  \<^verbatim>\<open>src/vllm/v1/engine/mm_input_mapper.py\<close>: the multi-modal preprocessor cache, kept twice.
  The client (frontend process) maps an input once and sends it along only when its hash is not
  cached; the server (engine core) keeps the same cache and fills in what was not sent.

  The mapper itself, \<open>multi_modal_input_mapper\<close>, and the image hash \<open>blake3\<close> are parameters. The
  debugging counter \<open>mm_debug_cache_hit_ratio_steps\<close> is \<open>None\<close> in the source and only logs.
\<close>

section \<open>Client and server\<close>

type_synonym mm_cache = "(string, mm_kwargs) lru_cache"

definition MM_CACHE_SIZE :: nat where
  "MM_CACHE_SIZE = 256"

record mapper_client =
  client_use_cache :: bool
  client_cache :: mm_cache
  mm_cache_hits :: nat
  mm_cache_total :: nat

record mapper_server =
  server_use_cache :: bool
  server_cache :: mm_cache

definition mapper_client_init :: "bool \<Rightarrow> mapper_client" where
  "mapper_client_init disable =
     \<lparr>client_use_cache = (\<not> disable), client_cache = lru_init MM_CACHE_SIZE,
      mm_cache_hits = 0, mm_cache_total = 0\<rparr>"

definition mapper_server_init :: "bool \<Rightarrow> mapper_server" where
  "mapper_server_init disable =
     \<lparr>server_use_cache = (\<not> disable), server_cache = lru_init MM_CACHE_SIZE\<rparr>"

text \<open>
  One iteration of the client's loop: \<open>fetch\<close> is the precomputed input or the mapper's result
  for this input, which is only computed on a miss.
\<close>

definition client_input ::
  "(nat \<Rightarrow> mm_kwargs result) \<Rightarrow> string list option \<Rightarrow> nat \<Rightarrow> mapper_client
   \<Rightarrow> (mm_kwargs option \<times> mapper_client) result" where
  "client_input fetch hashes i c =
     andthen
       (if client_use_cache c then
          (case hashes of
             None \<Rightarrow> Inl AssertionError
           | Some hs \<Rightarrow>
               if i < length hs
               then let (v, cache) = lru_get (hs ! i) None (client_cache c)
                    in Inr (v, c\<lparr>client_cache := cache\<rparr>)
               else Inl IndexError)
        else Inr (None, c))
       (\<lambda>(hit, c).
          let c = c\<lparr>mm_cache_total := mm_cache_total c + 1\<rparr> in
          (case hit of
             None \<Rightarrow>
               andthen (fetch i) (\<lambda>v.
               andthen
                 (if client_use_cache c
                  then (case hashes of
                          None \<Rightarrow> Inl AssertionError
                        | Some hs \<Rightarrow> lru_put (hs ! i) v (client_cache c))
                  else Inr (client_cache c))
                 (\<lambda>cache. Inr (Some v, c\<lparr>client_cache := cache\<rparr>)))
           | Some _ \<Rightarrow> Inr (None, c\<lparr>mm_cache_hits := mm_cache_hits c + 1\<rparr>)))"

fun client_inputs ::
  "(nat \<Rightarrow> mm_kwargs result) \<Rightarrow> string list option \<Rightarrow> nat list \<Rightarrow> mapper_client
   \<Rightarrow> (mm_kwargs option list \<times> mapper_client) result" where
  "client_inputs fetch hashes [] c = Inr ([], c)"
| "client_inputs fetch hashes (i # is') c =
     andthen (client_input fetch hashes i c) (\<lambda>(v, c).
     andthen (client_inputs fetch hashes is' c) (\<lambda>(vs, c). Inr (v # vs, c)))"

text \<open>
  \<open>MMInputMapperClient.process_inputs\<close>; \<open>image_inputs\<close> is \<^verbatim>\<open>mm_data["image"]\<close> as a list, and
  \<open>None\<close> when that key is absent.
\<close>

definition client_process_inputs ::
  "('img \<Rightarrow> mm_kwargs) \<Rightarrow> 'img list option \<Rightarrow> string list option \<Rightarrow> mm_kwargs list option \<Rightarrow> mapper_client
   \<Rightarrow> (mm_kwargs option list \<times> mapper_client) result" where
  "client_process_inputs mapper image_inputs hashes precomputed c =
     andthen
       (case precomputed of
          None \<Rightarrow> (case image_inputs of None \<Rightarrow> Inl KeyError | Some imgs \<Rightarrow> Inr (length imgs))
        | Some ps \<Rightarrow> Inr (length ps))
       (\<lambda>n.
     andthen
       (if client_use_cache c then
          (case hashes of None \<Rightarrow> Inl AssertionError | Some hs \<Rightarrow> py_assert (n = length hs))
        else Inr ())
       (\<lambda>_. client_inputs
              (\<lambda>i. case precomputed of
                     Some ps \<Rightarrow> Inr (ps ! i)
                   | None \<Rightarrow> Inr (mapper (the image_inputs ! i)))
              hashes [0..<n] c))"

definition server_input ::
  "mm_kwargs option \<times> string \<Rightarrow> mapper_server \<Rightarrow> (mm_kwargs \<times> mapper_server) result" where
  "server_input = (\<lambda>(v, h) s.
     (case v of
        None \<Rightarrow>
          (case lru_get h None (server_cache s) of
             (None, _) \<Rightarrow> Inl AssertionError
           | (Some w, cache) \<Rightarrow> Inr (w, s\<lparr>server_cache := cache\<rparr>))
      | Some w \<Rightarrow>
          andthen (lru_put h w (server_cache s)) (\<lambda>cache. Inr (w, s\<lparr>server_cache := cache\<rparr>))))"

fun server_inputs ::
  "(mm_kwargs option \<times> string) list \<Rightarrow> mapper_server \<Rightarrow> (mm_kwargs list \<times> mapper_server) result" where
  "server_inputs [] s = Inr ([], s)"
| "server_inputs (p # ps) s =
     andthen (server_input p s) (\<lambda>(v, s).
     andthen (server_inputs ps s) (\<lambda>(vs, s). Inr (v # vs, s)))"

definition server_process_inputs ::
  "mm_kwargs option list \<Rightarrow> string list \<Rightarrow> mapper_server \<Rightarrow> (mm_kwargs option list \<times> mapper_server) result" where
  "server_process_inputs inputs hashes s =
     andthen (py_assert (length inputs = length hashes)) (\<lambda>_.
       if \<not> server_use_cache s then Inr (inputs, s)
       else andthen (server_inputs (zip inputs hashes) s) (\<lambda>(vs, s). Inr (map Some vs, s)))"

section \<open>Image hashes\<close>

text \<open>\<open>hash_images\<close>: a single image counts as a list of one; \<open>tobytes\<close> and \<open>blake3\<close> are the parameter.\<close>

definition hash_images :: "('img \<Rightarrow> string) \<Rightarrow> 'img list \<Rightarrow> string list result" where
  "hash_images blake3 imgs =
     andthen (py_assert (length imgs > 0)) (\<lambda>_. Inr (map blake3 imgs))"

definition hash_prompt_mm_data :: "('img \<Rightarrow> string) \<Rightarrow> 'img list option option \<Rightarrow> string list option result" where
  "hash_prompt_mm_data blake3 mm_data =
     (case mm_data of
        None \<Rightarrow> Inr None
      | Some None \<Rightarrow> Inl KeyError
      | Some (Some imgs) \<Rightarrow> andthen (hash_images blake3 imgs) (\<lambda>hs. Inr (Some hs)))"

section \<open>The mirror\<close>

text \<open>
  What both sides need of their cache: a lookup that a fruitless \<open>get\<close> leaves alone, and a
  \<open>put\<close> that does not raise. Two equal caches then stay equal when the client's loop runs on
  one and the server's on the other, and the server ends up with the inputs themselves.
\<close>

locale mirrored_cache =
  fixes ok :: "'c \<Rightarrow> bool"
    and get :: "'k \<Rightarrow> 'c \<Rightarrow> 'v option \<times> 'c"
    and put :: "'k \<Rightarrow> 'v \<Rightarrow> 'c \<Rightarrow> 'c result"
  assumes get_ok: "ok c \<Longrightarrow> ok (snd (get k c))"
    and get_miss: "fst (get k c) = None \<Longrightarrow> snd (get k c) = c"
    and put_ok: "ok c \<Longrightarrow> \<exists>c'. put k v c = Inr c' \<and> ok c'"
begin

definition send :: "'k \<Rightarrow> 'v \<Rightarrow> 'c \<Rightarrow> ('v option \<times> 'c) result" where
  "send k v c = (case get k c of
     (None, c) \<Rightarrow> andthen (put k v c) (\<lambda>c. Inr (Some v, c))
   | (Some _, c) \<Rightarrow> Inr (None, c))"

definition receive :: "'k \<Rightarrow> 'v option \<Rightarrow> 'c \<Rightarrow> ('v \<times> 'c) result" where
  "receive k m c = (case m of
     None \<Rightarrow> (case get k c of (None, _) \<Rightarrow> Inl AssertionError | (Some v, c) \<Rightarrow> Inr (v, c))
   | Some v \<Rightarrow> andthen (put k v c) (\<lambda>c. Inr (v, c)))"

lemma send_receive:
  assumes "ok c"
  shows "\<exists>m c'. send k v c = Inr (m, c') \<and> ok c'
    \<and> receive k m c = Inr (case fst (get k c) of None \<Rightarrow> v | Some w \<Rightarrow> w, c')"
proof (cases "get k c")
  case (Pair h c1)
  show ?thesis
  proof (cases h)
    case None
    with Pair get_miss [of k c] have "c1 = c" by simp
    moreover obtain c' where "put k v c = Inr c'" "ok c'" using put_ok [OF assms] by blast
    ultimately show ?thesis using None Pair by (simp add: send_def receive_def)
  next
    case (Some w)
    then show ?thesis using Pair get_ok [OF assms, of k] by (simp add: send_def receive_def)
  qed
qed

end

abbreviation plain_lru :: "(string, mm_kwargs) lru_cache \<Rightarrow> bool" where
  "plain_lru c \<equiv> lru_ok c \<and> pinned_items c = {}"

interpretation mm: mirrored_cache plain_lru "\<lambda>k. lru_get k None" lru_put
proof unfold_locales
  fix c :: mm_cache and k v
  show "plain_lru c \<Longrightarrow> plain_lru (snd (lru_get k None c))" using lru_get_ok(1,3) [of c k None] by simp
  show "fst (lru_get k None c) = None \<Longrightarrow> snd (lru_get k None c) = c"
    by (auto simp: lru_get_def split: option.splits)
  show "plain_lru c \<Longrightarrow> \<exists>c'. lru_put k v c = Inr c' \<and> plain_lru c'"
    using lru_put_ok [of c k v] by metis
qed

text \<open>The loop bodies of the source are these two operations, with the counters around them.\<close>

lemma client_input_send:
  assumes "client_use_cache c" "i < length hs" "fetch i = Inr v" "mm.send (hs ! i) v (client_cache c) = Inr (m, cache)"
  shows "\<exists>c'. client_input fetch (Some hs) i c = Inr (m, c') \<and> client_cache c' = cache \<and> client_use_cache c'"
  using assms by (auto simp: client_input_def mm.send_def Let_def split: prod.splits option.splits)

lemma server_input_receive:
  "server_input (m, h) s = andthen (mm.receive h m (server_cache s)) (\<lambda>(v, cache). Inr (v, s\<lparr>server_cache := cache\<rparr>))"
proof (cases m)
  case None
  then show ?thesis by (simp add: server_input_def mm.receive_def split: prod.split option.split)
next
  case (Some v)
  then show ?thesis by (cases "lru_put h v (server_cache s)") (simp_all add: server_input_def mm.receive_def)
qed

text \<open>\<open>val\<close> gives the input that belongs to a hash; every cached value is the one of its hash.\<close>

definition mm_consistent :: "(string \<Rightarrow> mm_kwargs) \<Rightarrow> mm_cache \<Rightarrow> bool" where
  "mm_consistent val c \<longleftrightarrow> (\<forall>(h, v) \<in> set (lru_items c). v = val h)"

lemma mm_consistent_get: "mm_consistent val c \<Longrightarrow> mm_consistent val (snd (lru_get k None c))"
  by (auto simp: mm_consistent_def lru_get_def dict_pop_def split: option.splits dest: map_of_SomeD)

lemma mm_consistent_hit: "mm_consistent val c \<Longrightarrow> fst (lru_get k None c) = Some v \<Longrightarrow> v = val k"
  by (auto simp: mm_consistent_def lru_get_def split: option.splits dest: map_of_SomeD)

lemma mm_consistent_put:
  assumes "mm_consistent val c" "plain_lru c" "lru_put k (val k) c = Inr c'"
  shows "mm_consistent val c'"
proof -
  from lru_put_unpinned [of c k "val k"] assms(2,3)
  have "set (lru_items c') \<subseteq> set (dict_pop k (lru_items c) @ [(k, val k)])"
    using set_drop_subset by fastforce
  then show ?thesis using assms(1) by (fastforce simp: mm_consistent_def dict_pop_def)
qed

lemma mirror_step:
  assumes "plain_lru c" "mm_consistent val c"
  shows "\<exists>m c'. mm.send k (val k) c = Inr (m, c') \<and> mm.receive k m c = Inr (val k, c')
    \<and> plain_lru c' \<and> mm_consistent val c'"
proof -
  from mm.send_receive [OF assms(1), of k "val k"] obtain m c' where
    s: "mm.send k (val k) c = Inr (m, c')" "plain_lru c'"
      "mm.receive k m c = Inr (case fst (lru_get k None c) of None \<Rightarrow> val k | Some w \<Rightarrow> w, c')" by blast
  moreover have "(case fst (lru_get k None c) of None \<Rightarrow> val k | Some w \<Rightarrow> w) = val k"
    using mm_consistent_hit [OF assms(2)] by (auto split: option.splits)
  moreover have "mm_consistent val c'"
    using s(1) mm_consistent_get [OF assms(2), of k] mm_consistent_put [OF assms(2,1), of k] mm.get_miss [of k c]
    by (auto simp: mm.send_def split: prod.splits option.splits)
  ultimately show ?thesis by auto
qed

lemma mirror_loop:
  assumes "plain_lru (client_cache c)" "mm_consistent val (client_cache c)" "client_use_cache c"
    and "server_cache s = client_cache c" "\<forall>i \<in> set js. i < length hs \<and> fetch i = Inr (val (hs ! i))"
  shows "\<exists>ms c' s'. client_inputs fetch (Some hs) js c = Inr (ms, c')
    \<and> server_inputs (zip ms (map ((!) hs) js)) s = Inr (map (\<lambda>i. val (hs ! i)) js, s') \<and> length ms = length js
    \<and> server_cache s' = client_cache c' \<and> plain_lru (client_cache c') \<and> mm_consistent val (client_cache c')"
  using assms
proof (induction js arbitrary: c s)
  case (Cons i js)
  from mirror_step [OF Cons.prems(1,2), of "hs ! i"] obtain m cache where
    m: "mm.send (hs ! i) (val (hs ! i)) (client_cache c) = Inr (m, cache)"
       "mm.receive (hs ! i) m (client_cache c) = Inr (val (hs ! i), cache)" "plain_lru cache" "mm_consistent val cache" by blast
  from client_input_send [OF Cons.prems(3) _ _ m(1)] Cons.prems(5) obtain c1 where
    c1: "client_input fetch (Some hs) i c = Inr (m, c1)" "client_cache c1 = cache" "client_use_cache c1" by auto
  let ?s1 = "s\<lparr>server_cache := cache\<rparr>"
  have s1: "server_input (m, hs ! i) s = Inr (val (hs ! i), ?s1)"
    using m(2) Cons.prems(4) by (simp add: server_input_receive)
  from Cons.IH [of c1 ?s1] c1 m(3,4) Cons.prems(5) obtain ms c' s' where
    "client_inputs fetch (Some hs) js c1 = Inr (ms, c')" "length ms = length js"
    "server_inputs (zip ms (map ((!) hs) js)) ?s1 = Inr (map (\<lambda>i. val (hs ! i)) js, s')"
    "server_cache s' = client_cache c'" "plain_lru (client_cache c')" "mm_consistent val (client_cache c')" by auto
  with c1(1) s1 show ?case by simp
qed simp

end
