(* ===== verification/EngineCore.thy ===== *)
theory EngineCore
  imports SchedulerMachine MMInputMapper
begin

text \<open>
  \<^verbatim>\<open>src/vllm/v1/engine/core.py\<close>: the engine core, which owns the scheduler, starts model
  executions, and overlaps the scheduling of the next batch with the execution of the current one.

  The executor process is seen through the messages exchanged with it. \<open>exec_log\<close> is what the
  core has sent, \<open>pending_execs\<close> the executions that were started and whose results have not been
  fetched; the result itself is an argument of the step, since the worker computes it. Fetching
  from an empty result queue waits for ever, which is \<open>None\<close>: the operations that fetch return an
  \<open>option\<close> of a result. The timers only read a clock and are left out, as is the swap bandwidth
  computed from one; the counters of the observability record are kept.
\<close>

section \<open>State\<close>

datatype exec_command =
    ExecInitialize int int | ExecInitSwapper int
  | ExecSwap "(nat \<times> nat) list" "(nat \<times> nat) list"
  | ExecStart scheduler_output | ExecProfile bool | ExecShutdown

record observability =
  obs_scheduler_counter :: int
  obs_blocks_swap_in :: nat
  obs_blocks_swap_out :: nat

record engine_stats =
  st_running :: nat
  st_waiting :: nat
  st_swapped :: nat
  st_total_waiting :: nat
  st_gpu_usage :: rat
  st_cpu_usage :: rat

datatype client_request =
    CoreRequest engine_core_request | CoreProfile bool | CoreStats | CoreTimeRecord | CoreAbort "req_id list"

datatype output_item =
    OutStats engine_stats | OutPair "engine_core_output list" "observability option" | OutPlain "engine_core_output list"

record engine_core =
  ec_sched :: scheduler
  scheduler_output_prev :: "scheduler_output option"
  prev_lookahead :: bool
  mm_server :: mapper_server
  exec_log :: "exec_command list"
  pending_execs :: "scheduler_output list"
  need_collection :: bool
  last_logging_time :: time
  output_queue :: "output_item list"

type_synonym 'a io = "'a result option"

definition io_then :: "'a io \<Rightarrow> ('a \<Rightarrow> 'b io) \<Rightarrow> 'b io" where
  "io_then r f = (case r of None \<Rightarrow> None | Some (Inl e) \<Rightarrow> Some (Inl e) | Some (Inr x) \<Rightarrow> f x)"

lemma io_then_simps [simp]:
  "io_then None f = None" "io_then (Some (Inl e)) f = Some (Inl e)" "io_then (Some (Inr x)) f = f x"
  by (simp_all add: io_then_def)

lemma io_then_Inr [simp]:
  "io_then r f = Some (Inr y) \<longleftrightarrow> (\<exists>x. r = Some (Inr x) \<and> f x = Some (Inr y))"
  by (auto simp: io_then_def split: option.splits sum.splits)

lemma io_then_None [simp]:
  "io_then r f = None \<longleftrightarrow> r = None \<or> (\<exists>x. r = Some (Inr x) \<and> f x = None)"
  by (auto simp: io_then_def split: option.splits sum.splits)

section \<open>Construction\<close>

text \<open>
  \<open>avail\<close> is what the executor's profiling run reports; the pair returned has the number of blocks
  that are used and the command that was sent.
\<close>

definition initialize_kv_caches :: "int option \<Rightarrow> int \<times> int \<Rightarrow> ((int \<times> int) \<times> exec_command) result" where
  "initialize_kv_caches override avail =
     (let (num_gpu, num_cpu) = avail in
      andthen
        (case override of
           None \<Rightarrow> Inr num_gpu
         | Some ov \<Rightarrow> andthen (py_assert (num_gpu \<ge> ov)) (\<lambda>_. Inr ov))
        (\<lambda>num_gpu. Inr ((num_gpu, num_cpu), ExecInitialize num_gpu num_cpu)))"

definition engine_init ::
  "string \<Rightarrow> bool \<Rightarrow> int option \<Rightarrow> int \<times> int \<Rightarrow> scheduler_config \<Rightarrow> cache_config \<Rightarrow> bool \<Rightarrow> bool \<Rightarrow> bool \<Rightarrow> time
   \<Rightarrow> (ref \<Rightarrow> request) \<Rightarrow> (ref \<Rightarrow> running_request_data) \<Rightarrow> engine_core result" where
  "engine_init runner_type process_executor override avail sc cc lora disable_mm collect now hp dh =
     andthen (py_assert (runner_type \<noteq> ''pooling'')) (\<lambda>_.
     andthen (py_assert process_executor) (\<lambda>_.
     andthen (initialize_kv_caches override avail) (\<lambda>((num_gpu, num_cpu), cmd).
     let cc = cc\<lparr>cc_num_gpu_blocks := Some num_gpu, cc_num_cpu_blocks := Some num_cpu\<rparr> in
     andthen (scheduler_init sc cc lora hp dh) (\<lambda>s.
       Inr \<lparr>ec_sched = s, scheduler_output_prev = None, prev_lookahead = False,
            mm_server = mapper_server_init disable_mm, exec_log = [cmd, ExecInitSwapper num_cpu],
            pending_execs = [], need_collection = collect, last_logging_time = now, output_queue = []\<rparr>))))"

section \<open>Requests\<close>

text \<open>\<open>x\<close> is the address of the new \<open>Request\<close> object.\<close>

definition engine_add_request ::
  "clock \<Rightarrow> ref \<Rightarrow> engine_core_request \<Rightarrow> engine_core \<Rightarrow> engine_core result" where
  "engine_add_request clk x er e =
     andthen
       (case ecr_mm_hashes er of
          None \<Rightarrow> Inr (er, e)
        | Some hs \<Rightarrow>
            (case ecr_mm_inputs er of
               None \<Rightarrow> Inl AssertionError
             | Some ins \<Rightarrow>
                 andthen (server_process_inputs ins hs (mm_server e)) (\<lambda>(ins, srv).
                   Inr (er\<lparr>ecr_mm_inputs := Some ins\<rparr>, e\<lparr>mm_server := srv\<rparr>))))
       (\<lambda>(er, e).
          andthen (from_engine_core_request er) (\<lambda>r.
            let s = ec_sched e
            in Inr (e\<lparr>ec_sched := add_request clk x (s\<lparr>heap := (heap s)(x := r)\<rparr>)\<rparr>)))"

section \<open>A step\<close>

definition has_unfinished_executions :: "engine_core \<Rightarrow> bool" where
  "has_unfinished_executions e =
     (case scheduler_output_prev e of None \<Rightarrow> False | Some out \<Rightarrow> total_num_scheduled_tokens out > 0)"

text \<open>\<^verbatim>\<open>queue_out_execute_model.get()\<close>: one result is taken, or the core waits for ever.\<close>

definition queue_get :: "engine_core \<Rightarrow> engine_core io" where
  "queue_get e =
     (case pending_execs e of [] \<Rightarrow> None | _ # ps \<Rightarrow> Some (Inr (e\<lparr>pending_execs := ps\<rparr>)))"

text \<open>The predicted counters do not allow another lookahead: the running step is finished first.\<close>

definition drain_before_schedule ::
  "(req_id list \<Rightarrow> req_id list) \<Rightarrow> clock \<Rightarrow> model_runner_output \<Rightarrow> engine_core
   \<Rightarrow> (engine_core_output list \<times> bool \<times> engine_core) io" where
  "drain_before_schedule it clk mro e =
     (case scheduler_output_prev e of
        Some out \<Rightarrow>
          if has_unfinished_executions e \<and> has_pending_lookahead_outputs (ec_sched e)
          then io_then (queue_get e) (\<lambda>e.
               io_then (Some (update_from_output it clk out mro (ec_sched e))) (\<lambda>(outs, _, s).
                 Some (Inr (outs, False,
                   e\<lparr>ec_sched := s, scheduler_output_prev := None, prev_lookahead := False\<rparr>))))
          else Some (Inr ([], has_unfinished_executions e, e))
      | None \<Rightarrow> Some (Inr ([], False, e)))"

definition schedule_phase ::
  "hash_fun \<Rightarrow> clock \<Rightarrow> bool \<Rightarrow> engine_core \<Rightarrow> (scheduler_output option \<times> engine_core) result" where
  "schedule_phase hsh clk executing e =
     (if has_unfinished_requests (ec_sched e)
      then andthen (schedule hsh clk executing (ec_sched e)) (\<lambda>(out, s). Inr (Some out, e\<lparr>ec_sched := s\<rparr>))
      else Inr (None, e))"

text \<open>
  The swaps are ordered from the executor and taken out of the output; the source writes \<open>None\<close>
  into the two fields, which nothing reads afterwards, and the model the empty list.
\<close>

definition swap_phase ::
  "scheduler_output option \<Rightarrow> engine_core \<Rightarrow> scheduler_output option \<times> (nat \<times> nat) \<times> engine_core" where
  "swap_phase out e =
     (case out of
        None \<Rightarrow> (None, (0, 0), e)
      | Some o' \<Rightarrow>
          if length (blocks_to_swap_in o') > 0 \<or> length (blocks_to_swap_out o') > 0
          then (Some (o'\<lparr>blocks_to_swap_in := [], blocks_to_swap_out := []\<rparr>),
                (length (blocks_to_swap_in o'), length (blocks_to_swap_out o')),
                e\<lparr>exec_log := exec_log e @ [ExecSwap (blocks_to_swap_in o') (blocks_to_swap_out o')]\<rparr>)
          else (Some o', (0, 0), e))"

definition finish_phase ::
  "(req_id list \<Rightarrow> req_id list) \<Rightarrow> clock \<Rightarrow> model_runner_output \<Rightarrow> bool \<Rightarrow> engine_core_output list
   \<Rightarrow> scheduler_output option \<Rightarrow> engine_core \<Rightarrow> (engine_core_output list \<times> engine_core) io" where
  "finish_phase it clk mro executing outs out e =
     (if executing
      then io_then (queue_get e) (\<lambda>e.
           case scheduler_output_prev e of
             None \<Rightarrow> Some (Inl AttributeError)
           | Some prev \<Rightarrow>
               io_then (Some (update_from_output it clk prev mro (ec_sched e))) (\<lambda>(outs, stopped, s).
                 Some (Inr (outs,
                   e\<lparr>ec_sched := s,
                     scheduler_output_prev :=
                       (case out of None \<Rightarrow> None | Some o' \<Rightarrow> Some (reschedule s o' (set stopped))),
                     prev_lookahead := True\<rparr>))))
      else Some (Inr (outs, e\<lparr>scheduler_output_prev := out, prev_lookahead := False\<rparr>)))"

definition launch :: "engine_core \<Rightarrow> engine_core" where
  "launch e =
     (case scheduler_output_prev e of
        None \<Rightarrow> e
      | Some out \<Rightarrow>
          if total_num_scheduled_tokens out > 0
          then e\<lparr>pending_execs := pending_execs e @ [out], exec_log := exec_log e @ [ExecStart out]\<rparr>
          else e)"

definition step ::
  "hash_fun \<Rightarrow> (req_id list \<Rightarrow> req_id list) \<Rightarrow> clock \<Rightarrow> model_runner_output \<Rightarrow> engine_core
   \<Rightarrow> ((engine_core_output list \<times> observability option) \<times> engine_core) io" where
  "step hsh it clk mro e =
     io_then (drain_before_schedule it clk mro e) (\<lambda>(outs, executing, e).
     io_then (Some (schedule_phase hsh clk executing e)) (\<lambda>(out, e).
     let (out, (n_in, n_out), e) = swap_phase out e in
     io_then (finish_phase it clk mro executing outs out e) (\<lambda>(outs, e).
     let e = launch e in
       Some (Inr ((outs,
         if need_collection e
         then Some \<lparr>obs_scheduler_counter = schedule_counter (ec_sched e),
                    obs_blocks_swap_in = n_in, obs_blocks_swap_out = n_out\<rparr>
         else None), e)))))"

section \<open>Queries and client messages\<close>

definition get_stats :: "engine_core \<Rightarrow> engine_stats result" where
  "get_stats e =
     (let s = ec_sched e in
      andthen (get_kv_caches_usage (kvm s)) (\<lambda>(gpu, cpu).
        Inr \<lparr>st_running = get_running_len s, st_waiting = get_waiting_len s,
             st_swapped = get_swapped_len s, st_total_waiting = get_total_waiting s,
             st_gpu_usage = gpu, st_cpu_usage = cpu\<rparr>))"

definition core_get_time_record :: "engine_core \<Rightarrow> engine_stats result" where
  "core_get_time_record e = get_stats e"

definition profile :: "bool \<Rightarrow> engine_core \<Rightarrow> engine_core" where
  "profile is_start e = e\<lparr>exec_log := exec_log e @ [ExecProfile is_start]\<rparr>"

definition shutdown :: "engine_core \<Rightarrow> engine_core" where
  "shutdown e = e\<lparr>exec_log := exec_log e @ [ExecShutdown]\<rparr>"

text \<open>The class has no \<open>abort_requests\<close>: the attribute lookup raises.\<close>

definition handle_client_request ::
  "clock \<Rightarrow> ref \<times> client_request \<Rightarrow> engine_core \<Rightarrow> engine_core result" where
  "handle_client_request clk = (\<lambda>(x, req) e.
     (case req of
        CoreRequest er \<Rightarrow> engine_add_request clk x er e
      | CoreProfile b \<Rightarrow> Inr (profile b e)
      | CoreStats \<Rightarrow> andthen (get_stats e) (\<lambda>st. Inr (e\<lparr>output_queue := output_queue e @ [OutStats st]\<rparr>))
      | CoreTimeRecord \<Rightarrow>
          andthen (core_get_time_record e) (\<lambda>st. Inr (e\<lparr>output_queue := output_queue e @ [OutStats st]\<rparr>))
      | CoreAbort _ \<Rightarrow> Inl AttributeError))"

definition LOGGING_TIME_S :: int where
  "LOGGING_TIME_S = 5000 div 1000"

definition log_stats :: "time \<Rightarrow> engine_core \<Rightarrow> engine_core result" where
  "log_stats now e =
     (if now - last_logging_time e > of_int LOGGING_TIME_S
      then andthen (get_kv_caches_usage (kvm (ec_sched e))) (\<lambda>_. Inr (e\<lparr>last_logging_time := now\<rparr>))
      else Inr e)"

text \<open>
  One round of the busy loop, with the messages that are in the input queue. Without work and
  without messages the round is a timeout of the poll.
\<close>

definition busy_iteration ::
  "hash_fun \<Rightarrow> (req_id list \<Rightarrow> req_id list) \<Rightarrow> clock \<Rightarrow> model_runner_output \<Rightarrow> time \<Rightarrow> (ref \<times> client_request) list
   \<Rightarrow> engine_core \<Rightarrow> engine_core io" where
  "busy_iteration hsh it clk mro now msgs e =
     (if \<not> has_unfinished_requests (ec_sched e) \<and> msgs = [] then Some (log_stats now e)
      else
        io_then (Some (fold_result (handle_client_request clk) msgs e)) (\<lambda>e.
        io_then
          (if has_unfinished_requests (ec_sched e)
           then io_then (step hsh it clk mro e) (\<lambda>((outs, obs), e).
                  Some (Inr (e\<lparr>output_queue := output_queue e
                    @ [if need_collection e then OutPair outs obs else OutPlain outs]\<rparr>)))
           else Some (Inr e))
          (\<lambda>e. Some (log_stats now e))))"

section \<open>Socket threads\<close>

text \<open>
  The frames of \<open>EngineCoreRequestType\<close>, where \<open>TIME_RECORD\<close> has the value of \<open>STATS\<close>; the unpickled
  payload is a parameter.
\<close>

datatype request_type = ADD | ABORT | PROFILE | STATS | TIME_RECORD

fun request_type_value :: "request_type \<Rightarrow> nat" where
  "request_type_value ADD = 0"
| "request_type_value ABORT = 1"
| "request_type_value PROFILE = 2"
| "request_type_value STATS = 3"
| "request_type_value TIME_RECORD = 3"

definition process_input_frame :: "('d \<Rightarrow> client_request) \<Rightarrow> nat \<Rightarrow> 'd \<Rightarrow> client_request result" where
  "process_input_frame unpickle ty data =
     (if ty = request_type_value ADD \<or> ty = request_type_value ABORT
         \<or> ty = request_type_value PROFILE \<or> ty = request_type_value STATS
      then Inr (unpickle data) else Inl ValueError)"

datatype out_socket = SocketOutputs | SocketStats

datatype out_message =
    StatsMessage engine_stats | OutputsMessage "engine_core_output list" "observability option"

definition process_output_item :: "output_item \<Rightarrow> out_socket \<times> out_message" where
  "process_output_item item =
     (case item of
        OutStats st \<Rightarrow> (SocketStats, StatsMessage st)
      | OutPair outs obs \<Rightarrow> (SocketOutputs, OutputsMessage outs obs)
      | OutPlain outs \<Rightarrow> (SocketOutputs, OutputsMessage outs None))"

end
