(* ===== verification/EngineInv.thy ===== *)
theory EngineInv
  imports EngineCore
begin

text \<open>
  The invariant of the engine core: the scheduler's own invariant, one started execution exactly
  when the previous output has tokens, and every request of that output still tracked. It is kept
  by every message and by every step, and it is why a step never waits for a result that nobody
  computes.
\<close>

section \<open>The invariant\<close>

definition tracked :: "scheduler \<Rightarrow> scheduler_output \<Rightarrow> bool" where
  "tracked s out \<longleftrightarrow> set (map fst (num_scheduled_tokens out)) \<subseteq> dom (requests s)"

definition sched_good :: "scheduler \<Rightarrow> bool" where
  "sched_good s \<longleftrightarrow> sched_inv s \<and> 0 \<le> max_num_scheduled_tokens s"

definition engine_inv :: "engine_core \<Rightarrow> bool" where
  "engine_inv e \<longleftrightarrow> sched_good (ec_sched e)
     \<and> pending_execs e = (if has_unfinished_executions e then [the (scheduler_output_prev e)] else [])
     \<and> (\<forall>out. scheduler_output_prev e = Some out \<longrightarrow> tracked (ec_sched e) out)"

text \<open>Between the phases of a step: \<open>executing\<close> says that a result is still to be fetched.\<close>

definition mid_inv :: "bool \<Rightarrow> engine_core \<Rightarrow> bool" where
  "mid_inv executing e \<longleftrightarrow> sched_good (ec_sched e)
     \<and> (if executing then \<exists>out. scheduler_output_prev e = Some out \<and> pending_execs e = [out]
        else pending_execs e = [])"

definition out_ok :: "scheduler \<Rightarrow> scheduler_output option \<Rightarrow> bool" where
  "out_ok s out \<longleftrightarrow> (\<forall>o'. out = Some o' \<longrightarrow> tracked s o')"

lemma tracked_swap [simp]: "tracked s (out\<lparr>blocks_to_swap_in := xs, blocks_to_swap_out := ys\<rparr>) = tracked s out"
  by (simp add: tracked_def)

lemma tracked_mono: "tracked s out \<Longrightarrow> dom (requests s) \<subseteq> dom (requests s') \<Longrightarrow> tracked s' out"
  unfolding tracked_def by (rule subset_trans)

lemma has_unfinished_executions_Some:
  "has_unfinished_executions e \<Longrightarrow> \<exists>out. scheduler_output_prev e = Some out"
  by (auto simp: has_unfinished_executions_def split: option.splits)

lemma update_good:
  assumes "sched_good s" "update_from_output it clk out mro s = Inr (outs, stopped, s')"
  shows "sched_good s' \<and> dom (requests s') = dom (requests s) - set stopped"
  using update_from_output_inv(1,8,9) [OF _ assms(2)] assms(1) by (simp add: sched_good_def)

lemma schedule_good:
  assumes "sched_good s" "schedule hsh clk la s = Inr (out, s')"
  shows "sched_good s' \<and> tracked s' out"
proof -
  have i: "sched_inv s" "0 \<le> max_num_scheduled_tokens s" using assms(1) by (simp_all add: sched_good_def)
  note S = schedule_inv [OF i assms(2)]
  then have "core_inv (running s') (waiting s') s'" by (simp add: sched_inv_def)
  then have "set (ids s' (running s')) \<subseteq> dom (requests s')" using core_inv_dom by auto
  with S i show ?thesis by (simp add: sched_good_def tracked_def)
qed

lemma tracked_reschedule:
  assumes "tracked s out" "dom (requests s') = dom (requests s) - A"
  shows "tracked s' (reschedule s' out A)"
  using assms by (auto simp: tracked_def reschedule_def Let_def)

section \<open>The phases of a step\<close>

lemma drain_inv:
  assumes "engine_inv e"
  shows "drain_before_schedule it clk mro e \<noteq> None"
    and "drain_before_schedule it clk mro e = Some (Inr (outs, executing, e')) \<Longrightarrow> mid_inv executing e'"
proof -
  have q: "\<exists>out. scheduler_output_prev e = Some out \<and> queue_get e = Some (Inr (e\<lparr>pending_execs := []\<rparr>))"
    if "has_unfinished_executions e"
    using assms that by (auto simp: engine_inv_def queue_get_def dest: has_unfinished_executions_Some)
  show "drain_before_schedule it clk mro e \<noteq> None"
    using q by (auto simp: drain_before_schedule_def iff del: not_None_eq split: option.splits)
  show "mid_inv executing e'" if d: "drain_before_schedule it clk mro e = Some (Inr (outs, executing, e'))"
  proof (cases "has_unfinished_executions e \<and> has_pending_lookahead_outputs (ec_sched e)")
    case True
    with q d show ?thesis using assms update_good
      by (auto simp: drain_before_schedule_def mid_inv_def engine_inv_def)
  next
    case False
    with d assms show ?thesis
      by (auto simp: drain_before_schedule_def mid_inv_def engine_inv_def split: option.splits
          dest: has_unfinished_executions_Some)
  qed
qed

lemma schedule_phase_inv:
  assumes "mid_inv executing e" "schedule_phase hsh clk executing e = Inr (out, e')"
  shows "mid_inv executing e' \<and> out_ok (ec_sched e') out"
  using assms schedule_good by (auto simp: schedule_phase_def mid_inv_def out_ok_def split: if_splits)

lemma swap_phase_inv:
  assumes "mid_inv executing e" "out_ok (ec_sched e) out" "swap_phase out e = (out', n, e')"
  shows "mid_inv executing e' \<and> out_ok (ec_sched e') out'"
  using assms by (auto simp: swap_phase_def mid_inv_def out_ok_def split: option.splits if_splits)

lemma finish_phase_inv:
  assumes "mid_inv executing e" "out_ok (ec_sched e) out"
  shows "finish_phase it clk mro executing outs out e \<noteq> None"
    and "finish_phase it clk mro executing outs out e = Some (Inr (outs', e')) \<Longrightarrow>
      sched_good (ec_sched e') \<and> pending_execs e' = [] \<and> out_ok (ec_sched e') (scheduler_output_prev e')"
proof -
  have q: "\<exists>prev. scheduler_output_prev e = Some prev \<and> queue_get e = Some (Inr (e\<lparr>pending_execs := []\<rparr>))" if executing
    using assms(1) that by (auto simp: mid_inv_def queue_get_def)
  show "finish_phase it clk mro executing outs out e \<noteq> None"
    using q by (auto simp: finish_phase_def iff del: not_None_eq)
  show "sched_good (ec_sched e') \<and> pending_execs e' = [] \<and> out_ok (ec_sched e') (scheduler_output_prev e')"
    if f: "finish_phase it clk mro executing outs out e = Some (Inr (outs', e'))"
  proof (cases executing)
    case True
    with q f obtain prev stopped s where u: "update_from_output it clk prev mro (ec_sched e) = Inr (outs', stopped, s)"
      and e'_def: "e' = e\<lparr>pending_execs := [], ec_sched := s, scheduler_output_prev :=
          (case out of None \<Rightarrow> None | Some o' \<Rightarrow> Some (reschedule s o' (set stopped))), prev_lookahead := True\<rparr>"
      by (auto simp: finish_phase_def)
    then have e': "ec_sched e' = s" "pending_execs e' = []"
      "scheduler_output_prev e' = (case out of None \<Rightarrow> None | Some o' \<Rightarrow> Some (reschedule s o' (set stopped)))"
      by simp_all
    from update_good [OF _ u] assms(1) have "sched_good s \<and> dom (requests s) = dom (requests (ec_sched e)) - set stopped"
      by (simp add: mid_inv_def)
    with e' assms(2) show ?thesis by (auto simp: out_ok_def tracked_reschedule split: option.splits)
  next
    case False
    with f assms show ?thesis by (auto simp: finish_phase_def mid_inv_def)
  qed
qed

lemma launch_inv:
  assumes "sched_good (ec_sched e)" "pending_execs e = []" "out_ok (ec_sched e) (scheduler_output_prev e)"
  shows "engine_inv (launch e)"
  using assms by (auto simp: launch_def engine_inv_def out_ok_def has_unfinished_executions_def split: option.splits)

lemma step_inv:
  assumes "engine_inv e"
  shows "step hsh it clk mro e \<noteq> None"
    and "step hsh it clk mro e = Some (Inr (r, e')) \<Longrightarrow> engine_inv e'"
proof -
  note D = drain_inv [OF assms, of it clk mro]
  let ?w = "\<lambda>out e. fst (swap_phase out e)" and ?z = "\<lambda>out e. snd (snd (swap_phase out e))"
  have F: "finish_phase it clk mro ex outs (?w out0 e0) (?z out0 e0) \<noteq> None"
    "finish_phase it clk mro ex outs (?w out0 e0) (?z out0 e0) = Some (Inr (outs', e3)) \<Longrightarrow> engine_inv (launch e3)"
    if "drain_before_schedule it clk mro e = Some (Inr (outs, ex, e1))" "schedule_phase hsh clk ex e1 = Inr (out0, e0)"
    for outs ex e1 out0 e0 outs' e3
  proof -
    have m: "mid_inv ex e0 \<and> out_ok (ec_sched e0) out0" using schedule_phase_inv [OF D(2) [OF that(1)] that(2)] .
    then have M: "mid_inv ex (?z out0 e0)" "out_ok (ec_sched (?z out0 e0)) (?w out0 e0)"
      using swap_phase_inv [of ex e0 out0 "?w out0 e0" "fst (snd (swap_phase out0 e0))"] by simp_all
    show "finish_phase it clk mro ex outs (?w out0 e0) (?z out0 e0) \<noteq> None"
      using finish_phase_inv(1) [OF M] .
    show "engine_inv (launch e3)" if "finish_phase it clk mro ex outs (?w out0 e0) (?z out0 e0) = Some (Inr (outs', e3))"
      using finish_phase_inv(2) [OF M that] launch_inv by blast
  qed
  show "step hsh it clk mro e \<noteq> None"
    using D(1) F(1) by (auto simp: step_def Let_def split_def iff del: not_None_eq)
  show "engine_inv e'" if "step hsh it clk mro e = Some (Inr (r, e'))"
    using that F(2) by (auto simp: step_def Let_def split_def)
qed

section \<open>Messages\<close>

text \<open>
  What the frontend guarantees of a new request: its id is not in use, and the new object is not
  one of those the scheduler holds.
\<close>

definition fresh_message :: "ref \<times> client_request \<Rightarrow> engine_core \<Rightarrow> bool" where
  "fresh_message = (\<lambda>(x, req) e.
     (case req of
        CoreRequest er \<Rightarrow> x \<notin> set (running (ec_sched e) @ waiting (ec_sched e))
          \<and> ecr_request_id er \<notin> dom (requests (ec_sched e))
      | _ \<Rightarrow> True))"

lemma engine_inv_frame:
  assumes "engine_inv e" "sched_good (ec_sched e')" "dom (requests (ec_sched e)) \<subseteq> dom (requests (ec_sched e'))"
    "scheduler_output_prev e' = scheduler_output_prev e" "pending_execs e' = pending_execs e"
  shows "engine_inv e'"
  using assms tracked_mono by (auto simp: engine_inv_def has_unfinished_executions_def)

lemma engine_add_request_inv:
  assumes i: "engine_inv e" and f: "fresh_message (x, CoreRequest er) e" and a: "engine_add_request clk x er e = Inr e'"
  shows "engine_inv e'"
proof -
  let ?s = "ec_sched e"
  from a obtain er' r srv where r: "from_engine_core_request er' = Inr r" "ecr_request_id er' = ecr_request_id er"
    and e': "e' = e\<lparr>mm_server := srv, ec_sched := add_request clk x (?s\<lparr>heap := (heap ?s)(x := r)\<rparr>)\<rparr>"
    by (auto simp: engine_add_request_def Let_def split: option.splits) (metis engine_core.surjective engine_core.update_convs(4))
  have "request_id r = ecr_request_id er"
    using r by (auto simp: from_engine_core_request_def request_init_def split: option.splits)
  moreover have "dom (requests ?s) = set (ids ?s (running ?s @ waiting ?s))"
    using i core_inv_dom by (simp add: engine_inv_def sched_good_def sched_inv_def)
  ultimately have "sched_step (\<lambda>_ _. 0) id clk ?s (ec_sched e')"
    using f step_add [OF r(1), of x ?s] by (auto simp: fresh_message_def e')
  from sched_step_inv [OF this] i have "sched_good (ec_sched e')"
    by (simp add: engine_inv_def sched_good_def enumerates_def)
  then show ?thesis
    by (rule engine_inv_frame [OF i]) (auto simp: e' add_request_def Let_def log_event_def)
qed

lemma handle_client_request_inv:
  assumes i: "engine_inv e" and f: "fresh_message m e" and h: "handle_client_request clk m e = Inr e'"
  shows "engine_inv e'"
proof (cases m)
  case (Pair x req)
  show ?thesis
  proof (cases req)
    case (CoreRequest er)
    with f h Pair show ?thesis
      by (intro engine_add_request_inv [OF i, of x er]) (simp_all add: handle_client_request_def)
  qed (use h Pair i in \<open>auto simp: handle_client_request_def profile_def engine_inv_def has_unfinished_executions_def\<close>)
qed

lemma log_stats_inv: "engine_inv e \<Longrightarrow> log_stats now e = Inr e' \<Longrightarrow> engine_inv e'"
  by (auto simp: log_stats_def engine_inv_def has_unfinished_executions_def split: if_splits)

end
