(* ===== verification/EngineProps.thy ===== *)
theory EngineProps
  imports EngineInv Examples
begin

text \<open>
  The properties of the engine core as a state machine: messages from the frontend, steps and
  logging in any order from the constructor.
\<close>

section \<open>Reachable engine states\<close>

inductive engine_reach ::
  "hash_fun \<Rightarrow> (req_id list \<Rightarrow> req_id list) \<Rightarrow> clock \<Rightarrow> scheduler_config \<Rightarrow> cache_config \<Rightarrow> engine_core \<Rightarrow> bool"
  for hsh :: hash_fun and it :: "req_id list \<Rightarrow> req_id list" and clk :: clock
    and sc :: scheduler_config and cc :: cache_config where
  engine_start: "engine_init rt pe override avail sc cc lora dis coll now hp dh = Inr e \<Longrightarrow> engine_reach hsh it clk sc cc e"
| engine_message: "\<lbrakk>engine_reach hsh it clk sc cc e; fresh_message m e; handle_client_request clk m e = Inr e'\<rbrakk> \<Longrightarrow>
    engine_reach hsh it clk sc cc e'"
| engine_step: "\<lbrakk>engine_reach hsh it clk sc cc e; step hsh it clk mro e = Some (Inr (r, e'))\<rbrakk> \<Longrightarrow>
    engine_reach hsh it clk sc cc e'"
| engine_log: "\<lbrakk>engine_reach hsh it clk sc cc e; log_stats now e = Inr e'\<rbrakk> \<Longrightarrow> engine_reach hsh it clk sc cc e'"

lemma engine_init_inv:
  assumes "engine_init rt pe override avail sc cc lora dis coll now hp dh = Inr e" "config_ok sc cc"
  shows "engine_inv e"
proof -
  from assms(1) obtain ng nc s where "scheduler_init sc (cc\<lparr>cc_num_gpu_blocks := Some ng, cc_num_cpu_blocks := Some nc\<rparr>) lora hp dh = Inr s"
    and e: "ec_sched e = s" "scheduler_output_prev e = None" "pending_execs e = []"
    by (auto simp: engine_init_def Let_def)
  from scheduler_init_inv(1,2) [OF this(1)] assms(2) have "sched_good s"
    by (simp add: sched_good_def config_ok_def)
  with e show ?thesis by (simp add: engine_inv_def has_unfinished_executions_def)
qed

lemma engine_reach_inv:
  assumes "engine_reach hsh it clk sc cc e" "config_ok sc cc"
  shows "engine_inv e"
  using assms
proof (induction rule: engine_reach.induct)
  case (engine_start rt pe override avail lora dis coll now hp dh e)
  then show ?case using engine_init_inv by blast
qed (use handle_client_request_inv step_inv(2) log_stats_inv in blast)+

section \<open>Properties\<close>

text \<open>
  C23: a step never waits for ever. Whenever it fetches a result from the executor, an
  execution that will deliver one has been started, whatever the executor delivers and however
  messages and steps are interleaved.
\<close>

theorem engine_step_never_waits:
  assumes "engine_reach hsh it clk sc cc e" "config_ok sc cc"
  shows "\<exists>r. step hsh it clk mro e = Some r"
  using step_inv(1) [OF engine_reach_inv [OF assms]] by auto

text \<open>
  C24: in every reachable state exactly the previous scheduler output is being executed, if it
  has tokens; so a result is always applied to the output it was computed from. Every request of
  that output is still known to the scheduler, whose own invariant holds.
\<close>

theorem engine_executes_previous_output:
  assumes "engine_reach hsh it clk sc cc e" "config_ok sc cc"
  shows "sched_inv (ec_sched e)
    \<and> pending_execs e = (case scheduler_output_prev e of
        Some out \<Rightarrow> if total_num_scheduled_tokens out > 0 then [out] else [] | None \<Rightarrow> [])
    \<and> (\<forall>out. scheduler_output_prev e = Some out \<longrightarrow>
         fst ` set (num_scheduled_tokens out) \<subseteq> dom (requests (ec_sched e)))"
  using engine_reach_inv [OF assms]
  by (auto simp: engine_inv_def sched_good_def tracked_def has_unfinished_executions_def split: option.splits)

text \<open>An engine with the small configuration, one request, and its first step.\<close>

definition demo_engine :: engine_core where
  "demo_engine = projr (engine_init ''generate'' True None (2, 4) demo_sc demo_cc False False False 0
     (\<lambda>_. demo_request '''' []) demo_data)"

lemma demo_engine_init:
  "engine_init ''generate'' True None (2, 4) demo_sc demo_cc False False False 0 (\<lambda>_. demo_request '''' []) demo_data
     = Inr demo_engine"
  "ec_sched demo_engine = demo_idle" "scheduler_output_prev demo_engine = None" "pending_execs demo_engine = []"
proof -
  have cc: "demo_cc\<lparr>cc_num_gpu_blocks := Some 2, cc_num_cpu_blocks := Some 4\<rparr> = demo_cc" by (simp add: demo_cc_def)
  show "engine_init ''generate'' True None (2, 4) demo_sc demo_cc False False False 0 (\<lambda>_. demo_request '''' []) demo_data
     = Inr demo_engine"
    by (simp add: demo_engine_def engine_init_def initialize_kv_caches_def py_assert_def cc demo_idle_init)
  show "ec_sched demo_engine = demo_idle" "scheduler_output_prev demo_engine = None" "pending_execs demo_engine = []"
    by (simp_all add: demo_engine_def engine_init_def initialize_kv_caches_def py_assert_def cc demo_idle_init)
qed

definition demo_busy :: engine_core where
  "demo_busy = demo_engine\<lparr>ec_sched := demo_one\<rparr>"

lemma demo_busy_reach: "engine_reach demo_hash id demo_clk demo_sc demo_cc demo_busy"
proof -
  have "handle_client_request demo_clk (0, CoreRequest (demo_core_request ''a'' [1, 2, 3])) demo_engine = Inr demo_busy"
    using demo_request_init [of "''a''" "[1, 2, 3]"]
    by (simp add: handle_client_request_def engine_add_request_def demo_core_request_def demo_busy_def demo_one_def
        demo_engine_init(2))
  moreover have "fresh_message (0, CoreRequest (demo_core_request ''a'' [1, 2, 3])) demo_engine"
    by (simp add: fresh_message_def demo_engine_init(2))
  ultimately show ?thesis using engine_start [OF demo_engine_init(1)] engine_message by blast
qed

definition demo_exec :: "((engine_core_output list \<times> observability option) \<times> engine_core) io" where
  "demo_exec = step demo_hash id demo_clk demo_mro demo_busy"

theorem engine_step_never_waits_witness: "\<exists>r. demo_exec = Some r"
  unfolding demo_exec_def using engine_step_never_waits [OF demo_busy_reach demo_config(1)] .

lemma demo_exec_step:
  "\<exists>r e. demo_exec = Some (Inr (r, e)) \<and> (\<exists>out. scheduler_output_prev e = Some out
      \<and> num_scheduled_tokens out = [(''a'', 3)] \<and> total_num_scheduled_tokens out = 3)"
proof -
  have n: "has_unfinished_requests demo_one" by (simp add: has_unfinished_requests_def get_num_unfinished_requests_def)
  have t: "total_num_scheduled_tokens (fst demo_ran) = 3"
    by (simp add: demo_ran_def demo_one_def demo_idle_def sched_run kv_run demo_defs)
  obtain out s where r: "demo_ran = (out, s)" by (cases demo_ran)
  have "schedule demo_hash demo_clk False demo_one = Inr (out, s)" "num_scheduled_tokens out = [(''a'', 3)]"
    "total_num_scheduled_tokens out = 3"
    using demo_ran_schedule demo_ran_facts(3) t by (simp_all add: r)
  then show ?thesis using demo_engine_init(3,4) n
    by (auto simp: demo_exec_def demo_busy_def step_def drain_before_schedule_def schedule_phase_def swap_phase_def
        finish_phase_def launch_def Let_def)
qed

theorem engine_executes_previous_output_witness:
  "\<exists>r e out. demo_exec = Some (Inr (r, e)) \<and> scheduler_output_prev e = Some out \<and> pending_execs e = [out]
    \<and> ''a'' \<in> dom (requests (ec_sched e))"
proof -
  from demo_exec_step obtain r e out where d: "demo_exec = Some (Inr (r, e))" "scheduler_output_prev e = Some out"
    "num_scheduled_tokens out = [(''a'', 3)]" "total_num_scheduled_tokens out = 3" by blast
  then have "engine_reach demo_hash id demo_clk demo_sc demo_cc e"
    using engine_reach.engine_step [OF demo_busy_reach] by (simp add: demo_exec_def)
  from engine_executes_previous_output [OF this demo_config(1)] d
  have "pending_execs e = [out]" "''a'' \<in> dom (requests (ec_sched e))" by auto
  with d(1,2) show ?thesis by blast
qed


section \<open>The busy loop\<close>



lemma engine_inv_output [simp]: "engine_inv (e\<lparr>output_queue := q\<rparr>) = engine_inv e"
  by (simp add: engine_inv_def has_unfinished_executions_def)





end
