(* ===== verification/MapperProps.thy ===== *)
theory MapperProps
  imports MMInputMapper
begin

text \<open>
  The properties of the LRU cache and of the mirrored multi-modal preprocessor caches.
\<close>

section \<open>From the frontend to the core\<close>











section \<open>The LRU cache\<close>

text \<open>
  Inserting into a cache without pinned entries never raises and keeps it within its
  capacity. The key becomes the most recent one with the new value, the order of the others is
  kept, and only when the cache was full is an entry lost, the least recently used one.
\<close>

theorem lru_put_evicts_oldest:
  assumes "lru_ok c" "pinned_items c = {}" "0 < lru_capacity c"
  shows "\<exists>c'. lru_put k v c = Inr c' \<and> lru_ok c' \<and> fst (lru_get k None c') = Some v
    \<and> map fst (lru_items c') =
        (let ks = filter (\<lambda>k'. k' \<noteq> k) (map fst (lru_items c)) @ [k] in drop (length ks - lru_capacity c) ks)"
proof -
  let ?d = "dict_pop k (lru_items c)"
  have ks: "map fst ?d = filter (\<lambda>k'. k' \<noteq> k) (map fst (lru_items c))"
    by (simp add: dict_pop_def filter_map comp_def split_def)
  obtain c' where c': "lru_put k v c = Inr c'" "lru_ok c'" by (rule lru_put_ok [OF assms(1,2), of k v])
  have items: "lru_items c' = drop (Suc (length ?d) - lru_capacity c) (?d @ [(k, v)])"
    using lru_put_unpinned [OF assms(1,2), of k v] c'(1) by auto
  have keys: "map fst (lru_items c') = (let ks = filter (\<lambda>k'. k' \<noteq> k) (map fst (lru_items c)) @ [k] in drop (length ks - lru_capacity c) ks)"
    unfolding items drop_map [symmetric] by (simp add: Let_def ks [symmetric])
  have "(k, v) \<in> set (lru_items c')" using assms(3) unfolding items by (cases "lru_capacity c") auto
  then have "map_of (lru_items c') k = Some v" using c'(2) by (simp add: lru_ok_def map_of_is_SomeI)
  with c' keys show ?thesis by (auto simp: lru_get_def)
qed

theorem lru_put_evicts_oldest_witness:
  "\<exists>c'. lru_put (3::nat) ''z'' \<lparr>lru_items = [(1, ''x''), (2, ''y'')], pinned_items = {}, lru_capacity = 2\<rparr> = Inr c'
    \<and> map fst (lru_items c') = [2, 3]"
  using lru_put_evicts_oldest [of "\<lparr>lru_items = [(1, ''x''), (2, ''y'')], pinned_items = {}, lru_capacity = 2\<rparr>" "3::nat" "''z''"]
  by (auto simp: lru_ok_def)

lemma lru_clear_loop_empties:
  "\<exists>c'. lru_clear_loop c = Inr c' \<and> lru_items c' = [] \<and> lru_capacity c' = lru_capacity c
    \<and> pinned_items c' = pinned_items c - fst ` set (lru_items c)"
proof (induction "length (lru_items c)" arbitrary: c rule: less_induct)
  case less
  show ?case
  proof (cases "lru_items c")
    case Nil
    then show ?thesis by (subst lru_clear_loop.simps) simp
  next
    case (Cons p d)
    obtain k v where p: "p = (k, v)" by (cases p)
    let ?c = "snd (lru_pop k None c)"
    have r: "remove_oldest True c = Inr ?c" using Cons p by (simp add: remove_oldest_def)
    from less [of ?c] remove_oldest_shrinks [OF r] Cons obtain c' where c': "lru_clear_loop ?c = Inr c'" "lru_items c' = []"
      "lru_capacity c' = lru_capacity c" "pinned_items c' = pinned_items ?c - fst ` set (lru_items ?c)"
      by (auto simp: lru_pop_def)
    moreover have "pinned_items ?c - fst ` set (lru_items ?c) = pinned_items c - fst ` set (lru_items c)"
      using Cons p by (auto simp: lru_pop_def keys_dict_pop)
    ultimately show ?thesis using r Cons by (subst lru_clear_loop.simps) simp
  qed
qed

text \<open>
  Clearing ends on every cache, pinned entries included, and leaves it empty with nothing
  pinned that was cached.
\<close>

theorem lru_clear_empties:
  "\<exists>c'. lru_clear c = Inr c' \<and> lru_len c' = 0 \<and> lru_capacity c' = lru_capacity c
    \<and> pinned_items c' = pinned_items c - fst ` set (lru_items c)"
proof -
  from lru_clear_loop_empties [of c] obtain c' where "lru_clear_loop c = Inr c'" "lru_capacity c' = lru_capacity c"
    "pinned_items c' = pinned_items c - fst ` set (lru_items c)" by blast
  then show ?thesis by (simp add: lru_clear_def lru_len_def)
qed

end
