(* ===== verification/Detokenizer.thy ===== *)
theory Detokenizer
  imports Scheduler
begin

text \<open>
  The detokenizer of the engine's front end: \<^verbatim>\<open>src/vllm/v1/engine/detokenizer.py\<close> with the
  functions it calls in \<^verbatim>\<open>src/vllm/transformers_utils/detokenizer_utils.py\<close> and
  \<^verbatim>\<open>src/vllm/engine/output_processor/stop_checker.py\<close>. The tokenizer is a package of its own; it
  is the record \<open>tokenizer\<close> of the functions the code calls, a parameter of everything below.
  A token is a string or \<^verbatim>\<open>None\<close>: \<open>convert_ids_to_tokens\<close> answers \<^verbatim>\<open>None\<close> for an id outside the
  vocabulary.
\<close>

section \<open>Strings\<close>

text \<open>
  \<^verbatim>\<open>s.find(sub, start)\<close>: the least index from \<open>start\<close> on at which \<open>sub\<close> occurs, or -1; a negative
  start counts from the end and is clamped to 0. \<^verbatim>\<open>xs[:j]\<close> for a \<open>j\<close> of either sign.
\<close>

fun find_sub :: "'a list \<Rightarrow> 'a list \<Rightarrow> nat \<Rightarrow> int" where
  "find_sub sub [] i = (if sub = [] then int i else - 1)"
| "find_sub sub (x # xs) i =
     (if take (length sub) (x # xs) = sub then int i else find_sub sub xs (Suc i))"

definition py_find :: "'a list \<Rightarrow> 'a list \<Rightarrow> int \<Rightarrow> int" where
  "py_find s sub start =
     (let st = nat (if start < 0 then start + int (length s) else start)
      in if length s < st then - 1 else find_sub sub (drop st s) st)"

definition py_upto :: "'a list \<Rightarrow> int \<Rightarrow> 'a list" where
  "py_upto xs j = take (nat (if j < 0 then int (length xs) + j else j)) xs"

definition ends_with :: "'a list \<Rightarrow> 'a \<Rightarrow> bool" where
  "ends_with s c = (s \<noteq> [] \<and> last s = c)"

section \<open>The tokenizer\<close>

type_synonym piece = "py_text option"

record tokenizer =
  vocab_len :: int
  convert_ids_to_tokens :: "token list \<Rightarrow> bool \<Rightarrow> piece list"
  convert_tokens_to_string :: "piece list \<Rightarrow> py_text"
  all_special_tokens :: "py_text list"
  get_added_vocab :: "py_text list"
  is_fast :: bool

section \<open>Incremental detokenization\<close>

definition replacement_char :: nat where "replacement_char = 65533"

definition space_char :: nat where "space_char = 32"

definition INITIAL_INCREMENTAL_DETOKENIZATION_OFFSET :: nat where
  "INITIAL_INCREMENTAL_DETOKENIZATION_OFFSET = 5"

definition replace_none_with_empty :: "piece list \<Rightarrow> piece list" where
  "replace_none_with_empty ts = map (\<lambda>t. case t of None \<Rightarrow> Some [] | Some _ \<Rightarrow> t) ts"

text \<open>
  The loop of \<open>_convert_tokens_to_string_with_added_encoders\<close>: the sub-texts built so far and the
  ordinary tokens not converted yet. \<^verbatim>\<open>str.join\<close> puts the separator between the parts.
\<close>

fun sub_texts_loop ::
  "tokenizer \<Rightarrow> bool \<Rightarrow> piece list \<Rightarrow> py_text list \<Rightarrow> piece list \<Rightarrow> py_text list \<times> piece list" where
  "sub_texts_loop tk skip [] sub_texts current = (sub_texts, current)"
| "sub_texts_loop tk skip (t # ts) sub_texts current =
     (if skip \<and> t \<in> Some ` set (all_special_tokens tk)
      then sub_texts_loop tk skip ts sub_texts current
      else case t of
        Some w \<Rightarrow>
          if w \<in> set (get_added_vocab tk)
          then sub_texts_loop tk skip ts
                 ((if current \<noteq> [] then sub_texts @ [convert_tokens_to_string tk current] else sub_texts) @ [w]) []
          else sub_texts_loop tk skip ts sub_texts (current @ [t])
      | None \<Rightarrow> sub_texts_loop tk skip ts sub_texts (current @ [t]))"

fun join_with :: "'a list \<Rightarrow> 'a list list \<Rightarrow> 'a list" where
  "join_with sep [] = []"
| "join_with sep [x] = x"
| "join_with sep (x # xs) = x @ sep @ join_with sep xs"

definition convert_tokens_to_string_with_added_encoders ::
  "tokenizer \<Rightarrow> piece list \<Rightarrow> bool \<Rightarrow> bool \<Rightarrow> py_text" where
  "convert_tokens_to_string_with_added_encoders tk output_tokens skip spaces =
     (let (sub_texts, current) = sub_texts_loop tk skip output_tokens [] [];
          sub_texts = (if current \<noteq> [] then sub_texts @ [convert_tokens_to_string tk current] else sub_texts)
      in join_with (if spaces then [space_char] else []) sub_texts)"

definition convert_prompt_ids_to_tokens ::
  "tokenizer \<Rightarrow> token list \<Rightarrow> bool \<Rightarrow> piece list \<times> nat \<times> nat" where
  "convert_prompt_ids_to_tokens tk prompt_ids skip =
     (let new_tokens = convert_ids_to_tokens tk
            (drop (length prompt_ids - (INITIAL_INCREMENTAL_DETOKENIZATION_OFFSET + 2)) prompt_ids) skip;
          read_offset = length new_tokens;
          prefix_offset = read_offset - INITIAL_INCREMENTAL_DETOKENIZATION_OFFSET
      in (replace_none_with_empty new_tokens, prefix_offset, read_offset))"

text \<open>The text of a run of tokens, by the path the tokenizer's kind selects.\<close>

definition text_of :: "tokenizer \<Rightarrow> bool \<Rightarrow> bool \<Rightarrow> piece list \<Rightarrow> py_text" where
  "text_of tk skip spaces ts =
     (if is_fast tk \<or> get_added_vocab tk = [] then convert_tokens_to_string tk ts
      else convert_tokens_to_string_with_added_encoders tk ts skip spaces)"

definition new_tokens_of :: "tokenizer \<Rightarrow> bool \<Rightarrow> token \<Rightarrow> piece list" where
  "new_tokens_of tk skip t =
     (if 0 \<le> t \<and> t < vocab_len tk then convert_ids_to_tokens tk [t] skip else [Some []])"

definition detokenize_incrementally ::
  "tokenizer \<Rightarrow> token list \<Rightarrow> piece list option \<Rightarrow> nat \<Rightarrow> nat \<Rightarrow> bool \<Rightarrow> bool
   \<Rightarrow> (piece list \<times> py_text \<times> nat \<times> nat) result" where
  "detokenize_incrementally tk all_input_ids prev prefix_offset read_offset skip spaces =
     (if all_input_ids = [] then Inl IndexError else
      let (prev_tokens, prefix_offset, read_offset) =
            (case prev of
               None \<Rightarrow> convert_prompt_ids_to_tokens tk (butlast all_input_ids) skip
             | Some p \<Rightarrow> (p, prefix_offset, read_offset));
          new_tokens = new_tokens_of tk skip (last all_input_ids);
          output_tokens = prev_tokens @ new_tokens;
          new_tokens = (if prev = None then output_tokens else new_tokens);
          prefix_text = text_of tk skip spaces (take (read_offset - prefix_offset) (drop prefix_offset output_tokens));
          new_text = text_of tk skip spaces (drop prefix_offset output_tokens)
      in if length new_text \<le> length prefix_text \<or> ends_with new_text replacement_char
         then Inr (new_tokens, [], prefix_offset, read_offset)
         else Inr (new_tokens, drop (length prefix_text) new_text, read_offset, length output_tokens))"

section \<open>Stop strings\<close>

text \<open>\<open>StopChecker.check_stop_strings\<close>: the matched stop string and the length to truncate to.\<close>

fun check_stop_loop :: "py_text \<Rightarrow> nat \<Rightarrow> bool \<Rightarrow> py_text list \<Rightarrow> (py_text \<times> int) option" where
  "check_stop_loop output_text new_char_count include_in_output [] = None"
| "check_stop_loop output_text new_char_count include_in_output (stop_str # rest) =
     (let stop_index = py_find output_text stop_str (- int new_char_count - int (length stop_str))
      in if stop_index = - 1 then check_stop_loop output_text new_char_count include_in_output rest
         else if include_in_output
           then if int (length output_text) \<le> stop_index + int (length stop_str)
                then Some (stop_str, - 1)
                else Some (stop_str, stop_index + int (length stop_str))
           else Some (stop_str, stop_index))"

definition check_stop_strings :: "py_text \<Rightarrow> nat \<Rightarrow> py_text list \<Rightarrow> bool \<Rightarrow> (py_text \<times> int) option" where
  "check_stop_strings output_text new_char_count stop include_in_output =
     (if new_char_count = 0 \<or> stop = [] then None
      else check_stop_loop output_text new_char_count include_in_output stop)"

section \<open>Request outputs\<close>

datatype request_output_kind = CUMULATIVE | DELTA | FINAL_ONLY

record completion_output =
  co_index :: int
  co_text :: py_text
  co_token_ids :: "token list"
  co_finish_reason :: "string option"
  co_stop_reason :: "stop_reason_t option"

text \<open>
  \<open>RequestOutput\<close>; the fields that \<open>RequestOutput.new\<close> leaves at \<^verbatim>\<open>None\<close> (log probabilities,
  metrics, LoRA, encoder prompt, observability) are left out, as are those of \<open>CompletionOutput\<close>.
\<close>

record request_output =
  ro_request_id :: req_id
  ro_prompt :: "py_text option"
  ro_prompt_token_ids :: "token list"
  ro_outputs :: "completion_output list"
  ro_finished :: bool

definition completion_finished :: "completion_output \<Rightarrow> bool" where
  "completion_finished c = (co_finish_reason c \<noteq> None)"

definition request_output_new ::
  "req_id \<Rightarrow> py_text option \<Rightarrow> token list \<Rightarrow> py_text \<Rightarrow> token list \<Rightarrow> bool \<Rightarrow> request_output" where
  "request_output_new rid pr pids txt toks fin =
     \<lparr>ro_request_id = rid, ro_prompt = pr, ro_prompt_token_ids = pids,
      ro_outputs = [\<lparr>co_index = 0, co_text = txt, co_token_ids = toks,
                     co_finish_reason = None, co_stop_reason = None\<rparr>],
      ro_finished = fin\<rparr>"

section \<open>One request\<close>

record detokenizer_request =
  dr_request_id :: req_id
  dr_prompt :: "py_text option"
  dr_prompt_token_ids :: "token list"
  dr_skip_special_tokens :: bool
  dr_spaces_between_special_tokens :: bool
  dr_output_kind :: request_output_kind
  dr_stop :: "py_text list"
  dr_include_stop_str_in_output :: bool

record incremental_detokenizer =
  output_text :: py_text
  id_tokens :: "piece list"
  id_token_ids :: "token list"
  id_stop :: "py_text list"
  include_stop_str_in_output :: bool
  prefix_offset :: nat
  read_offset :: nat
  skip_special_tokens :: bool
  spaces_between_special_tokens :: bool
  output_kind :: request_output_kind
  id_request_id :: req_id
  id_prompt :: "py_text option"
  id_prompt_token_ids :: "token list"
  id_tokenizer :: tokenizer
  stop_buffer_length :: int
  last_output_text_offset :: int

definition generated_token_ids :: "incremental_detokenizer \<Rightarrow> token list result" where
  "generated_token_ids d =
     andthen (py_assert (length (id_prompt_token_ids d) \<le> length (id_token_ids d)))
       (\<lambda>_. Inr (drop (length (id_prompt_token_ids d)) (id_token_ids d)))"

definition from_new_request :: "tokenizer \<Rightarrow> detokenizer_request \<Rightarrow> incremental_detokenizer" where
  "from_new_request tk r =
     (let (ts, prefix, readoff) =
            convert_prompt_ids_to_tokens tk (dr_prompt_token_ids r) (dr_skip_special_tokens r)
      in \<lparr>output_text = [], id_tokens = ts, id_token_ids = dr_prompt_token_ids r, id_stop = dr_stop r,
          include_stop_str_in_output = dr_include_stop_str_in_output r,
          prefix_offset = prefix, read_offset = readoff,
          skip_special_tokens = dr_skip_special_tokens r,
          spaces_between_special_tokens = dr_spaces_between_special_tokens r,
          output_kind = dr_output_kind r, id_request_id = dr_request_id r, id_prompt = dr_prompt r,
          id_prompt_token_ids = dr_prompt_token_ids r, id_tokenizer = tk,
          stop_buffer_length =
            (if dr_stop r \<noteq> [] \<and> \<not> dr_include_stop_str_in_output r
             then int (Max (set (map length (dr_stop r)))) - 1 else 0),
          last_output_text_offset = 0\<rparr>)"

text \<open>\<open>add_tokens\<close>, step 1: one new token id; the decoded text of the call is accumulated beside.\<close>

definition decode_token ::
  "token \<Rightarrow> incremental_detokenizer \<times> py_text \<Rightarrow> (incremental_detokenizer \<times> py_text) result" where
  "decode_token t st =
     (let (d, decoded) = st; d = d\<lparr>id_token_ids := id_token_ids d @ [t]\<rparr>
      in andthen
           (detokenize_incrementally (id_tokenizer d) (id_token_ids d) (Some (id_tokens d))
              (prefix_offset d) (read_offset d) (skip_special_tokens d) (spaces_between_special_tokens d))
           (\<lambda>(new_tokens, txt, prefix, readoff).
              Inr (d\<lparr>id_tokens := id_tokens d @ new_tokens, prefix_offset := prefix,
                     read_offset := readoff, output_text := output_text d @ txt\<rparr>, decoded @ txt)))"

text \<open>Step 2: the stop criteria, with the finish and stop reasons they may replace.\<close>

definition apply_stop ::
  "nat \<Rightarrow> string option \<Rightarrow> stop_reason_t option \<Rightarrow> incremental_detokenizer
   \<Rightarrow> string option \<times> stop_reason_t option \<times> incremental_detokenizer" where
  "apply_stop new_chars fr sr d =
     (if id_stop d = [] then (fr, sr, d)
      else case check_stop_strings (output_text d) new_chars (id_stop d) (include_stop_str_in_output d) of
        None \<Rightarrow> (fr, sr, d)
      | Some (stop_str, truncate_to) \<Rightarrow>
          (Some ''stop'', Some (StopStr stop_str),
           (if truncate_to \<noteq> - 1 then d\<lparr>output_text := py_upto (output_text d) truncate_to\<rparr> else d)))"

definition get_next_output_text ::
  "bool \<Rightarrow> bool \<Rightarrow> incremental_detokenizer \<Rightarrow> py_text \<times> incremental_detokenizer" where
  "get_next_output_text fin delta d =
     (let buffer_length = (if fin then 0 else stop_buffer_length d)
      in if \<not> delta
         then (if buffer_length \<noteq> 0 then py_upto (output_text d) (- buffer_length) else output_text d, d)
         else let len = int (length (output_text d)) - buffer_length;
                  last_offset = last_output_text_offset d
              in if last_offset < len
                 then (py_slice (output_text d) last_offset len, d\<lparr>last_output_text_offset := len\<rparr>)
                 else ([], d))"

text \<open>\<^verbatim>\<open>bool(finish_reason)\<close>: neither \<^verbatim>\<open>None\<close> nor empty.\<close>

definition truthy :: "string option \<Rightarrow> bool" where
  "truthy r = (case r of None \<Rightarrow> False | Some s \<Rightarrow> s \<noteq> [])"

definition set_completion ::
  "string option \<Rightarrow> stop_reason_t option \<Rightarrow> request_output \<Rightarrow> request_output" where
  "set_completion fr sr ro =
     ro\<lparr>ro_outputs := (case ro_outputs ro of [] \<Rightarrow> []
        | c # cs \<Rightarrow> c\<lparr>co_finish_reason := fr, co_stop_reason := sr\<rparr> # cs)\<rparr>"

definition make_output ::
  "token list \<Rightarrow> string option \<Rightarrow> stop_reason_t option \<Rightarrow> incremental_detokenizer
   \<Rightarrow> (request_output option \<times> incremental_detokenizer) result" where
  "make_output new_ids fr sr d =
     (let fin = truthy fr
      in if output_kind d = FINAL_ONLY \<and> \<not> fin then Inr (None, d)
         else
           let delta = (output_kind d = DELTA);
               (txt, d') = get_next_output_text fin delta d
           in andthen (if delta then Inr new_ids else generated_token_ids d') (\<lambda>toks.
                let ro = request_output_new (id_request_id d') (id_prompt d') (id_prompt_token_ids d') txt toks fin
                in Inr (Some (if fin then set_completion fr sr ro else ro), d')))"

definition add_tokens ::
  "token list \<Rightarrow> string option \<Rightarrow> stop_reason_t option \<Rightarrow> incremental_detokenizer
   \<Rightarrow> (request_output option \<times> incremental_detokenizer) result" where
  "add_tokens new_ids fr sr d =
     andthen (fold_result decode_token new_ids (d, [])) (\<lambda>(d, decoded).
       let (fr, sr, d) = apply_stop (length decoded) fr sr d
       in make_output new_ids fr sr d)"

section \<open>All requests\<close>

record detokenizer =
  dt_tokenizer :: tokenizer
  request_states :: "(req_id \<times> incremental_detokenizer) list"

definition detokenizer_init :: "tokenizer \<Rightarrow> detokenizer" where
  "detokenizer_init tk = \<lparr>dt_tokenizer = tk, request_states = []\<rparr>"

definition is_request_active :: "req_id \<Rightarrow> detokenizer \<Rightarrow> bool" where
  "is_request_active rid dt = (map_of (request_states dt) rid \<noteq> None)"

definition dt_num_unfinished_requests :: "detokenizer \<Rightarrow> nat" where
  "dt_num_unfinished_requests dt = length (request_states dt)"

definition dt_has_unfinished_requests :: "detokenizer \<Rightarrow> bool" where
  "dt_has_unfinished_requests dt = (0 < length (request_states dt))"

definition dt_abort_requests :: "req_id list \<Rightarrow> detokenizer \<Rightarrow> detokenizer" where
  "dt_abort_requests rids dt = fold (\<lambda>rid dt. dt\<lparr>request_states := dict_pop rid (request_states dt)\<rparr>) rids dt"

definition dt_add_request :: "detokenizer_request \<Rightarrow> detokenizer \<Rightarrow> detokenizer result" where
  "dt_add_request r dt =
     andthen (py_assert (\<not> is_request_active (dr_request_id r) dt)) (\<lambda>_.
       Inr (dt\<lparr>request_states := dict_set (dr_request_id r) (from_new_request (dt_tokenizer dt) r)
                                  (request_states dt)\<rparr>))"

text \<open>
  \<open>Detokenizer.step\<close>: for one output of the engine core. \<open>add_tokens\<close> mutates the state object in
  place, which is the replacement of the entry of its id.
\<close>

definition dt_step_one ::
  "engine_core_output \<Rightarrow> detokenizer \<times> request_output list \<times> req_id list
   \<Rightarrow> (detokenizer \<times> request_output list \<times> req_id list) result" where
  "dt_step_one eco st =
     (let (dt, outs, aborts) = st; rid = eco_request_id eco
      in case map_of (request_states dt) rid of
           None \<Rightarrow> Inr (dt, outs, aborts)
         | Some d \<Rightarrow>
             andthen (add_tokens (eco_new_token_ids eco) (eco_finish_reason eco) (eco_stop_reason eco) d)
               (\<lambda>(out, d'). let dt = dt\<lparr>request_states := dict_set rid d' (request_states dt)\<rparr>
                 in case out of
                      None \<Rightarrow> Inr (dt, outs, aborts)
                    | Some ro \<Rightarrow>
                        if ro_finished ro
                        then Inr (dt\<lparr>request_states := dict_pop rid (request_states dt)\<rparr>, outs @ [ro],
                                  if \<not> eco_finished eco then aborts @ [rid] else aborts)
                        else Inr (dt, outs @ [ro], aborts)))"

definition dt_step ::
  "engine_core_output list \<Rightarrow> detokenizer \<Rightarrow> (detokenizer \<times> request_output list \<times> req_id list) result" where
  "dt_step ecos dt = fold_result dt_step_one ecos (dt, [], [])"

end
