(* ===== verification/DetokenizerInv.thy ===== *)
theory DetokenizerInv
  imports Detokenizer
begin

text \<open>
  Facts about the detokenizer of one request: where a stop string can occur and what the windowed
  search finds, what one call of \<open>add_tokens\<close> does to an unfinished request, and the relation
  between the text handed out so far and the text held.
\<close>

section \<open>Occurrences\<close>

definition occurs_at :: "'a list \<Rightarrow> 'a list \<Rightarrow> nat \<Rightarrow> bool" where
  "occurs_at sub s k = (k + length sub \<le> length s \<and> take (length sub) (drop k s) = sub)"

lemma take_drop_occurs:
  "k \<le> length s \<Longrightarrow> take (length sub) (drop k s) = sub \<longleftrightarrow> occurs_at sub s k"
  by (auto simp: occurs_at_def dest: arg_cong [where f = length])

lemma find_sub_cases:
  "(find_sub sub xs i = - 1 \<and> (\<forall>k. \<not> occurs_at sub xs k))
   \<or> (\<exists>j. find_sub sub xs i = int (i + j) \<and> occurs_at sub xs j \<and> (\<forall>k < j. \<not> occurs_at sub xs k))"
proof (induction xs arbitrary: i)
  case Nil
  show ?case by (auto simp: occurs_at_def)
next
  case (Cons x xs)
  have shift: "occurs_at sub (x # xs) (Suc k) = occurs_at sub xs k" for k
    by (simp add: occurs_at_def)
  show ?case
  proof (cases "take (length sub) (x # xs) = sub")
    case True
    then have "occurs_at sub (x # xs) 0" using take_drop_occurs [of 0 "x # xs" sub] by simp
    with True show ?thesis by (intro disjI2 exI [of _ 0]) simp
  next
    case False
    then have zero: "\<not> occurs_at sub (x # xs) 0" using take_drop_occurs [of 0 "x # xs" sub] by simp
    from Cons.IH [of "Suc i"] show ?thesis
    proof (elim disjE exE conjE)
      assume "find_sub sub xs (Suc i) = - 1" "\<forall>k. \<not> occurs_at sub xs k"
      with False zero show ?thesis by (metis find_sub.simps(2) not0_implies_Suc shift)
    next
      fix j assume j: "find_sub sub xs (Suc i) = int (Suc i + j)" "occurs_at sub xs j"
        "\<forall>k < j. \<not> occurs_at sub xs k"
      have "\<not> occurs_at sub (x # xs) k" if "k < Suc j" for k
        using that zero j(3) shift by (cases k) auto
      with False j show ?thesis by (intro disjI2 exI [of _ "Suc j"]) (simp add: shift)
    qed
  qed
qed

text \<open>The window of a search that starts \<open>n\<close> characters and one pattern before the end.\<close>

lemma py_find_window:
  fixes s sub :: "'a list"
  assumes n: "0 < n" "n \<le> length s"
  defines "st \<equiv> length s - n - length sub"
  shows "(py_find s sub (- int n - int (length sub)) = - 1 \<and> (\<forall>k \<ge> st. \<not> occurs_at sub s k))
   \<or> (\<exists>j \<ge> st. py_find s sub (- int n - int (length sub)) = int j \<and> occurs_at sub s j
        \<and> (\<forall>k. st \<le> k \<longrightarrow> k < j \<longrightarrow> \<not> occurs_at sub s k))"
proof -
  have st: "nat (- int n - int (length sub) + int (length s)) = st"
    using n by (simp add: st_def)
  with n have eq: "py_find s sub (- int n - int (length sub)) = find_sub sub (drop st s) st"
    by (simp add: py_find_def Let_def st_def) linarith
  have shift: "occurs_at sub (drop st s) k = occurs_at sub s (st + k)" for k
    by (auto simp: occurs_at_def st_def add.commute)
  from find_sub_cases [of sub "drop st s" st] show ?thesis
  proof (elim disjE exE conjE)
    assume "find_sub sub (drop st s) st = - 1" "\<forall>k. \<not> occurs_at sub (drop st s) k"
    then show ?thesis unfolding eq shift by (metis le_Suc_ex)
  next
    fix j assume "find_sub sub (drop st s) st = int (st + j)" "occurs_at sub (drop st s) j"
      "\<forall>k < j. \<not> occurs_at sub (drop st s) k"
    then show ?thesis unfolding eq shift
      by (intro disjI2 exI [of _ "st + j"]) (auto dest: le_Suc_ex)
  qed
qed

section \<open>Unfinished requests\<close>

definition no_stop :: "py_text list \<Rightarrow> py_text \<Rightarrow> bool" where
  "no_stop stops s = (\<forall>w \<in> set stops. \<forall>k. \<not> occurs_at w s k)"

text \<open>
  What holds of a request between two calls: its ids extend the prompt's, no stop string occurs in
  the text so far, and as many characters are held back as a stop string can still reach into.
\<close>

definition open_detok :: "incremental_detokenizer \<Rightarrow> bool" where
  "open_detok d \<longleftrightarrow>
     (\<exists>gen. id_token_ids d = id_prompt_token_ids d @ gen)
     \<and> [] \<notin> set (id_stop d) \<and> no_stop (id_stop d) (output_text d)
     \<and> 0 \<le> stop_buffer_length d
     \<and> (if include_stop_str_in_output d then stop_buffer_length d = 0
        else (\<forall>w \<in> set (id_stop d). int (length w) \<le> stop_buffer_length d + 1))"

definition held_text :: "incremental_detokenizer \<Rightarrow> nat" where
  "held_text d = length (output_text d) - nat (stop_buffer_length d)"

definition in_step :: "incremental_detokenizer \<Rightarrow> bool" where
  "in_step d \<longleftrightarrow> last_output_text_offset d = int (held_text d)"

lemma from_new_request_open:
  assumes "[] \<notin> set (dr_stop r)"
  shows "open_detok (from_new_request tk r)" and "in_step (from_new_request tk r)"
    and "output_text (from_new_request tk r) = []"
    and "output_kind (from_new_request tk r) = dr_output_kind r"
proof -
  have "int (length w) \<le> int (Max (set (map length (dr_stop r))))" if "w \<in> set (dr_stop r)" for w
    using that by (auto intro: Max_ge)
  moreover have "1 \<le> int (Max (set (map length (dr_stop r))))" if "dr_stop r \<noteq> []"
  proof -
    from that obtain w where "w \<in> set (dr_stop r)" by (cases "dr_stop r") auto
    with assms calculation [of w] show ?thesis by (cases w) auto
  qed
  ultimately show "open_detok (from_new_request tk r)"
    using assms
    by (auto simp: from_new_request_def open_detok_def no_stop_def occurs_at_def split_def Let_def simp del: set_map)
qed (simp_all add: from_new_request_def in_step_def held_text_def split_def Let_def)


section \<open>One call\<close>

lemma detokenize_incrementally_total:
  assumes "ids \<noteq> []"
  shows "\<exists>ts dl p r. detokenize_incrementally tk ids prev prefix readoff skip sp = Inr (ts, dl, p, r)"
  using assms by (auto simp: detokenize_incrementally_def Let_def split: prod.splits option.splits)

lemma decode_tokens_frame:
  "\<exists>ts p r dl. fold_result decode_token ids (d, dec) =
     Inr (d\<lparr>id_token_ids := id_token_ids d @ ids, id_tokens := id_tokens d @ ts, prefix_offset := p,
            read_offset := r, output_text := output_text d @ dl\<rparr>, dec @ dl)"
proof (induction ids arbitrary: d dec)
  case Nil
  have "d = d\<lparr>id_token_ids := id_token_ids d @ [], id_tokens := id_tokens d @ [],
              prefix_offset := prefix_offset d, read_offset := read_offset d,
              output_text := output_text d @ []\<rparr>" by simp
  then show ?case by (intro exI [of _ "[]"] exI [of _ "prefix_offset d"] exI [of _ "read_offset d"]) simp
next
  case (Cons t ids)
  obtain ts dl p r where "detokenize_incrementally (id_tokenizer d) (id_token_ids d @ [t])
      (Some (id_tokens d)) (prefix_offset d) (read_offset d) (skip_special_tokens d)
      (spaces_between_special_tokens d) = Inr (ts, dl, p, r)"
    using detokenize_incrementally_total by blast
  then have one: "decode_token t (d, dec) =
      Inr (d\<lparr>id_token_ids := id_token_ids d @ [t], id_tokens := id_tokens d @ ts, prefix_offset := p,
             read_offset := r, output_text := output_text d @ dl\<rparr>, dec @ dl)"
    by (simp add: decode_token_def)
  show ?case
    using Cons.IH [of "d\<lparr>id_token_ids := id_token_ids d @ [t], id_tokens := id_tokens d @ ts,
      prefix_offset := p, read_offset := r, output_text := output_text d @ dl\<rparr>" "dec @ dl"]
    by (simp add: one) blast
qed

text \<open>The stop search either leaves the state as it is, or finds the first listed stop string that occurs.\<close>

lemma check_stop_loop_cases:
  assumes "0 < n" and "n \<le> length s"
  shows "(check_stop_loop s n incl stops = None
        \<and> (\<forall>w \<in> set stops. \<forall>k \<ge> length s - n - length w. \<not> occurs_at w s k))
    \<or> (\<exists>w j. w \<in> set stops \<and> length s - n - length w \<le> j \<and> occurs_at w s j
        \<and> (\<forall>k. length s - n - length w \<le> k \<longrightarrow> k < j \<longrightarrow> \<not> occurs_at w s k)
        \<and> check_stop_loop s n incl stops =
            Some (w, if \<not> incl then int j else if length s \<le> j + length w then - 1 else int (j + length w)))"
proof (induction stops)
  case (Cons w stops)
  show ?case
    using py_find_window [OF assms, of w]
  proof (elim disjE exE conjE)
    assume none: "py_find s w (- int n - int (length w)) = - 1"
      "\<forall>k \<ge> length s - n - length w. \<not> occurs_at w s k"
    then have eq: "check_stop_loop s n incl (w # stops) = check_stop_loop s n incl stops" by simp
    from Cons show ?thesis
    proof (elim disjE)
      assume "check_stop_loop s n incl stops = None
        \<and> (\<forall>w \<in> set stops. \<forall>k \<ge> length s - n - length w. \<not> occurs_at w s k)"
      with none(2) show ?thesis by (intro disjI1) (simp add: eq del: check_stop_loop.simps)
    qed (rule disjI2, simp only: eq, meson list.set_intros(2))
  next
    fix j assume "length s - n - length w \<le> j" "py_find s w (- int n - int (length w)) = int j"
      "occurs_at w s j" "\<forall>k. length s - n - length w \<le> k \<longrightarrow> k < j \<longrightarrow> \<not> occurs_at w s k"
    then show ?thesis by (intro disjI2 exI [of _ w] exI [of _ j]) (auto simp: Let_def)
  qed
qed simp

lemma occurs_at_take: "occurs_at w (take m s) k \<longleftrightarrow> occurs_at w s k \<and> k + length w \<le> m"
  by (auto simp: occurs_at_def drop_take min_def)

lemma occurs_at_append: "k + length w \<le> length s \<Longrightarrow> occurs_at w (s @ t) k \<longleftrightarrow> occurs_at w s k"
  by (auto simp: occurs_at_def)


text \<open>
  The stop criteria on an unfinished request whose text was \<open>old\<close> and is now \<open>old @ new\<close>: nothing is
  found and the new text is free of stop strings, or a stop string is found, and what is kept
  reaches at least as far as what may have been handed out.
\<close>

lemma apply_stop_cases:
  assumes op: "open_detok d" and grow: "output_text d' = output_text d @ new"
    and same: "id_stop d' = id_stop d" "include_stop_str_in_output d' = include_stop_str_in_output d"
  shows "(apply_stop (length new) fr sr d' = (fr, sr, d') \<and> no_stop (id_stop d) (output_text d'))
    \<or> (\<exists>w m. w \<in> set (id_stop d) \<and> held_text d \<le> m \<and> m \<le> length (output_text d')
        \<and> apply_stop (length new) fr sr d' =
            (Some ''stop'', Some (StopStr w), d'\<lparr>output_text := take m (output_text d')\<rparr>)
        \<and> (if include_stop_str_in_output d then length w \<le> m \<and> occurs_at w (take m (output_text d')) (m - length w)
           else occurs_at w (output_text d') m \<and> (\<forall>k. \<not> occurs_at w (take m (output_text d')) k)))"
proof (cases "new = [] \<or> id_stop d = []")
  case True
  with op show ?thesis
    by (intro disjI1) (auto simp: apply_stop_def check_stop_strings_def open_detok_def no_stop_def same grow)
next
  case False
  let ?s = "output_text d'" and ?n = "length new"
  have n: "0 < ?n" "?n \<le> length ?s" using False by (simp_all add: grow)
  have st: "check_stop_strings ?s ?n (id_stop d) (include_stop_str_in_output d)
      = check_stop_loop ?s ?n (include_stop_str_in_output d) (id_stop d)"
    using False by (simp add: check_stop_strings_def same)
  have old: "\<not> occurs_at w ?s k" if "w \<in> set (id_stop d)" "k + length w \<le> length (output_text d)" for w k
    using op that by (auto simp: open_detok_def no_stop_def grow occurs_at_append)
  have early: "\<not> occurs_at w ?s k" if "w \<in> set (id_stop d)" "k < length ?s - ?n - length w" for w k
    using old [OF that(1), of k] that(2) by (simp add: grow)
  from check_stop_loop_cases [OF n, of "include_stop_str_in_output d" "id_stop d"] show ?thesis
  proof (elim disjE exE conjE)
    assume "check_stop_loop ?s ?n (include_stop_str_in_output d) (id_stop d) = None"
      "\<forall>w \<in> set (id_stop d). \<forall>k \<ge> length ?s - ?n - length w. \<not> occurs_at w ?s k"
    with early have "no_stop (id_stop d) ?s" by (meson no_stop_def not_less)
    with \<open>check_stop_loop ?s ?n _ _ = None\<close> show ?thesis by (simp add: apply_stop_def st same)
  next
    fix w j
    assume w: "w \<in> set (id_stop d)" and j: "occurs_at w ?s j"
      and first: "\<forall>k. length ?s - ?n - length w \<le> k \<longrightarrow> k < j \<longrightarrow> \<not> occurs_at w ?s k"
      and found: "check_stop_loop ?s ?n (include_stop_str_in_output d) (id_stop d) =
        Some (w, if \<not> include_stop_str_in_output d then int j
                 else if length ?s \<le> j + length w then - 1 else int (j + length w))"
    have past: "length (output_text d) < j + length w" using old [OF w, of j] j by linarith
    have fits: "j + length w \<le> length ?s" using j by (simp add: occurs_at_def)
    let ?m = "if include_stop_str_in_output d then j + length w else j"
    have eq: "apply_stop ?n fr sr d' =
        (Some ''stop'', Some (StopStr w), d'\<lparr>output_text := take ?m ?s\<rparr>)"
      using found False fits by (auto simp: apply_stop_def st same py_upto_def nat_int_add)
    have "int (length w) \<le> stop_buffer_length d + 1" if "\<not> include_stop_str_in_output d"
      using op w that by (simp add: open_detok_def)
    then have "held_text d \<le> ?m" using past by (cases "include_stop_str_in_output d") (simp_all add: held_text_def)
    moreover have "\<not> occurs_at w (take j ?s) k" for k
    proof
      assume "occurs_at w (take j ?s) k"
      then have "occurs_at w ?s k" "k + length w \<le> j" by (simp_all add: occurs_at_take)
      moreover have "0 < length w" using op w by (auto simp: open_detok_def)
      ultimately show False using first early [OF w, of k] by (metis add_leD1 le_neq_implies_less less_add_same_cancel1 linorder_not_less)
    qed
    ultimately show ?thesis using w fits j eq
      by (intro disjI2 exI [of _ w] exI [of _ ?m]) (auto simp: occurs_at_take)
  qed
qed


text \<open>The fields that no call changes, and the ones only the hand-out of text changes.\<close>

definition same_request :: "incremental_detokenizer \<Rightarrow> incremental_detokenizer \<Rightarrow> bool" where
  "same_request d d' \<longleftrightarrow> id_stop d' = id_stop d \<and> include_stop_str_in_output d' = include_stop_str_in_output d
     \<and> output_kind d' = output_kind d \<and> stop_buffer_length d' = stop_buffer_length d
     \<and> id_request_id d' = id_request_id d \<and> id_prompt d' = id_prompt d
     \<and> id_prompt_token_ids d' = id_prompt_token_ids d \<and> id_tokenizer d' = id_tokenizer d
     \<and> skip_special_tokens d' = skip_special_tokens d
     \<and> spaces_between_special_tokens d' = spaces_between_special_tokens d"

lemma add_tokens_cases:
  assumes "open_detok d"
  obtains d' new where "same_request d d'" "last_output_text_offset d' = last_output_text_offset d"
      "id_token_ids d' = id_token_ids d @ ids"
      "output_text d' = output_text d @ new" "open_detok d'"
      "add_tokens ids fr sr d = make_output ids fr sr d'"
      "\<exists>d\<^sub>1. fold_result decode_token ids (d, []) = Inr (d\<^sub>1, new) \<and> output_text d\<^sub>1 = output_text d @ new"
  | (stop) d' new w m where "same_request d d'" "last_output_text_offset d' = last_output_text_offset d"
      "id_token_ids d' = id_token_ids d @ ids"
      "w \<in> set (id_stop d)" "held_text d \<le> m" "m \<le> length (output_text d @ new)"
      "output_text d' = take m (output_text d @ new)"
      "if include_stop_str_in_output d then length w \<le> m \<and> occurs_at w (output_text d') (m - length w)
       else occurs_at w (output_text d @ new) m \<and> (\<forall>k. \<not> occurs_at w (output_text d') k)"
      "add_tokens ids fr sr d = make_output ids (Some ''stop'') (Some (StopStr w)) d'"
      "\<exists>d\<^sub>1. fold_result decode_token ids (d, []) = Inr (d\<^sub>1, new) \<and> output_text d\<^sub>1 = output_text d @ new"
proof -
  obtain ts p r new where dec: "fold_result decode_token ids (d, []) =
      Inr (d\<lparr>id_token_ids := id_token_ids d @ ids, id_tokens := id_tokens d @ ts, prefix_offset := p,
            read_offset := r, output_text := output_text d @ new\<rparr>, [] @ new)"
    using decode_tokens_frame [of ids d "[]"] by blast
  let ?d = "d\<lparr>id_token_ids := id_token_ids d @ ids, id_tokens := id_tokens d @ ts, prefix_offset := p,
            read_offset := r, output_text := output_text d @ new\<rparr>"
  have grow: "output_text ?d = output_text d @ new" by simp
  have same: "id_stop ?d = id_stop d" "include_stop_str_in_output ?d = include_stop_str_in_output d"
    by simp_all
  from apply_stop_cases [OF assms grow same, of fr sr] show thesis
  proof (elim disjE exE conjE)
    assume "apply_stop (length new) fr sr ?d = (fr, sr, ?d)" "no_stop (id_stop d) (output_text ?d)"
    moreover from this(2) assms have "open_detok ?d" by (auto simp: open_detok_def)
    ultimately show thesis
      by (intro that(1) [of ?d new]) (simp_all add: same_request_def add_tokens_def dec)
  next
    fix w m
    let ?t = "?d\<lparr>output_text := take m (output_text ?d)\<rparr>"
    assume "w \<in> set (id_stop d)" "held_text d \<le> m" "m \<le> length (output_text ?d)"
      "apply_stop (length new) fr sr ?d = (Some ''stop'', Some (StopStr w), ?t)"
      "if include_stop_str_in_output d then length w \<le> m \<and> occurs_at w (take m (output_text ?d)) (m - length w)
       else occurs_at w (output_text ?d) m \<and> (\<forall>k. \<not> occurs_at w (take m (output_text ?d)) k)"
    then show thesis
      by (intro that(2) [of ?t w m new]) (simp_all add: same_request_def add_tokens_def dec del: take_append cong: if_cong)
  qed
qed

text \<open>The delta handed out is the text between the last offset and the end of what may be shown.\<close>

lemma get_next_delta:
  assumes "last_output_text_offset d = int h" and "h \<le> e"
    and "e = (if fin then length (output_text d) else held_text d)" and "0 \<le> stop_buffer_length d"
  shows "get_next_output_text fin True d =
    (take (e - h) (drop h (output_text d)), d\<lparr>last_output_text_offset := int e\<rparr>)"
proof (cases "h < e")
  case True
  then have "int (length (output_text d)) - (if fin then 0 else stop_buffer_length d) = int e"
    using assms by (auto simp: held_text_def)
  with True assms(1) show ?thesis by (simp add: get_next_output_text_def py_slice_def Let_def)
next
  case False
  with assms have "h = e" "\<not> int h < int (length (output_text d)) - (if fin then 0 else stop_buffer_length d)"
    by (auto simp: held_text_def)
  moreover have "d = d\<lparr>last_output_text_offset := int e\<rparr>"
    using assms(1) \<open>h = e\<close> by simp
  ultimately show ?thesis using assms(1) by (simp add: get_next_output_text_def Let_def)
qed

definition shown_text :: "request_output \<Rightarrow> py_text" where
  "shown_text ro = co_text (hd (ro_outputs ro))"

lemma shown_text_simps [simp]:
  "shown_text (request_output_new rid pr pids t toks fin) = t"
  "shown_text (set_completion fr sr (request_output_new rid pr pids t toks fin)) = t"
  "ro_finished (request_output_new rid pr pids t toks fin) = fin"
  "ro_finished (set_completion fr sr (request_output_new rid pr pids t toks fin)) = fin"
  by (simp_all add: shown_text_def set_completion_def request_output_new_def)

lemma make_output_delta:
  assumes "output_kind d = DELTA" and "last_output_text_offset d = int h" and "h \<le> e"
    and "e = (if truthy fr then length (output_text d) else held_text d)" and "0 \<le> stop_buffer_length d"
  obtains ro where "make_output ids fr sr d = Inr (Some ro, d\<lparr>last_output_text_offset := int e\<rparr>)"
    "ro_finished ro = truthy fr" "shown_text ro = take (e - h) (drop h (output_text d))"
proof -
  show thesis
    using get_next_delta [OF assms(2-5)] assms(1)
    by (intro that) (auto simp: make_output_def Let_def split: if_splits)
qed


section \<open>A stream of calls\<close>

text \<open>The calls for one request, as \<open>Detokenizer.step\<close> makes them: none after a finished output.\<close>

fun stream ::
  "(token list \<times> string option \<times> stop_reason_t option) list \<Rightarrow> incremental_detokenizer
   \<Rightarrow> (request_output option list \<times> incremental_detokenizer) result" where
  "stream [] d = Inr ([], d)"
| "stream ((ids, fr, sr) # calls) d =
     andthen (add_tokens ids fr sr d) (\<lambda>(out, d').
       if (case out of None \<Rightarrow> False | Some ro \<Rightarrow> ro_finished ro) then Inr ([out], d')
       else andthen (stream calls d') (\<lambda>(outs, d''). Inr (out # outs, d'')))"

definition streamed :: "request_output option list \<Rightarrow> py_text" where
  "streamed outs = concat (map (\<lambda>out. case out of None \<Rightarrow> [] | Some ro \<Rightarrow> shown_text ro) outs)"

definition stream_done :: "request_output option list \<Rightarrow> bool" where
  "stream_done outs = (\<exists>ro. Some ro \<in> set outs \<and> ro_finished ro)"

lemma open_detok_cong:
  "open_detok d \<Longrightarrow> same_request d d' \<Longrightarrow> \<exists>gen. id_token_ids d' = id_prompt_token_ids d' @ gen \<Longrightarrow>
   no_stop (id_stop d') (output_text d') \<Longrightarrow> open_detok d'"
  by (auto simp: open_detok_def same_request_def)

lemma held_text_append: "output_text d' = output_text d @ new \<Longrightarrow> same_request d d' \<Longrightarrow> held_text d \<le> held_text d'"
  by (simp add: held_text_def same_request_def)

lemma held_text_le: "held_text d \<le> length (output_text d)"
  by (simp add: held_text_def)

text \<open>One call in delta mode: the new output continues the text shown so far.\<close>

lemma add_tokens_delta:
  assumes op: "open_detok d" and "in_step d" and kind: "output_kind d = DELTA"
  obtains ro d' e where "add_tokens ids fr sr d = Inr (Some ro, d')"
    "ro_finished ro \<Longrightarrow> e = length (output_text d')"
    "\<not> ro_finished ro \<Longrightarrow> e = held_text d' \<and> open_detok d' \<and> in_step d' \<and> output_kind d' = DELTA"
    "take (held_text d) (output_text d) @ shown_text ro = take e (output_text d')"
proof -
  have last: "last_output_text_offset d = int (held_text d)" using assms(2) by (simp add: in_step_def)
  have buf: "0 \<le> stop_buffer_length d" using op by (simp add: open_detok_def)
  have join: "take h xs = take h ys \<Longrightarrow> h \<le> e \<Longrightarrow> take h xs @ take (e - h) (drop h ys) = take e ys"
    for h e :: nat and xs ys :: py_text
    by (metis le_add_diff_inverse take_add)
  from op show thesis
  proof (cases rule: add_tokens_cases [where ids = ids and fr = fr and sr = sr])
    case (1 d' new)
    let ?e = "if truthy fr then length (output_text d') else held_text d'"
    have le: "held_text d \<le> ?e" using 1 held_text_append [of d' d new] held_text_le [of d] by auto
    have hyps: "output_kind d' = DELTA" "last_output_text_offset d' = int (held_text d)" "0 \<le> stop_buffer_length d'"
      using 1 kind last buf by (simp_all add: same_request_def)
    from hyps(1,2) le refl hyps(3) obtain ro where ro: "make_output ids fr sr d' = Inr (Some ro, d'\<lparr>last_output_text_offset := int ?e\<rparr>)"
        "ro_finished ro = truthy fr" "shown_text ro = take (?e - held_text d) (drop (held_text d) (output_text d'))"
      by (rule make_output_delta)
    have "open_detok (d'\<lparr>last_output_text_offset := int ?e\<rparr>)" using 1(5) by (simp add: open_detok_def)
    then show thesis using 1 ro hyps le join [OF _ le, of "output_text d" "output_text d'"] held_text_le [of d]
      by (intro that [of ro "d'\<lparr>last_output_text_offset := int ?e\<rparr>" ?e])
        (simp_all add: in_step_def held_text_def split: if_splits)
  next
    case (stop d' new w m)
    let ?e = "length (output_text d')"
    have le: "held_text d \<le> ?e" using stop by simp
    have hyps: "output_kind d' = DELTA" "last_output_text_offset d' = int (held_text d)" "0 \<le> stop_buffer_length d'"
      using stop kind last buf by (simp_all add: same_request_def)
    have e: "?e = (if truthy (Some ''stop'') then length (output_text d') else held_text d')" by (simp add: truthy_def)
    from hyps(1,2) le e hyps(3) obtain ro where ro: "make_output ids (Some ''stop'') (Some (StopStr w)) d' =
          Inr (Some ro, d'\<lparr>last_output_text_offset := int ?e\<rparr>)"
        "ro_finished ro = truthy (Some ''stop'')"
        "shown_text ro = take (?e - held_text d) (drop (held_text d) (output_text d'))"
      by (rule make_output_delta)
    have "take (held_text d) (output_text d) = take (held_text d) (output_text d')"
      using stop held_text_le [of d] by (simp add: min_def)
    then show thesis using stop ro join [OF _ le, of "output_text d" "output_text d'"]
      by (intro that [of ro "d'\<lparr>last_output_text_offset := int ?e\<rparr>" ?e]) (simp_all add: truthy_def)
  qed
qed

lemma stream_delta:
  assumes "open_detok d" and "in_step d" and "output_kind d = DELTA"
  shows "\<exists>outs d'. stream calls d = Inr (outs, d')
    \<and> take (held_text d) (output_text d) @ streamed outs =
        (if stream_done outs then output_text d' else take (held_text d') (output_text d'))
    \<and> (\<not> stream_done outs \<longrightarrow> no_stop (id_stop d') (output_text d'))"
  using assms
proof (induction calls arbitrary: d)
  case Nil
  then show ?case by (simp add: streamed_def stream_done_def open_detok_def)
next
  case (Cons call calls)
  obtain ids fr sr where call: "call = (ids, fr, sr)" by (cases call)
  from Cons.prems obtain ro d' e where step: "add_tokens ids fr sr d = Inr (Some ro, d')"
    and fin: "ro_finished ro \<Longrightarrow> e = length (output_text d')"
    and go: "\<not> ro_finished ro \<Longrightarrow> e = held_text d' \<and> open_detok d' \<and> in_step d' \<and> output_kind d' = DELTA"
    and more_text: "take (held_text d) (output_text d) @ shown_text ro = take e (output_text d')"
    by (rule add_tokens_delta [where ids = ids and fr = fr and sr = sr]) blast
  show ?case
  proof (cases "ro_finished ro")
    case True
    with step fin more_text show ?thesis by (simp add: call streamed_def stream_done_def)
  next
    case False
    with go Cons.IH [of d'] obtain outs d'' where "stream calls d' = Inr (outs, d'')"
      "take (held_text d') (output_text d') @ streamed outs =
        (if stream_done outs then output_text d'' else take (held_text d'') (output_text d''))"
      "\<not> stream_done outs \<longrightarrow> no_stop (id_stop d'') (output_text d'')" by blast
    moreover have "streamed (Some ro # outs) = shown_text ro @ streamed outs"
      "stream_done (Some ro # outs) = stream_done outs"
      using False by (auto simp: streamed_def stream_done_def)
    ultimately show ?thesis using step False more_text go
      by (simp add: call) (metis append_assoc)
  qed
qed


section \<open>Any output kind\<close>

definition done_output :: "request_output option \<Rightarrow> bool" where
  "done_output out = (case out of None \<Rightarrow> False | Some ro \<Rightarrow> ro_finished ro)"

lemma make_output_total:
  assumes "length (id_prompt_token_ids d) \<le> length (id_token_ids d)"
  obtains out off where "make_output ids fr sr d = Inr (out, d\<lparr>last_output_text_offset := off\<rparr>)"
    "done_output out = truthy fr"
    "\<And>ro. out = Some ro \<Longrightarrow> ro_request_id ro = id_request_id d
       \<and> (truthy fr \<longrightarrow> (\<exists>c. ro_outputs ro = [c] \<and> co_finish_reason c = fr \<and> co_stop_reason c = sr))"
proof (cases "output_kind d = FINAL_ONLY \<and> \<not> truthy fr")
  case True
  then show thesis
    by (intro that [of None "last_output_text_offset d"]) (simp_all add: make_output_def done_output_def)
next
  case False
  let ?n = "get_next_output_text (truthy fr) (output_kind d = DELTA) d"
  have "\<exists>off. snd ?n = d\<lparr>last_output_text_offset := off\<rparr>"
    by (rule exI [of _ "last_output_text_offset (snd ?n)"]) (simp add: get_next_output_text_def Let_def)
  then obtain t off where n: "?n = (t, d\<lparr>last_output_text_offset := off\<rparr>)" by (metis surjective_pairing)
  have "\<exists>toks. (if output_kind d = DELTA then Inr ids else generated_token_ids (d\<lparr>last_output_text_offset := off\<rparr>))
      = Inr toks" using assms by (simp add: generated_token_ids_def)
  then obtain toks where toks: "(if output_kind d = DELTA then Inr ids
      else generated_token_ids (d\<lparr>last_output_text_offset := off\<rparr>)) = Inr toks" by blast
  let ?ro = "request_output_new (id_request_id d) (id_prompt d) (id_prompt_token_ids d) t toks (truthy fr)"
  have "make_output ids fr sr d =
      Inr (Some (if truthy fr then set_completion fr sr ?ro else ?ro), d\<lparr>last_output_text_offset := off\<rparr>)"
    using False n toks by (simp add: make_output_def Let_def)
  then show thesis
    by (rule that) (auto simp: done_output_def set_completion_def request_output_new_def)
qed


lemma open_detok_offset [simp]: "open_detok (d\<lparr>last_output_text_offset := off\<rparr>) = open_detok d"
  by (simp add: open_detok_def)

lemma same_request_offset [simp]: "same_request d (d'\<lparr>last_output_text_offset := off\<rparr>) = same_request d d'"
  by (simp add: same_request_def)

lemma open_detok_ids: "open_detok d \<Longrightarrow> length (id_prompt_token_ids d) \<le> length (id_token_ids d)"
  by (auto simp: open_detok_def)

text \<open>A call on an unfinished request never raises, and leaves it unfinished or finishes it.\<close>

lemma add_tokens_open:
  assumes op: "open_detok d"
  obtains out d' where "add_tokens ids fr sr d = Inr (out, d')" "same_request d d'"
    "done_output out \<or> open_detok d'" "\<And>ro. out = Some ro \<Longrightarrow> ro_request_id ro = id_request_id d"
  using op
proof (cases rule: add_tokens_cases [where ids = ids and fr = fr and sr = sr])
  case (1 d' new)
  from open_detok_ids [OF 1(5)] obtain out off where "make_output ids fr sr d' = Inr (out, d'\<lparr>last_output_text_offset := off\<rparr>)"
    "\<And>ro. out = Some ro \<Longrightarrow> ro_request_id ro = id_request_id d'"
    by (rule make_output_total) blast
  with 1 show thesis by (intro that [of out "d'\<lparr>last_output_text_offset := off\<rparr>"]) (simp_all add: same_request_def)
next
  case (stop d' new w m)
  have "length (id_prompt_token_ids d') \<le> length (id_token_ids d')"
    using open_detok_ids [OF op] stop by (simp add: same_request_def)
  then obtain out off where "make_output ids (Some ''stop'') (Some (StopStr w)) d' = Inr (out, d'\<lparr>last_output_text_offset := off\<rparr>)"
    "done_output out = truthy (Some ''stop'')" "\<And>ro. out = Some ro \<Longrightarrow> ro_request_id ro = id_request_id d'"
    by (rule make_output_total) blast
  with stop show thesis
    by (intro that [of out "d'\<lparr>last_output_text_offset := off\<rparr>"]) (simp_all add: same_request_def truthy_def)
qed

lemma stream_open:
  assumes "open_detok d" and "stream calls d = Inr (outs, d')" and "\<not> stream_done outs"
  shows "open_detok d' \<and> same_request d d'"
  using assms
proof (induction calls arbitrary: d outs)
  case Nil
  then show ?case by (simp add: same_request_def)
next
  case (Cons call calls)
  obtain ids fr sr where call: "call = (ids, fr, sr)" by (cases call)
  from Cons.prems(1) obtain out e where e: "add_tokens ids fr sr d = Inr (out, e)" "same_request d e"
    "done_output out \<or> open_detok e"
    by (rule add_tokens_open [where ids = ids and fr = fr and sr = sr]) blast
  have nd: "\<not> done_output out"
    using Cons.prems(2,3) e(1) by (auto simp: call stream_done_def done_output_def split: option.splits)
  with Cons.prems(2) e(1) obtain rest where "stream calls e = Inr (rest, d')" "outs = out # rest"
    by (auto simp: call done_output_def [symmetric])
  moreover from this(2) Cons.prems(3) have "\<not> stream_done rest" by (auto simp: stream_done_def)
  ultimately show ?case using Cons.IH [of e rest] e nd by (simp add: same_request_def)
qed


lemma occurs_at_split: "occurs_at w s k \<Longrightarrow> \<exists>rest. s = take k s @ w @ rest"
  by (metis append_take_drop_id occurs_at_def)

lemma stop_outcome:
  assumes op: "open_detok d" and dec: "fold_result decode_token ids (d, []) = Inr (d\<^sub>1, new)"
  shows "\<exists>out d'. add_tokens ids fr sr d = Inr (out, d') \<and>
    (if no_stop (id_stop d) (output_text d\<^sub>1)
     then output_text d' = output_text d\<^sub>1 \<and> done_output out = truthy fr
     else \<exists>w \<in> set (id_stop d). \<exists>ro c. out = Some ro \<and> ro_finished ro \<and> ro_outputs ro = [c]
       \<and> co_finish_reason c = Some ''stop'' \<and> co_stop_reason c = Some (StopStr w)
       \<and> (\<exists>rest. output_text d\<^sub>1 = output_text d' @ (if include_stop_str_in_output d then rest else w @ rest))
       \<and> (if include_stop_str_in_output d then \<exists>u. output_text d' = u @ w
          else \<forall>k. \<not> occurs_at w (output_text d') k))"
  using op
proof (cases rule: add_tokens_cases [where ids = ids and fr = fr and sr = sr])
  case (1 d' new')
  have d1: "output_text d\<^sub>1 = output_text d'" using 1 dec by auto
  from open_detok_ids [OF 1(5)] obtain out off where
    "make_output ids fr sr d' = Inr (out, d'\<lparr>last_output_text_offset := off\<rparr>)" "done_output out = truthy fr"
    by (rule make_output_total) blast
  moreover have "no_stop (id_stop d) (output_text d\<^sub>1)" using 1(1,5) d1 by (simp add: open_detok_def same_request_def)
  ultimately show ?thesis using 1(6) d1 by simp
next
  case (stop d' new' w m)
  have d1: "output_text d\<^sub>1 = output_text d @ new'" using stop(10) dec by auto
  have "length (id_prompt_token_ids d') \<le> length (id_token_ids d')"
    using open_detok_ids [OF op] stop by (simp add: same_request_def)
  then obtain out off where out: "make_output ids (Some ''stop'') (Some (StopStr w)) d' = Inr (out, d'\<lparr>last_output_text_offset := off\<rparr>)"
    "done_output out = truthy (Some ''stop'')"
    "\<And>ro. out = Some ro \<Longrightarrow> ro_request_id ro = id_request_id d' \<and> (truthy (Some ''stop'') \<longrightarrow>
      (\<exists>c. ro_outputs ro = [c] \<and> co_finish_reason c = Some ''stop'' \<and> co_stop_reason c = Some (StopStr w)))"
    by (rule make_output_total) blast
  then obtain ro c where ro: "out = Some ro" "ro_finished ro" "ro_outputs ro = [c]"
    "co_finish_reason c = Some ''stop''" "co_stop_reason c = Some (StopStr w)"
    by (cases out) (auto simp: done_output_def truthy_def)
  have tail: "output_text d\<^sub>1 = output_text d' @ drop m (output_text d\<^sub>1)"
    using stop(7) d1 append_take_drop_id by metis
  have kept: "if include_stop_str_in_output d then \<exists>u. output_text d' = u @ w
      else \<forall>k. \<not> occurs_at w (output_text d') k"
  proof (cases "include_stop_str_in_output d")
    case True
    with stop(8) have "length w \<le> m" "occurs_at w (output_text d') (m - length w)" by simp_all
    moreover have "length (output_text d') = m" using stop(6,7) by simp
    ultimately have "output_text d' = take (m - length w) (output_text d') @ w"
      by (metis append_take_drop_id diff_diff_cancel length_drop occurs_at_def order_refl take_all)
    with True show ?thesis by auto
  qed (use stop(8) in simp)
  have rest: "\<exists>rest. output_text d\<^sub>1 = output_text d' @ (if include_stop_str_in_output d then rest else w @ rest)"
  proof (cases "include_stop_str_in_output d")
    case False
    with stop(8) have "occurs_at w (output_text d\<^sub>1) m" by (simp add: d1)
    then obtain rest where "output_text d\<^sub>1 = take m (output_text d\<^sub>1) @ w @ rest"
      using occurs_at_split by blast
    moreover have "take m (output_text d\<^sub>1) = output_text d'" using stop(7) d1 by simp
    ultimately show ?thesis using False by metis
  qed (use tail in metis)
  have "\<not> no_stop (id_stop d) (output_text d\<^sub>1)"
    using stop(4,7,8) d1 unfolding no_stop_def by (metis occurs_at_take)
  moreover have "\<exists>ro c. out = Some ro \<and> ro_finished ro \<and> ro_outputs ro = [c]
       \<and> co_finish_reason c = Some ''stop'' \<and> co_stop_reason c = Some (StopStr w)
       \<and> (\<exists>rest. output_text d\<^sub>1 = output_text d' @ (if include_stop_str_in_output d then rest else w @ rest))
       \<and> (if include_stop_str_in_output d then \<exists>u. output_text d' = u @ w
          else \<forall>k. \<not> occurs_at w (output_text d') k)"
    using ro kept rest by blast
  ultimately show ?thesis using stop(4,9) out(1)
    by (intro exI [of _ out] exI [of _ "d'\<lparr>last_output_text_offset := off\<rparr>"]) auto
qed

end
