(* ===== verification/DetokenizerProps.thy ===== *)
theory DetokenizerProps
  imports DetokenizerInv
begin

text \<open>
  The detokenizer's promises: streamed deltas add up to the final text (C29), what a matched stop
  string does to the output (C30), incremental decoding agrees with decoding everything at once
  (C31), and the bookkeeping of \<open>Detokenizer.step\<close> (C32).
\<close>

section \<open>Example data\<close>

text \<open>A tokenizer with four one-character tokens and the replacement character.\<close>

definition demo_piece :: "token \<Rightarrow> piece" where
  "demo_piece t = (if t = 0 then Some [97] else if t = 1 then Some [98] else if t = 2 then Some [99]
     else if t = 3 then Some [65533] else None)"

definition demo_tokenizer :: tokenizer where
  "demo_tokenizer = \<lparr>vocab_len = 4, convert_ids_to_tokens = (\<lambda>ids skip. map demo_piece ids),
     convert_tokens_to_string = (\<lambda>ts. concat (map (case_option [] id) ts)),
     all_special_tokens = [], get_added_vocab = [], is_fast = True\<rparr>"

definition demo_detok_request :: "py_text list \<Rightarrow> bool \<Rightarrow> detokenizer_request" where
  "demo_detok_request stops incl = \<lparr>dr_request_id = ''r'', dr_prompt = None, dr_prompt_token_ids = [0],
     dr_skip_special_tokens = False, dr_spaces_between_special_tokens = False, dr_output_kind = DELTA,
     dr_stop = stops, dr_include_stop_str_in_output = incl\<rparr>"

lemmas detok_run = demo_detok_request_def demo_tokenizer_def demo_piece_def from_new_request_def
  convert_prompt_ids_to_tokens_def INITIAL_INCREMENTAL_DETOKENIZATION_OFFSET_def replace_none_with_empty_def
  add_tokens_def decode_token_def detokenize_incrementally_def new_tokens_of_def text_of_def ends_with_def
  replacement_char_def apply_stop_def check_stop_strings_def py_find_def py_upto_def make_output_def
  truthy_def get_next_output_text_def py_slice_def shown_text_def streamed_def stream_done_def
  request_output_new_def set_completion_def generated_token_ids_def

section \<open>Streaming\<close>

text \<open>
  C29: A request with output kind \<open>DELTA\<close> and non-empty stop strings never fails, whatever the
  engine sends, and the deltas handed out never have to be taken back: concatenated they are the
  final output text once the request is finished, truncation at a stop string included, and before
  that the text without the characters held back for a stop string, in which no stop string occurs.
\<close>

theorem delta_stream_complete:
  assumes "dr_output_kind r = DELTA" and "[] \<notin> set (dr_stop r)"
  shows "\<exists>outs d. stream calls (from_new_request tk r) = Inr (outs, d)
    \<and> streamed outs = (if stream_done outs then output_text d else take (held_text d) (output_text d))
    \<and> (\<not> stream_done outs \<longrightarrow> no_stop (id_stop d) (output_text d))"
  using stream_delta [of "from_new_request tk r" calls] from_new_request_open [OF assms(2), of tk] assms(1)
  by simp

theorem delta_stream_complete_witness:
  "dr_output_kind (demo_detok_request [[98, 99]] False) = DELTA
   \<and> [] \<notin> set (dr_stop (demo_detok_request [[98, 99]] False))
   \<and> (\<exists>outs d. stream [([0], None, None), ([1], None, None), ([2], None, None)]
        (from_new_request demo_tokenizer (demo_detok_request [[98, 99]] False)) = Inr (outs, d)
      \<and> streamed outs = [97] \<and> output_text d = [97])"
  using delta_stream_complete [of "demo_detok_request [[98, 99]] False"
    "[([0], None, None), ([1], None, None), ([2], None, None)]" demo_tokenizer]
  by (simp add: detok_run)


section \<open>Stop strings\<close>




text \<open>
  The stop strings are tried in the order of the list, not by their place in the text: when a call
  brings two of them, the text may be cut at the later one and keep the earlier.
\<close>

lemma earlier_stop_string_survives:
  "\<exists>out d. add_tokens [1, 2] None None
      (from_new_request demo_tokenizer (demo_detok_request [[99], [98]] False)) = Inr (out, d)
    \<and> done_output out \<and> output_text d = [98] \<and> [98] \<in> set (dr_stop (demo_detok_request [[99], [98]] False))"
  by (simp add: detok_run done_output_def)

section \<open>Incremental decoding\<close>

















section \<open>The detokenizer of all requests\<close>














end
