(* ===== verification/Evictor.thy ===== *)
theory Evictor
  imports Request "HOL-Library.Product_Lexorder"
begin

text \<open>
  \<^verbatim>\<open>src/vllm/core/evictor.py\<close>: the evictor of the prefix-caching block allocator. The free table is
  an insertion-ordered dictionary; the priority queue is a list handled by \<^verbatim>\<open>heapq\<close> only, which
  promises no more of it than that \<open>heappop\<close> takes a smallest entry, so it is kept sorted here.
  Entries are tuples, compared lexicographically.
\<close>

section \<open>Model\<close>

datatype eviction_policy = LRU

record block_meta_data =
  bm_content_hash :: int
  bm_num_hashed_tokens :: int
  bm_last_accessed :: time

type_synonym queue_entry = "time \<times> int \<times> int \<times> int"

record lru_evictor =
  free_table :: "(int \<times> block_meta_data) list"
  priority_queue :: "queue_entry list"

definition heappush :: "queue_entry list \<Rightarrow> queue_entry \<Rightarrow> queue_entry list" where
  "heappush q e = insort e q"

definition heapify :: "queue_entry list \<Rightarrow> queue_entry list" where
  "heapify q = sort q"

definition CLEANUP_THRESHOLD :: nat where "CLEANUP_THRESHOLD = 50"

definition evictor_init :: lru_evictor where
  "evictor_init = \<lparr>free_table = [], priority_queue = []\<rparr>"

definition evictor_contains :: "int \<Rightarrow> lru_evictor \<Rightarrow> bool" where
  "evictor_contains b ev = (map_of (free_table ev) b \<noteq> None)"

text \<open>The loop of \<open>evict\<close>; the queue left behind has lost the outdated entries as well.\<close>

fun evict_loop ::
  "queue_entry list \<Rightarrow> (int \<times> block_meta_data) list \<Rightarrow> ((int \<times> int) \<times> lru_evictor) result" where
  "evict_loop [] table = Inl ValueError"
| "evict_loop ((la, nn, b, h) # q) table =
     (case map_of table b of
        None \<Rightarrow> evict_loop q table
      | Some m \<Rightarrow>
          if bm_last_accessed m = la
          then Inr ((b, h), \<lparr>free_table = dict_pop b table, priority_queue = q\<rparr>)
          else evict_loop q table)"

definition evict :: "lru_evictor \<Rightarrow> ((int \<times> int) \<times> lru_evictor) result" where
  "evict ev = (if length (free_table ev) = 0 then Inl ValueError
               else evict_loop (priority_queue ev) (free_table ev))"

definition meta_entry :: "int \<times> block_meta_data \<Rightarrow> queue_entry" where
  "meta_entry bm = (bm_last_accessed (snd bm), - bm_num_hashed_tokens (snd bm), fst bm, bm_content_hash (snd bm))"

definition cleanup :: "lru_evictor \<Rightarrow> lru_evictor" where
  "cleanup ev = ev\<lparr>priority_queue := heapify (map meta_entry (free_table ev))\<rparr>"

definition cleanup_if_necessary :: "lru_evictor \<Rightarrow> lru_evictor" where
  "cleanup_if_necessary ev =
     (if CLEANUP_THRESHOLD * length (free_table ev) < length (priority_queue ev) then cleanup ev else ev)"

definition evictor_add :: "int \<Rightarrow> int \<Rightarrow> int \<Rightarrow> time \<Rightarrow> lru_evictor \<Rightarrow> lru_evictor" where
  "evictor_add b h n la ev = cleanup_if_necessary
     (ev\<lparr>free_table := dict_set b \<lparr>bm_content_hash = h, bm_num_hashed_tokens = n, bm_last_accessed = la\<rparr> (free_table ev),
         priority_queue := heappush (priority_queue ev) (la, - n, b, h)\<rparr>)"

definition evictor_update :: "int \<Rightarrow> time \<Rightarrow> lru_evictor \<Rightarrow> lru_evictor result" where
  "evictor_update b la ev =
     (case map_of (free_table ev) b of
        None \<Rightarrow> Inl KeyError
      | Some m \<Rightarrow> Inr (ev\<lparr>free_table := dict_set b (m\<lparr>bm_last_accessed := la\<rparr>) (free_table ev)\<rparr>))"

definition evictor_remove :: "int \<Rightarrow> lru_evictor \<Rightarrow> lru_evictor result" where
  "evictor_remove b ev =
     (if \<not> evictor_contains b ev then Inl ValueError
      else Inr (ev\<lparr>free_table := dict_pop b (free_table ev)\<rparr>))"

definition evictor_num_blocks :: "lru_evictor \<Rightarrow> nat" where
  "evictor_num_blocks ev = length (free_table ev)"

definition make_evictor :: "eviction_policy \<Rightarrow> lru_evictor result" where
  "make_evictor policy = (case policy of LRU \<Rightarrow> Inr evictor_init)"

section \<open>Invariant\<close>

text \<open>
  The queue is sorted and has the entry of every block of the table; an entry that looks current
  (its block is in the table with its time) is that block's entry.
\<close>

definition evictor_ok :: "lru_evictor \<Rightarrow> bool" where
  "evictor_ok ev \<longleftrightarrow> sorted (priority_queue ev) \<and> distinct (map fst (free_table ev))
     \<and> (\<forall>b m. map_of (free_table ev) b = Some m \<longrightarrow> meta_entry (b, m) \<in> set (priority_queue ev))
     \<and> (\<forall>e \<in> set (priority_queue ev). \<forall>m. map_of (free_table ev) (fst (snd (snd e))) = Some m \<longrightarrow>
          fst e = bm_last_accessed m \<longrightarrow> e = meta_entry (fst (snd (snd e)), m))"

lemma evictor_init_ok: "evictor_ok evictor_init"
  by (simp add: evictor_ok_def evictor_init_def)

lemma cleanup_ok:
  assumes "distinct (map fst (free_table ev))"
  shows "evictor_ok (cleanup ev)"
proof -
  let ?q = "map meta_entry (free_table ev)"
  have "meta_entry (b, m) \<in> set ?q" if "map_of (free_table ev) b = Some m" for b m
    using map_of_SomeD [OF that] by simp
  moreover have "e = meta_entry (fst (snd (snd e)), m)"
    if e: "e \<in> set ?q" and m: "map_of (free_table ev) (fst (snd (snd e))) = Some m" for e m
  proof -
    from e obtain b m' where "(b, m') \<in> set (free_table ev)" and eq: "e = meta_entry (b, m')" by auto
    with assms have "map_of (free_table ev) b = Some m'" by (simp add: map_of_is_SomeI)
    with m eq show ?thesis by (simp add: meta_entry_def)
  qed
  ultimately show ?thesis
    unfolding evictor_ok_def cleanup_def heapify_def using assms by simp
qed

lemma cleanup_if_necessary_ok: "evictor_ok ev \<Longrightarrow> evictor_ok (cleanup_if_necessary ev)"
  by (simp add: cleanup_if_necessary_def cleanup_ok evictor_ok_def [of ev])

lemma cleanup_if_necessary_table [simp]: "free_table (cleanup_if_necessary ev) = free_table ev"
  by (simp add: cleanup_if_necessary_def cleanup_def)

text \<open>Adding keeps it when the block has no entry with that time yet.\<close>

lemma evictor_add_ok:
  assumes ok: "evictor_ok ev" and fresh: "\<forall>e \<in> set (priority_queue ev). fst (snd (snd e)) = b \<longrightarrow> fst e \<noteq> la"
  shows "evictor_ok (evictor_add b h n la ev)"
proof -
  let ?m = "\<lparr>bm_content_hash = h, bm_num_hashed_tokens = n, bm_last_accessed = la\<rparr>"
  let ?t = "dict_set b ?m (free_table ev)"
  have "distinct (map fst (free_table ev))" using ok by (simp add: evictor_ok_def)
  then have dt: "distinct (map fst ?t)" by (rule distinct_dict_set)
  have "meta_entry (b', m) \<in> set (heappush (priority_queue ev) (la, - n, b, h))" if "map_of ?t b' = Some m" for b' m
    using that ok by (auto simp: meta_entry_def heappush_def set_insort_key evictor_ok_def split: if_splits)
  moreover have "e = meta_entry (fst (snd (snd e)), m)"
    if "e \<in> set (heappush (priority_queue ev) (la, - n, b, h))" "map_of ?t (fst (snd (snd e))) = Some m"
      "fst e = bm_last_accessed m" for e m
  proof (cases "e = (la, - n, b, h)")
    case True
    with that(2) have "m = ?m" by simp
    with True show ?thesis by (simp add: meta_entry_def)
  next
    case False
    with that have "e \<in> set (priority_queue ev)" by (simp add: heappush_def set_insort_key)
    with that ok fresh show ?thesis by (auto simp: evictor_ok_def split: if_splits)
  qed
  ultimately show ?thesis unfolding evictor_add_def
    using ok dt by (intro cleanup_if_necessary_ok) (simp add: evictor_ok_def heappush_def sorted_insort del: map_of_dict_set)
qed

lemma evictor_ok_pop:
  "evictor_ok ev \<Longrightarrow> evictor_ok (ev\<lparr>free_table := dict_pop b (free_table ev)\<rparr>)"
  by (auto simp: evictor_ok_def distinct_dict_pop)

lemma evictor_remove_ok: "evictor_ok ev \<Longrightarrow> evictor_remove b ev = Inr ev' \<Longrightarrow> evictor_ok ev'"
  by (auto simp: evictor_remove_def evictor_ok_pop split: if_splits)

section \<open>Eviction\<close>

lemma evict_loop_finds:
  assumes "sorted q" and "map_of table b = Some m" and "meta_entry (b, m) \<in> set q"
    and "\<forall>e \<in> set q. \<forall>m. map_of table (fst (snd (snd e))) = Some m \<longrightarrow>
          fst e = bm_last_accessed m \<longrightarrow> e = meta_entry (fst (snd (snd e)), m)"
  shows "\<exists>b' m' q' skipped. evict_loop q table = Inr ((b', bm_content_hash m'), \<lparr>free_table = dict_pop b' table, priority_queue = q'\<rparr>)
    \<and> map_of table b' = Some m' \<and> q = skipped @ meta_entry (b', m') # q'
    \<and> (\<forall>b m. map_of table b = Some m \<longrightarrow> meta_entry (b, m) \<notin> set skipped)"
  using assms
proof (induction q)
  case (Cons e q)
  obtain la nn b' h where e: "e = (la, nn, b', h)" by (cases e)
  show ?case
  proof (cases "\<exists>m'. map_of table b' = Some m' \<and> bm_last_accessed m' = la")
    case True
    then obtain m' where m': "map_of table b' = Some m'" "bm_last_accessed m' = la" by blast
    with Cons.prems(4) have "e = meta_entry (b', m')" by (auto simp: e)
    with m' show ?thesis by (intro exI [of _ b'] exI [of _ m'] exI [of _ q] exI [of _ "[]"]) (auto simp: e meta_entry_def)
  next
    case False
    then have skip: "evict_loop (e # q) table = evict_loop q table" by (auto simp: e split: option.splits)
    have stale: "meta_entry (b, m) \<noteq> e" if "map_of table b = Some m" for b m
      using False that by (auto simp: e meta_entry_def)
    have "meta_entry (b, m) \<in> set q" using Cons.prems(2,3) stale by auto
    with Cons obtain b' m' q' skipped where "evict_loop q table = Inr ((b', bm_content_hash m'), \<lparr>free_table = dict_pop b' table, priority_queue = q'\<rparr>)"
      "map_of table b' = Some m'" "q = skipped @ meta_entry (b', m') # q'"
      "\<forall>b m. map_of table b = Some m \<longrightarrow> meta_entry (b, m) \<notin> set skipped" by auto
    with stale show ?thesis unfolding skip
      by (intro exI [of _ b'] exI [of _ m'] exI [of _ q'] exI [of _ "e # skipped"]) auto
  qed
qed simp

lemma evict_ok:
  assumes ok: "evictor_ok ev" and ne: "free_table ev \<noteq> []"
  obtains b m ev' where "evict ev = Inr ((b, bm_content_hash m), ev')" "map_of (free_table ev) b = Some m"
    "free_table ev' = dict_pop b (free_table ev)" "evictor_ok ev'"
    "\<And>b' m'. map_of (free_table ev) b' = Some m' \<Longrightarrow> meta_entry (b, m) \<le> meta_entry (b', m')"
proof -
  from ne obtain b0 m0 where b0: "map_of (free_table ev) b0 = Some m0"
    by (metis list.exhaust map_of_Cons_code(2) old.prod.exhaust)
  from ok b0 have "\<exists>b' m' q' skipped. evict_loop (priority_queue ev) (free_table ev)
        = Inr ((b', bm_content_hash m'), \<lparr>free_table = dict_pop b' (free_table ev), priority_queue = q'\<rparr>)
      \<and> map_of (free_table ev) b' = Some m' \<and> priority_queue ev = skipped @ meta_entry (b', m') # q'
      \<and> (\<forall>b m. map_of (free_table ev) b = Some m \<longrightarrow> meta_entry (b, m) \<notin> set skipped)"
    by (intro evict_loop_finds) (auto simp: evictor_ok_def)
  then obtain b m q skipped where R: "evict_loop (priority_queue ev) (free_table ev)
        = Inr ((b, bm_content_hash m), \<lparr>free_table = dict_pop b (free_table ev), priority_queue = q\<rparr>)"
      "map_of (free_table ev) b = Some m" "priority_queue ev = skipped @ meta_entry (b, m) # q"
      "\<forall>b m. map_of (free_table ev) b = Some m \<longrightarrow> meta_entry (b, m) \<notin> set skipped" by blast
  have fst3: "fst (snd (snd (meta_entry (x, y)))) = x" for x y by (simp add: meta_entry_def)
  have in_q: "meta_entry (b', m') \<in> insert (meta_entry (b, m)) (set q)"
    if "map_of (free_table ev) b' = Some m'" for b' m'
    using ok R(3,4) that by (auto simp: evictor_ok_def)
  have sorted_q: "sorted q" "\<forall>e \<in> set q. meta_entry (b, m) \<le> e"
    using ok R(3) by (auto simp: evictor_ok_def sorted_append)
  have "evictor_ok \<lparr>free_table = dict_pop b (free_table ev), priority_queue = q\<rparr>"
    using ok R(3) sorted_q in_q fst3
    by (auto simp: evictor_ok_def distinct_dict_pop) (metis fst3)
  moreover have "meta_entry (b, m) \<le> meta_entry (b', m')" if "map_of (free_table ev) b' = Some m'" for b' m'
    using in_q [OF that] sorted_q(2) by auto
  ultimately show thesis using R(1,2) ne by (intro that [of b m]) (auto simp: evict_def)
qed


section \<open>The interface of evictors\<close>

text \<open>
  The abstract class \<open>Evictor\<close>, as its allocator relies on it: eviction gives up one of the blocks
  held, and fails exactly when there is none. Calling it often enough then returns every block once.
\<close>

fun drain :: "('e \<Rightarrow> ((int \<times> int) \<times> 'e) result) \<Rightarrow> nat \<Rightarrow> 'e \<Rightarrow> (int list \<times> 'e) result" where
  "drain ev 0 e = Inr ([], e)"
| "drain ev (Suc n) e = andthen (ev e) (\<lambda>((b, _), e'). andthen (drain ev n e') (\<lambda>(bs, e''). Inr (b # bs, e'')))"

locale block_evictor =
  fixes ok :: "'e \<Rightarrow> bool" and held :: "'e \<Rightarrow> int set" and ev :: "'e \<Rightarrow> ((int \<times> int) \<times> 'e) result"
  assumes held_finite: "ok e \<Longrightarrow> finite (held e)"
    and evict_none: "ok e \<Longrightarrow> held e = {} \<Longrightarrow> ev e = Inl ValueError"
    and evict_one: "ok e \<Longrightarrow> held e \<noteq> {} \<Longrightarrow>
      \<exists>b h e'. ev e = Inr ((b, h), e') \<and> ok e' \<and> b \<in> held e \<and> held e' = held e - {b}"
begin

lemma drain_all:
  "ok e \<Longrightarrow> n = card (held e) \<Longrightarrow>
   \<exists>bs e'. drain ev n e = Inr (bs, e') \<and> distinct bs \<and> set bs = held e \<and> held e' = {} \<and> ok e'"
proof (induction n arbitrary: e)
  case 0
  then show ?case using held_finite by simp
next
  case (Suc n)
  then have "held e \<noteq> {}" by auto
  with evict_one [OF Suc.prems(1)] obtain b h e1 where E: "ev e = Inr ((b, h), e1)" "ok e1" "b \<in> held e"
    "held e1 = held e - {b}" by blast
  have "n = card (held e1)" using Suc.prems held_finite E(3,4) by simp
  from Suc.IH [OF E(2) this] obtain bs e' where "drain ev n e1 = Inr (bs, e')" "distinct bs" "set bs = held e1"
    "held e' = {}" "ok e'" by blast
  with E show ?case by (intro exI [of _ "b # bs"] exI [of _ e']) auto
qed

lemma drain_then_fails:
  "ok e \<Longrightarrow> \<exists>bs e'. drain ev (card (held e)) e = Inr (bs, e') \<and> distinct bs \<and> set bs = held e \<and> ev e' = Inl ValueError"
  using drain_all [of e "card (held e)"] evict_none by blast

end

lemma keys_dict_pop_set: "set (map fst (dict_pop k d)) = set (map fst d) - {k}"
  by (induction d) (auto simp: dict_pop_def)

interpretation lru: block_evictor evictor_ok "\<lambda>ev. set (map fst (free_table ev))" evict
proof
  fix e
  assume ok: "evictor_ok e"
  show "finite (set (map fst (free_table e)))" by simp
  show "evict e = Inl ValueError" if "set (map fst (free_table e)) = {}" using that by (simp add: evict_def)
  show "\<exists>b h e'. evict e = Inr ((b, h), e') \<and> evictor_ok e' \<and> b \<in> set (map fst (free_table e))
      \<and> set (map fst (free_table e')) = set (map fst (free_table e)) - {b}"
    if "set (map fst (free_table e)) \<noteq> {}"
  proof -
    from that have "free_table e \<noteq> []" by auto
    with ok obtain b m ev' where "evict e = Inr ((b, bm_content_hash m), ev')" "map_of (free_table e) b = Some m"
      "free_table ev' = dict_pop b (free_table e)" "evictor_ok ev'" by (rule evict_ok) blast
    then show ?thesis using keys_dict_pop_set [of b "free_table e"] by (metis image_eqI fst_conv list.set_map map_of_SomeD)
  qed
qed

end
