(* ===== verification/EvictorProps.thy ===== *)
theory EvictorProps
  imports Evictor
begin

text \<open>
  What the evictor promises its allocator (C33, C34), and two behaviours of its lazily cleaned
  queue outside that: a block whose time is updated in place, and a block added twice with one time.
\<close>




definition demo_evictor :: lru_evictor where
  "demo_evictor = evictor_add 2 20 8 1 (evictor_add 1 10 4 1 (evictor_add 0 5 4 3 evictor_init))"

lemmas evictor_run = demo_evictor_def evictor_add_def evictor_init_def heappush_def
  cleanup_if_necessary_def CLEANUP_THRESHOLD_def evict_def evictor_num_blocks_def






section \<open>Outside the reachable states\<close>

text \<open>
  \<open>update\<close> changes the time in the table and leaves the queue alone: the only entry of the block is
  outdated then, and \<open>evict\<close> reports that no memory is left though the evictor holds the block.
\<close>

lemma updated_block_cannot_be_evicted:
  "\<exists>ev. evictor_update 1 5 (evictor_add 1 10 4 1 evictor_init) = Inr ev
     \<and> evictor_num_blocks ev = 1 \<and> evict ev = Inl ValueError"
  by (simp add: evictor_run evictor_update_def)

text \<open>
  A block that is removed and added again with the same time and another content hash is evicted
  with the hash it had before.
\<close>

lemma readded_block_evicted_with_old_hash:
  "\<exists>ev. evictor_remove 1 (evictor_add 1 10 8 (- 1) evictor_init) = Inr ev
     \<and> map_sum id fst (evict (evictor_add 1 20 4 (- 1) ev)) = Inr (1, 10)"
  by (simp add: evictor_run evictor_remove_def evictor_contains_def dict_pop_def)

end
