(* ===== verification/BlockCommon.thy ===== *)
theory BlockCommon
  imports Request
begin

text \<open>
  \<^verbatim>\<open>src/vllm/core/block/common.py\<close>: reference counters, the copy-on-write tracker, the pool of
  block objects, the block list and the cache metric, with the block objects of
  \<^verbatim>\<open>src/vllm/core/block/naive_block.py\<close> (\<open>NaiveBlock\<close>) the pool holds. Block objects are shared
  and mutated, so they live in the pool's list and are named by their index in it, which is the
  \<open>pool_id\<close> they carry. All blocks of a pool belong to one allocator, and their copy-on-write target
  is always the block itself.
\<close>

section \<open>Reference counters\<close>

type_synonym refcounts = "int \<rightharpoonup> int"

definition rc_init :: "int list \<Rightarrow> refcounts" where
  "rc_init ids = (\<lambda>b. if b \<in> set ids then Some 0 else None)"

definition rc_incr :: "int \<Rightarrow> refcounts \<Rightarrow> (int \<times> refcounts) result" where
  "rc_incr b rc =
     (case rc b of
        None \<Rightarrow> Inl AssertionError
      | Some n \<Rightarrow> if 0 \<le> n then Inr (n + 1, rc(b \<mapsto> n + 1)) else Inl AssertionError)"

definition rc_decr :: "int \<Rightarrow> refcounts \<Rightarrow> (int \<times> refcounts) result" where
  "rc_decr b rc =
     (case rc b of
        None \<Rightarrow> Inl AssertionError
      | Some n \<Rightarrow> if 0 < n then Inr (n - 1, rc(b \<mapsto> n - 1)) else Inl AssertionError)"

definition rc_get :: "int \<Rightarrow> refcounts \<Rightarrow> int result" where
  "rc_get b rc = (case rc b of None \<Rightarrow> Inl AssertionError | Some n \<Rightarrow> Inr n)"

text \<open>The read-only view.\<close>

definition ro_incr :: "int \<Rightarrow> refcounts \<Rightarrow> int result" where
  "ro_incr b rc = Inl ValueError"

definition ro_decr :: "int \<Rightarrow> refcounts \<Rightarrow> int result" where
  "ro_decr b rc = Inl ValueError"

definition ro_get :: "int \<Rightarrow> refcounts \<Rightarrow> int result" where
  "ro_get b rc = rc_get b rc"

section \<open>Block objects\<close>

record naive_block =
  nb_token_ids :: "token list"
  nb_block_size :: int
  nb_prev_block :: "nat option"
  nb_block_id :: "int option"

definition num_empty_slots :: "naive_block \<Rightarrow> int" where
  "num_empty_slots b = nb_block_size b - int (length (nb_token_ids b))"

definition nb_is_full :: "naive_block \<Rightarrow> bool" where
  "nb_is_full b = (num_empty_slots b = 0)"

definition append_token_ids_no_cow :: "token list \<Rightarrow> naive_block \<Rightarrow> naive_block result" where
  "append_token_ids_no_cow ts b =
     (if length ts = 0 then Inr b
      else andthen (py_assert (int (length ts) \<le> num_empty_slots b))
             (\<lambda>_. Inr (b\<lparr>nb_token_ids := nb_token_ids b @ ts\<rparr>)))"

definition naive_block_init ::
  "nat option \<Rightarrow> token list \<Rightarrow> int \<Rightarrow> int option \<Rightarrow> naive_block result" where
  "naive_block_init prev ts bsz bid =
     append_token_ids_no_cow ts
       \<lparr>nb_token_ids = [], nb_block_size = bsz, nb_prev_block = prev, nb_block_id = bid\<rparr>"

section \<open>Copy-on-write tracker\<close>

definition is_appendable :: "naive_block \<Rightarrow> refcounts \<Rightarrow> bool result" where
  "is_appendable b rc =
     (case nb_block_id b of None \<Rightarrow> Inr True | Some bid \<Rightarrow> andthen (ro_get bid rc) (\<lambda>n. Inr (n \<le> 1)))"

definition record_cow ::
  "int option \<Rightarrow> int option \<Rightarrow> (int \<times> int) list \<Rightarrow> (int \<times> int) list result" where
  "record_cow src trg cows =
     (case (src, trg) of (Some s, Some t) \<Rightarrow> Inr (cows @ [(s, t)]) | _ \<Rightarrow> Inl AssertionError)"

definition clear_cows :: "(int \<times> int) list \<Rightarrow> (int \<times> int) list \<times> (int \<times> int) list" where
  "clear_cows cows = (cows, [])"

section \<open>Block pool\<close>

record block_pool =
  bp_block_size :: int
  bp_pool_size :: nat
  free_ids :: "nat list"
  bp_pool :: "naive_block list"

definition empty_block :: "int \<Rightarrow> naive_block" where
  "empty_block bsz = \<lparr>nb_token_ids = [], nb_block_size = bsz, nb_prev_block = None, nb_block_id = None\<rparr>"

definition pool_init :: "int \<Rightarrow> int \<Rightarrow> block_pool result" where
  "pool_init bsz n =
     andthen (py_assert (0 \<le> n))
       (\<lambda>_. Inr \<lparr>bp_block_size = bsz, bp_pool_size = nat n, free_ids = [0..<nat n],
                 bp_pool = replicate (nat n) (empty_block bsz)\<rparr>)"

definition increase_pool :: "block_pool \<Rightarrow> block_pool" where
  "increase_pool p =
     (let cur = bp_pool_size p; new = cur * 2
      in p\<lparr>bp_pool_size := new, free_ids := free_ids p @ [cur..<new],
           bp_pool := bp_pool p @ replicate (new - cur) (empty_block (bp_block_size p))\<rparr>)"

definition pool_init_block ::
  "nat option \<Rightarrow> token list \<Rightarrow> int \<Rightarrow> int option \<Rightarrow> block_pool \<Rightarrow> (nat \<times> block_pool) result" where
  "pool_init_block prev ts bsz bid p =
     andthen (if free_ids p = []
              then let p = increase_pool p in andthen (py_assert (free_ids p \<noteq> [])) (\<lambda>_. Inr p)
              else Inr p) (\<lambda>p.
       let i = hd (free_ids p); p = p\<lparr>free_ids := tl (free_ids p)\<rparr>
       in andthen (naive_block_init prev ts bsz bid)
            (\<lambda>b. Inr (i, p\<lparr>bp_pool := (bp_pool p)[i := b]\<rparr>)))"

definition pool_free_block :: "nat \<Rightarrow> block_pool \<Rightarrow> block_pool" where
  "pool_free_block i p = p\<lparr>free_ids := i # free_ids p\<rparr>"

text \<open>
  \<open>get_all_blocks_recursively\<close>: the chain of previous blocks, first block first. A chain longer than
  the pool has a cycle, and the recursion ends in Python's \<^verbatim>\<open>RecursionError\<close>, a \<open>RuntimeError\<close>.
\<close>

fun recurse_blocks :: "naive_block list \<Rightarrow> nat \<Rightarrow> nat \<Rightarrow> nat list result" where
  "recurse_blocks pool 0 i = Inl RuntimeError"
| "recurse_blocks pool (Suc fuel) i =
     (case nb_prev_block (pool ! i) of
        None \<Rightarrow> Inr [i]
      | Some j \<Rightarrow> andthen (recurse_blocks pool fuel j) (\<lambda>is. Inr (is @ [i])))"

definition get_all_blocks_recursively :: "naive_block list \<Rightarrow> nat \<Rightarrow> nat list result" where
  "get_all_blocks_recursively pool i = recurse_blocks pool (length pool) i"

section \<open>Cache metric\<close>

text \<open>Floating-point numbers are idealised to rationals.\<close>

record cache_metric =
  num_completed_blocks :: int
  completed_block_cache_hit_rate :: rat
  num_incompleted_block_queries :: int
  num_incompleted_block_hit :: int
  cm_block_size :: int

definition cache_metric_init :: cache_metric where
  "cache_metric_init = \<lparr>num_completed_blocks = 0, completed_block_cache_hit_rate = 0,
     num_incompleted_block_queries = 0, num_incompleted_block_hit = 0, cm_block_size = 1000\<rparr>"

definition cm_query :: "bool \<Rightarrow> cache_metric \<Rightarrow> cache_metric" where
  "cm_query hit c =
     (let c = c\<lparr>num_incompleted_block_queries := num_incompleted_block_queries c + 1,
                num_incompleted_block_hit := num_incompleted_block_hit c + (if hit then 1 else 0)\<rparr>
      in if num_incompleted_block_queries c = cm_block_size c
         then let hit_rate = of_int (num_incompleted_block_hit c) / of_int (num_incompleted_block_queries c)
              in c\<lparr>completed_block_cache_hit_rate :=
                     (completed_block_cache_hit_rate c * of_int (num_completed_blocks c) + hit_rate)
                       / of_int (num_completed_blocks c + 1),
                   num_incompleted_block_queries := 0, num_incompleted_block_hit := 0,
                   num_completed_blocks := num_completed_blocks c + 1\<rparr>
         else c)"

definition get_hit_rate :: "cache_metric \<Rightarrow> rat" where
  "get_hit_rate c =
     (let incomplete_ratio = of_int (num_incompleted_block_queries c) / of_int (cm_block_size c);
          total_blocks = of_int (num_completed_blocks c) + incomplete_ratio
      in if total_blocks = 0 then 0
         else let completed_block_hit =
                    (if 0 < num_completed_blocks c
                     then completed_block_cache_hit_rate c * of_int (num_completed_blocks c) else 0);
                  incompleted_block_hit =
                    (if 0 < num_incompleted_block_queries c
                     then of_int (num_incompleted_block_hit c) / of_int (num_incompleted_block_queries c)
                          * incomplete_ratio else 0)
              in (completed_block_hit + incompleted_block_hit) / total_blocks)"

end
