(* ===== verification/NaiveAllocator.thy ===== *)
theory NaiveAllocator
  imports BlockCommon
begin

text \<open>
  \<^verbatim>\<open>src/vllm/core/block/naive_block.py\<close>, \<open>NaiveBlockAllocator\<close>: reference-counted blocks without
  prefix caching, with the block objects of its pool, and \<open>BlockList\<close> of
  \<^verbatim>\<open>src/vllm/core/block/common.py\<close>, whose operations append to such blocks.
\<close>

section \<open>Model\<close>

record naive_allocator =
  free_block_indices :: "int list"
  all_block_indices :: "int set"
  na_refcounts :: refcounts
  na_block_size :: int
  copy_on_writes :: "(int \<times> int) list"
  na_pool :: block_pool

text \<open>
  The constructor, with the block pool it creates when none is passed; the default block ids are
  \<^verbatim>\<open>range(num_blocks)\<close>.
\<close>

definition naive_init :: "int \<Rightarrow> int \<Rightarrow> int list option \<Rightarrow> naive_allocator result" where
  "naive_init num_blocks bsz ids =
     (let ids = (case ids of None \<Rightarrow> [0..num_blocks - 1] | Some xs \<Rightarrow> xs)
      in andthen (py_assert (int (card (set ids)) = num_blocks)) (\<lambda>_.
         andthen (pool_init bsz (num_blocks * 4)) (\<lambda>p.
           Inr \<lparr>free_block_indices = ids, all_block_indices = set ids, na_refcounts = rc_init ids,
                na_block_size = bsz, copy_on_writes = [], na_pool = p\<rparr>)))"

definition blk :: "naive_allocator \<Rightarrow> nat \<Rightarrow> naive_block" where
  "blk a i = bp_pool (na_pool a) ! i"

definition set_blk :: "nat \<Rightarrow> naive_block \<Rightarrow> naive_allocator \<Rightarrow> naive_allocator" where
  "set_blk i b a = a\<lparr>na_pool := (na_pool a)\<lparr>bp_pool := (bp_pool (na_pool a))[i := b]\<rparr>\<rparr>"

definition allocate_block_id :: "naive_allocator \<Rightarrow> (int \<times> naive_allocator) result" where
  "allocate_block_id a =
     (case free_block_indices a of
        [] \<Rightarrow> Inl NoFreeBlocksError
      | b # rest \<Rightarrow>
          andthen (rc_incr b (na_refcounts a))
            (\<lambda>(_, rc). Inr (b, a\<lparr>free_block_indices := rest, na_refcounts := rc\<rparr>)))"

definition free_block_id :: "nat \<Rightarrow> naive_allocator \<Rightarrow> naive_allocator result" where
  "free_block_id i a =
     (case nb_block_id (blk a i) of
        None \<Rightarrow> Inl AssertionError
      | Some b \<Rightarrow>
          andthen (rc_decr b (na_refcounts a)) (\<lambda>(n, rc).
            let a = a\<lparr>na_refcounts := rc,
                      free_block_indices := (if n = 0 then b # free_block_indices a else free_block_indices a)\<rparr>
            in Inr (set_blk i ((blk a i)\<lparr>nb_block_id := None\<rparr>) a)))"

definition na_init_block ::
  "nat option \<Rightarrow> token list \<Rightarrow> int option \<Rightarrow> naive_allocator \<Rightarrow> (nat \<times> naive_allocator) result" where
  "na_init_block prev ts bid a =
     andthen (pool_init_block prev ts (na_block_size a) bid (na_pool a)) (\<lambda>(i, p). Inr (i, a\<lparr>na_pool := p\<rparr>))"

definition allocate_mutable_block :: "nat option \<Rightarrow> naive_allocator \<Rightarrow> (nat \<times> naive_allocator) result" where
  "allocate_mutable_block prev a =
     andthen (allocate_block_id a) (\<lambda>(b, a). na_init_block prev [] (Some b) a)"

definition cow_block_if_not_appendable :: "nat \<Rightarrow> naive_allocator \<Rightarrow> (int \<times> naive_allocator) result" where
  "cow_block_if_not_appendable i a =
     (case nb_block_id (blk a i) of
        None \<Rightarrow> Inl AssertionError
      | Some src \<Rightarrow>
          andthen (is_appendable (blk a i) (na_refcounts a)) (\<lambda>ok.
            if ok then Inr (src, a)
            else andthen (free_block_id i a) (\<lambda>a.
                 andthen (allocate_block_id a) (\<lambda>(trg, a).
                 andthen (record_cow (Some src) (Some trg) (copy_on_writes a)) (\<lambda>cows.
                   Inr (trg, a\<lparr>copy_on_writes := cows\<rparr>))))))"

text \<open>\<open>NaiveBlock.append_token_ids\<close>.\<close>

definition append_token_ids :: "nat \<Rightarrow> token list \<Rightarrow> naive_allocator \<Rightarrow> naive_allocator result" where
  "append_token_ids i ts a =
     andthen (append_token_ids_no_cow ts (blk a i)) (\<lambda>b.
       let a = set_blk i b a
       in case nb_block_id b of
            None \<Rightarrow> Inr a
          | Some _ \<Rightarrow> andthen (cow_block_if_not_appendable i a)
                        (\<lambda>(bid, a). Inr (set_blk i ((blk a i)\<lparr>nb_block_id := Some bid\<rparr>) a)))"

definition allocate_immutable_block ::
  "nat option \<Rightarrow> token list \<Rightarrow> naive_allocator \<Rightarrow> (nat \<times> naive_allocator) result" where
  "allocate_immutable_block prev ts a =
     andthen (allocate_mutable_block prev a) (\<lambda>(i, a).
       andthen (append_token_ids i ts a) (\<lambda>a. Inr (i, a)))"

fun allocate_ids :: "nat \<Rightarrow> naive_allocator \<Rightarrow> (int list \<times> naive_allocator) result" where
  "allocate_ids 0 a = Inr ([], a)"
| "allocate_ids (Suc n) a =
     andthen (allocate_block_id a) (\<lambda>(b, a). andthen (allocate_ids n a) (\<lambda>(bs, a). Inr (b # bs, a)))"

fun init_blocks ::
  "nat option \<Rightarrow> (token list \<times> int) list \<Rightarrow> naive_allocator \<Rightarrow> (nat list \<times> naive_allocator) result" where
  "init_blocks prev [] a = Inr ([], a)"
| "init_blocks prev ((ts, b) # rest) a =
     andthen (na_init_block prev ts (Some b) a) (\<lambda>(i, a).
       andthen (init_blocks (Some i) rest a) (\<lambda>(is, a). Inr (i # is, a)))"

definition allocate_immutable_blocks ::
  "nat option \<Rightarrow> token list list \<Rightarrow> naive_allocator \<Rightarrow> (nat list \<times> naive_allocator) result" where
  "allocate_immutable_blocks prev tss a =
     andthen (allocate_ids (length tss) a) (\<lambda>(bs, a). init_blocks prev (zip tss bs) a)"

definition na_free :: "nat \<Rightarrow> bool \<Rightarrow> naive_allocator \<Rightarrow> naive_allocator result" where
  "na_free i keep_block_object a =
     andthen (free_block_id i a) (\<lambda>a.
       Inr (if keep_block_object then a else a\<lparr>na_pool := pool_free_block i (na_pool a)\<rparr>))"

fun fork_loop :: "nat list \<Rightarrow> nat option \<Rightarrow> naive_allocator \<Rightarrow> (nat list \<times> naive_allocator) result" where
  "fork_loop [] prev a = Inr ([], a)"
| "fork_loop (s # ss) prev a =
     (case nb_block_id (blk a s) of
        None \<Rightarrow> Inl AssertionError
      | Some b \<Rightarrow>
          andthen (rc_incr b (na_refcounts a)) (\<lambda>(n, rc).
          andthen (py_assert (n \<noteq> 1)) (\<lambda>_.
          andthen (na_init_block prev (nb_token_ids (blk a s)) (Some b) (a\<lparr>na_refcounts := rc\<rparr>)) (\<lambda>(i, a).
          andthen (fork_loop ss (Some i) a) (\<lambda>(is, a). Inr (i # is, a))))))"

definition na_fork :: "nat \<Rightarrow> naive_allocator \<Rightarrow> (nat list \<times> naive_allocator) result" where
  "na_fork last_block a =
     andthen (get_all_blocks_recursively (bp_pool (na_pool a)) last_block) (\<lambda>source. fork_loop source None a)"

definition na_num_free_blocks :: "naive_allocator \<Rightarrow> nat" where
  "na_num_free_blocks a = length (free_block_indices a)"

definition na_num_total_blocks :: "naive_allocator \<Rightarrow> nat" where
  "na_num_total_blocks a = card (all_block_indices a)"

definition get_physical_block_id :: "int \<Rightarrow> naive_allocator \<Rightarrow> nat result" where
  "get_physical_block_id absolute_id a =
     (let ids = sorted_list_of_set (all_block_indices a)
      in if absolute_id \<in> set ids then Inr (length (takeWhile (\<lambda>x. x \<noteq> absolute_id) ids)) else Inl ValueError)"

definition clear_copy_on_writes :: "naive_allocator \<Rightarrow> (int \<times> int) list \<times> naive_allocator" where
  "clear_copy_on_writes a = (let (cows, rest) = clear_cows (copy_on_writes a) in (cows, a\<lparr>copy_on_writes := rest\<rparr>))"

definition get_num_full_blocks_touched :: "nat list \<Rightarrow> naive_allocator \<Rightarrow> nat" where
  "get_num_full_blocks_touched is a = card (set (filter (\<lambda>i. nb_is_full (blk a i)) is))"

definition na_swap_out :: "nat list \<Rightarrow> naive_allocator \<Rightarrow> naive_allocator result" where
  "na_swap_out is a = fold_result free_block_id is a"

definition swap_in_block :: "nat \<Rightarrow> naive_allocator \<Rightarrow> naive_allocator result" where
  "swap_in_block i a =
     (let b = blk a i
      in andthen (if nb_is_full b then allocate_immutable_block (nb_prev_block b) (nb_token_ids b) a
                  else andthen (allocate_mutable_block (nb_prev_block b) a) (\<lambda>(tmp, a).
                         andthen (append_token_ids tmp (nb_token_ids b) a) (\<lambda>a. Inr (tmp, a))))
           (\<lambda>(tmp, a).
             let bid = nb_block_id (blk a tmp);
                 a = set_blk tmp ((blk a tmp)\<lparr>nb_block_id := None\<rparr>) a;
                 a = a\<lparr>na_pool := pool_free_block tmp (na_pool a)\<rparr>
             in Inr (set_blk i ((blk a i)\<lparr>nb_block_id := bid\<rparr>) a)))"

definition na_swap_in :: "nat list \<Rightarrow> naive_allocator \<Rightarrow> naive_allocator result" where
  "na_swap_in is a = fold_result swap_in_block is a"

definition promote_to_immutable_block :: "nat \<Rightarrow> naive_allocator \<Rightarrow> int result" where
  "promote_to_immutable_block i a = Inl NotImplementedError"

section \<open>Block lists\<close>

record block_list =
  bl_blocks :: "nat list"
  bl_block_ids :: "int list"

fun collect_ids :: "naive_allocator \<Rightarrow> nat list \<Rightarrow> int list result" where
  "collect_ids a [] = Inr []"
| "collect_ids a (i # is) =
     (case nb_block_id (blk a i) of
        None \<Rightarrow> Inl AssertionError
      | Some b \<Rightarrow> andthen (collect_ids a is) (\<lambda>bs. Inr (b # bs)))"

definition bl_update :: "naive_allocator \<Rightarrow> nat list \<Rightarrow> block_list result" where
  "bl_update a is = andthen (collect_ids a is) (\<lambda>bs. Inr \<lparr>bl_blocks = is, bl_block_ids = bs\<rparr>)"

definition bl_append :: "naive_allocator \<Rightarrow> nat \<Rightarrow> block_list \<Rightarrow> block_list result" where
  "bl_append a i bl =
     (case nb_block_id (blk a i) of
        None \<Rightarrow> Inl AssertionError
      | Some b \<Rightarrow> Inr (bl\<lparr>bl_blocks := bl_blocks bl @ [i], bl_block_ids := bl_block_ids bl @ [b]\<rparr>))"

definition bl_setitem :: "naive_allocator \<Rightarrow> nat \<Rightarrow> nat \<Rightarrow> block_list \<Rightarrow> block_list result" where
  "bl_setitem a k i bl =
     (if length (bl_blocks bl) \<le> k then Inl IndexError
      else case nb_block_id (blk a i) of
        None \<Rightarrow> Inl AssertionError
      | Some b \<Rightarrow>
          if length (bl_block_ids bl) \<le> k then Inl IndexError
          else Inr (bl\<lparr>bl_blocks := (bl_blocks bl)[k := i], bl_block_ids := (bl_block_ids bl)[k := b]\<rparr>))"

definition bl_append_token_ids ::
  "nat \<Rightarrow> token list \<Rightarrow> block_list \<times> naive_allocator \<Rightarrow> (block_list \<times> naive_allocator) result" where
  "bl_append_token_ids k ts st =
     (let (bl, a) = st
      in if length (bl_blocks bl) \<le> k then Inl IndexError
         else let i = bl_blocks bl ! k; prev = nb_block_id (blk a i)
              in andthen (append_token_ids i ts a) (\<lambda>a.
                   if prev \<noteq> nb_block_id (blk a i)
                   then case nb_block_id (blk a i) of
                          None \<Rightarrow> Inl AssertionError
                        | Some b \<Rightarrow>
                            if length (bl_block_ids bl) \<le> k then Inl IndexError
                            else Inr (bl\<lparr>bl_block_ids := (bl_block_ids bl)[k := b]\<rparr>, a)
                   else Inr (bl, a)))"

definition bl_reset :: "block_list \<Rightarrow> block_list" where
  "bl_reset bl = \<lparr>bl_blocks = [], bl_block_ids = []\<rparr>"

end
