(* ===== verification/NaiveInv.thy ===== *)
theory NaiveInv
  imports NaiveAllocator
begin

text \<open>
  The invariant of the naive allocator: a block's reference count is the number of block objects
  that hold it, plus the ids taken by an operation that has not stored them yet; the free list has
  exactly the ids nobody holds; the pool's free objects hold nothing. Every operation keeps it.
\<close>

section \<open>Invariant\<close>

definition holders :: "naive_allocator \<Rightarrow> int \<Rightarrow> nat" where
  "holders a b = count_list (map nb_block_id (bp_pool (na_pool a))) (Some b)"

definition pool_ok :: "block_pool \<Rightarrow> bool" where
  "pool_ok p \<longleftrightarrow> length (bp_pool p) = bp_pool_size p \<and> distinct (free_ids p)
     \<and> (\<forall>i \<in> set (free_ids p). i < bp_pool_size p \<and> nb_block_id (bp_pool p ! i) = None)"

definition fits :: "int \<Rightarrow> naive_block \<Rightarrow> bool" where
  "fits bsz b \<longleftrightarrow> nb_block_size b = bsz \<and> (nb_token_ids b = [] \<or> int (length (nb_token_ids b)) \<le> bsz)"

definition na_inv :: "int list \<Rightarrow> naive_allocator \<Rightarrow> bool" where
  "na_inv ps a \<longleftrightarrow> finite (all_block_indices a) \<and> set ps \<subseteq> all_block_indices a
     \<and> (\<forall>b. na_refcounts a b =
          (if b \<in> all_block_indices a then Some (int (holders a b + count_list ps b)) else None))
     \<and> (\<forall>b. b \<notin> all_block_indices a \<longrightarrow> holders a b = 0)
     \<and> distinct (free_block_indices a)
     \<and> set (free_block_indices a) = {b \<in> all_block_indices a. holders a b + count_list ps b = 0}
     \<and> pool_ok (na_pool a) \<and> bp_block_size (na_pool a) = na_block_size a
     \<and> (\<forall>x \<in> set (bp_pool (na_pool a)). fits (na_block_size a) x)"

definition live :: "naive_allocator \<Rightarrow> nat \<Rightarrow> bool" where
  "live a i \<longleftrightarrow> i < length (bp_pool (na_pool a)) \<and> i \<notin> set (free_ids (na_pool a))"

lemma count_list_update:
  "i < length xs \<Longrightarrow> count_list (xs[i := v]) y + (if xs ! i = y then 1 else 0)
     = count_list xs y + (if v = y then 1 else 0)"
proof (induction xs arbitrary: i)
  case (Cons x xs)
  show ?case
  proof (cases i)
    case (Suc k)
    with Cons.IH [of k] Cons.prems show ?thesis by (auto split: if_splits)
  qed simp
qed simp

lemma holders_set_blk:
  "i < length (bp_pool (na_pool a)) \<Longrightarrow>
   holders (set_blk i x a) b + (if nb_block_id (blk a i) = Some b then 1 else 0)
     = holders a b + (if nb_block_id x = Some b then 1 else 0)"
  using count_list_update [of i "map nb_block_id (bp_pool (na_pool a))" "nb_block_id x" "Some b"]
  by (simp add: holders_def set_blk_def blk_def map_update)

lemma holders_pos: "i < length (bp_pool (na_pool a)) \<Longrightarrow> nb_block_id (blk a i) = Some b \<Longrightarrow> 0 < holders a b"
  unfolding holders_def count_list_pos_iff blk_def by (metis image_eqI list.set_map nth_mem)

lemma set_blk_simps [simp]:
  "free_block_indices (set_blk i x a) = free_block_indices a"
  "all_block_indices (set_blk i x a) = all_block_indices a"
  "na_refcounts (set_blk i x a) = na_refcounts a"
  "na_block_size (set_blk i x a) = na_block_size a"
  "copy_on_writes (set_blk i x a) = copy_on_writes a"
  "free_ids (na_pool (set_blk i x a)) = free_ids (na_pool a)"
  "bp_pool_size (na_pool (set_blk i x a)) = bp_pool_size (na_pool a)"
  "bp_block_size (na_pool (set_blk i x a)) = bp_block_size (na_pool a)"
  "length (bp_pool (na_pool (set_blk i x a))) = length (bp_pool (na_pool a))"
  by (simp_all add: set_blk_def)

lemma blk_set_blk: "i < length (bp_pool (na_pool a)) \<Longrightarrow> blk (set_blk i x a) j = (if j = i then x else blk a j)"
  by (simp add: blk_def set_blk_def)

lemma live_set_blk [simp]: "live (set_blk i x a) j = live a j"
  by (simp add: live_def)

section \<open>The steps the operations are made of\<close>

lemma allocate_block_id_inv:
  assumes inv: "na_inv ps a" and ne: "free_block_indices a \<noteq> []"
  obtains b a' where "allocate_block_id a = Inr (b, a')" "na_inv (b # ps) a'"
    "a' = a\<lparr>free_block_indices := tl (free_block_indices a), na_refcounts := (na_refcounts a)(b \<mapsto> 1)\<rparr>"
    "b = hd (free_block_indices a)" "holders a b = 0" "na_refcounts a' b = Some 1"
proof -
  obtain b rest where f: "free_block_indices a = b # rest" using ne by (cases "free_block_indices a") auto
  have b: "b \<in> all_block_indices a" "holders a b = 0" "count_list ps b = 0" "b \<notin> set rest"
    using inv f by (auto simp: na_inv_def)
  then have rc: "na_refcounts a b = Some 0" using inv by (simp add: na_inv_def)
  let ?a = "a\<lparr>free_block_indices := rest, na_refcounts := (na_refcounts a)(b \<mapsto> 1)\<rparr>"
  have "holders ?a = holders a" by (simp add: holders_def fun_eq_iff)
  moreover have "set rest = {b' \<in> all_block_indices a. holders a b' + count_list (b # ps) b' = 0}"
    using inv f b(4) by (auto simp: na_inv_def)
  ultimately have "na_inv (b # ps) ?a" using inv f b by (auto simp: na_inv_def)
  then show thesis using f rc b by (intro that [of b ?a]) (simp_all add: allocate_block_id_def rc_incr_def)
qed

lemma allocate_block_id_empty: "free_block_indices a = [] \<Longrightarrow> allocate_block_id a = Inl NoFreeBlocksError"
  by (simp add: allocate_block_id_def)

lemma free_block_id_inv:
  assumes inv: "na_inv ps a" and i: "live a i" and b: "nb_block_id (blk a i) = Some b"
  obtains a' where "free_block_id i a = Inr a'" "na_inv ps a'"
    "na_pool a' = na_pool (set_blk i ((blk a i)\<lparr>nb_block_id := None\<rparr>) a)"
    "all_block_indices a' = all_block_indices a" "copy_on_writes a' = copy_on_writes a"
    "na_refcounts a' = (na_refcounts a)(b \<mapsto> int (holders a b + count_list ps b) - 1)"
    "na_block_size a' = na_block_size a"
    "free_block_indices a' = (if holders a b + count_list ps b = 1 then b # free_block_indices a else free_block_indices a)"
proof -
  have len: "i < length (bp_pool (na_pool a))" using i by (simp add: live_def)
  have pos: "0 < holders a b" using len b by (rule holders_pos)
  then have ball: "b \<in> all_block_indices a" using inv by (auto simp: na_inv_def)
  let ?n = "holders a b + count_list ps b"
  let ?x = "(blk a i)\<lparr>nb_block_id := None\<rparr>"
  have rc: "na_refcounts a b = Some (int ?n)" using inv ball by (simp add: na_inv_def)
  let ?c = "a\<lparr>na_refcounts := (na_refcounts a)(b \<mapsto> int ?n - 1),
              free_block_indices := (if ?n = 1 then b # free_block_indices a else free_block_indices a)\<rparr>"
  define a' where "a' = set_blk i ?x ?c"
  have eq: "free_block_id i a = Inr a'"
    using b rc pos by (auto simp: free_block_id_def rc_decr_def Let_def blk_def a'_def)
  have h: "holders a' b' = holders a b' - (if b' = b then 1 else 0)" for b'
  proof -
    have "holders ?c b' = holders a b'" "blk ?c i = blk a i" by (simp_all add: holders_def blk_def)
    with holders_set_blk [of i ?c ?x b'] len b show ?thesis by (auto simp: a'_def)
  qed
  have fields: "na_pool a' = na_pool (set_blk i ?x a)" "all_block_indices a' = all_block_indices a"
    "copy_on_writes a' = copy_on_writes a" "na_refcounts a' = (na_refcounts a)(b \<mapsto> int ?n - 1)"
    "na_block_size a' = na_block_size a"
    "free_block_indices a' = (if ?n = 1 then b # free_block_indices a else free_block_indices a)"
    by (simp_all add: a'_def set_blk_def blk_def)
  have pool: "pool_ok (na_pool a')"
    using inv i len by (auto simp: fields(1) na_inv_def pool_ok_def live_def set_blk_def nth_list_update)
  have fit: "\<forall>x \<in> set (bp_pool (na_pool a')). fits (na_block_size a) x"
    using inv len nth_mem [OF len]
    by (auto simp: fields(1) na_inv_def set_blk_def fits_def blk_def dest!: set_update_subset_insert [THEN subsetD])
  have nf: "b \<notin> set (free_block_indices a)" using inv pos by (auto simp: na_inv_def)
  have free: "set (free_block_indices a') = {b' \<in> all_block_indices a. holders a' b' + count_list ps b' = 0}"
    using inv pos ball nf unfolding na_inv_def fields(6) h by auto
  have "na_inv ps a'" using inv pos ball pool fit nf free
    unfolding na_inv_def by (simp add: fields(2-6) h) (simp add: fields(1))
  with eq fields show thesis by (intro that [of a']) simp_all
qed


text \<open>The pool hands out an object nobody uses, growing when it has none left.\<close>

lemma increase_pool_ok:
  assumes "pool_ok p" and "free_ids p = []"
  shows "pool_ok (increase_pool p)"
  using assms by (auto simp: pool_ok_def increase_pool_def Let_def nth_append empty_block_def)

lemma pool_init_block_cases:
  assumes ok: "pool_ok p" and run: "pool_init_block prev ts bsz bid p = Inr (i, p')"
  obtains x k where "naive_block_init prev ts bsz bid = Inr x"
    "bp_pool p' = (bp_pool p @ replicate k (empty_block (bp_block_size p)))[i := x]"
    "i < length (bp_pool p')" "i \<notin> set (free_ids p')" "i < length (bp_pool p) \<Longrightarrow> i \<in> set (free_ids p)"
    "pool_ok p'" "bp_block_size p' = bp_block_size p"
    "\<And>j. j < length (bp_pool p) \<Longrightarrow> j \<noteq> i \<Longrightarrow> j \<in> set (free_ids p') \<longleftrightarrow> j \<in> set (free_ids p)"
proof -
  define q where "q = (if free_ids p = [] then increase_pool p else p)"
  from run obtain x where x: "naive_block_init prev ts bsz bid = Inr x" and ne: "free_ids q \<noteq> []"
    and i: "i = hd (free_ids q)" and p': "p' = q\<lparr>free_ids := tl (free_ids q), bp_pool := (bp_pool q)[i := x]\<rparr>"
    by (auto simp: pool_init_block_def q_def Let_def split: if_splits)
  have q: "pool_ok q" using ok increase_pool_ok by (simp add: q_def)
  obtain rest where rest: "free_ids q = i # rest" using ne i by (cases "free_ids q") auto
  have bp: "\<exists>k. bp_pool q = bp_pool p @ replicate k (empty_block (bp_block_size p))"
    by (auto simp: q_def increase_pool_def Let_def intro: exI [of _ 0])
  have ilt: "i < length (bp_pool q)" "i \<notin> set rest" using q rest by (auto simp: pool_ok_def)
  have ids: "j \<in> set (free_ids q) \<longleftrightarrow> j \<in> set (free_ids p)" if "j < length (bp_pool p)" for j
    using that ok by (auto simp: q_def increase_pool_def Let_def pool_ok_def)
  have "pool_ok p'" using q rest ilt by (auto simp: p' pool_ok_def nth_list_update)
  moreover have "i < length (bp_pool p) \<Longrightarrow> i \<in> set (free_ids p)" using ids rest by auto
  moreover have "\<And>j. j < length (bp_pool p) \<Longrightarrow> j \<noteq> i \<Longrightarrow> j \<in> set (free_ids p') \<longleftrightarrow> j \<in> set (free_ids p)"
    using ids rest by (auto simp: p')
  moreover have "bp_block_size p' = bp_block_size p" by (simp add: p' q_def increase_pool_def Let_def)
  ultimately show thesis using x bp ilt rest by (elim exE, intro that) (auto simp: p')
qed

lemma naive_block_init_Inr:
  "naive_block_init prev ts bsz bid = Inr x \<Longrightarrow>
   x = \<lparr>nb_token_ids = ts, nb_block_size = bsz, nb_prev_block = prev, nb_block_id = bid\<rparr> \<and> fits bsz x"
  by (auto simp: naive_block_init_def append_token_ids_no_cow_def num_empty_slots_def fits_def split: if_splits)

lemma count_list_replicate: "count_list (replicate k x) y = (if x = y then k else 0)"
  by (induction k) auto

text \<open>A new object takes over a pending id.\<close>

lemma na_init_block_inv:
  assumes inv: "na_inv (b # ps) a" and run: "na_init_block prev ts (Some b) a = Inr (i, a')"
  shows "na_inv ps a'" "live a' i" "\<not> live a i"
    "blk a' i = \<lparr>nb_token_ids = ts, nb_block_size = na_block_size a, nb_prev_block = prev, nb_block_id = Some b\<rparr>"
    "\<And>j. live a j \<Longrightarrow> live a' j \<and> blk a' j = blk a j"
    "a' = a\<lparr>na_pool := na_pool a'\<rparr>"
    "\<And>b'. holders a' b' = holders a b' + (if b' = b then 1 else 0)"
proof -
  from run obtain p' where p': "pool_init_block prev ts (na_block_size a) (Some b) (na_pool a) = Inr (i, p')"
    and a': "a' = a\<lparr>na_pool := p'\<rparr>" by (auto simp: na_init_block_def)
  have ok: "pool_ok (na_pool a)" using inv by (simp add: na_inv_def)
  from ok p' obtain x k where P: "naive_block_init prev ts (na_block_size a) (Some b) = Inr x"
    "bp_pool p' = (bp_pool (na_pool a) @ replicate k (empty_block (bp_block_size (na_pool a))))[i := x]"
    "i < length (bp_pool p')" "i \<notin> set (free_ids p')"
    "i < length (bp_pool (na_pool a)) \<Longrightarrow> i \<in> set (free_ids (na_pool a))"
    "pool_ok p'" "bp_block_size p' = bp_block_size (na_pool a)"
    "\<And>j. j < length (bp_pool (na_pool a)) \<Longrightarrow> j \<noteq> i \<Longrightarrow> j \<in> set (free_ids p') \<longleftrightarrow> j \<in> set (free_ids (na_pool a))"
    by (rule pool_init_block_cases) blast
  let ?old = "bp_pool (na_pool a) @ replicate k (empty_block (bp_block_size (na_pool a)))"
  have x: "x = \<lparr>nb_token_ids = ts, nb_block_size = na_block_size a, nb_prev_block = prev, nb_block_id = Some b\<rparr>"
    "fits (na_block_size a) x"
    using naive_block_init_Inr [OF P(1)] by blast+
  have none: "nb_block_id (?old ! i) = None"
    using P(3,5) ok by (auto simp: P(2) nth_append pool_ok_def empty_block_def)
  have ilt: "i < length ?old" using P(2,3) by simp
  then have ni: "map nb_block_id ?old ! i = None" using none nth_map by metis
  have c: "count_list ((map nb_block_id ?old)[i := Some b]) (Some b')
      = count_list (map nb_block_id ?old) (Some b') + (if b' = b then 1 else 0)" for b'
    using count_list_update [of i "map nb_block_id ?old" "Some b" "Some b'"] ilt unfolding ni by (auto simp del: map_append)
  have "map nb_block_id (bp_pool p') = (map nb_block_id ?old)[i := Some b]"
    by (simp only: P(2) map_update x(1) naive_block.simps)
  then show h: "holders a' b' = holders a b' + (if b' = b then 1 else 0)" for b'
    unfolding holders_def a' using c [of b'] by (simp add: count_list_replicate empty_block_def)
  have "\<forall>y \<in> set (bp_pool p'). fits (na_block_size a) y"
    using inv x(2) unfolding P(2)
    by (auto simp: na_inv_def fits_def empty_block_def dest!: set_update_subset_insert [THEN subsetD])
  then show "na_inv ps a'" using inv P(6,7) h by (auto simp: na_inv_def a' split: if_splits)
  show "live a' i" "\<not> live a i" using P(3,4,5) by (auto simp: live_def a')
  then show "\<And>j. live a j \<Longrightarrow> live a' j \<and> blk a' j = blk a j"
    using P(2,8) by (auto simp: live_def a' blk_def nth_append nth_list_update)
  show "a' = a\<lparr>na_pool := na_pool a'\<rparr>" by (simp add: a')
  show "blk a' i = \<lparr>nb_token_ids = ts, nb_block_size = na_block_size a, nb_prev_block = prev, nb_block_id = Some b\<rparr>"
    using P(2,3) x(1) by (simp add: a' blk_def)
qed

text \<open>Rewriting an object: keeping its id, or storing a pending one.\<close>

lemma set_blk_inv:
  assumes inv: "na_inv ps a" and i: "live a i" and x: "nb_block_id x = nb_block_id (blk a i)" "fits (na_block_size a) x"
  shows "na_inv ps (set_blk i x a)"
proof -
  have len: "i < length (bp_pool (na_pool a))" using i by (simp add: live_def)
  have h: "holders (set_blk i x a) b = holders a b" for b
    using holders_set_blk [OF len, of x b] x(1) by simp
  have "pool_ok (na_pool (set_blk i x a))"
    using inv i by (auto simp: na_inv_def pool_ok_def live_def set_blk_def nth_list_update)
  moreover have "\<forall>y \<in> set (bp_pool (na_pool (set_blk i x a))). fits (na_block_size a) y"
    using inv x(2) by (auto simp: na_inv_def set_blk_def dest!: set_update_subset_insert [THEN subsetD])
  ultimately show ?thesis using inv by (simp add: na_inv_def h)
qed

lemma set_blk_pending_inv:
  assumes inv: "na_inv (b # ps) a" and i: "live a i" and none: "nb_block_id (blk a i) = None"
  shows "na_inv ps (set_blk i ((blk a i)\<lparr>nb_block_id := Some b\<rparr>) a)"
proof -
  let ?x = "(blk a i)\<lparr>nb_block_id := Some b\<rparr>"
  have len: "i < length (bp_pool (na_pool a))" using i by (simp add: live_def)
  have h: "holders (set_blk i ?x a) b' = holders a b' + (if b' = b then 1 else 0)" for b'
    using holders_set_blk [OF len, of ?x b'] none by simp
  have "pool_ok (na_pool (set_blk i ?x a))"
    using inv i by (auto simp: na_inv_def pool_ok_def live_def set_blk_def nth_list_update)
  moreover have "\<forall>y \<in> set (bp_pool (na_pool (set_blk i ?x a))). fits (na_block_size a) y"
    using inv nth_mem [OF len]
    by (auto simp: na_inv_def set_blk_def blk_def fits_def dest!: set_update_subset_insert [THEN subsetD])
  ultimately show ?thesis using inv by (auto simp: na_inv_def h)
qed


section \<open>Appending, with copy-on-write\<close>

lemma append_no_cow_Inr:
  "append_token_ids_no_cow ts x = Inr y \<Longrightarrow>
   y = x\<lparr>nb_token_ids := nb_token_ids x @ ts\<rparr> \<and> (fits bsz x \<longrightarrow> fits bsz y)"
  by (auto simp: append_token_ids_no_cow_def num_empty_slots_def fits_def split: if_splits)

lemma live_fits: "na_inv ps a \<Longrightarrow> live a i \<Longrightarrow> fits (na_block_size a) (blk a i)"
  by (simp add: na_inv_def live_def blk_def)

lemma refcount_of:
  "na_inv ps a \<Longrightarrow> live a i \<Longrightarrow> nb_block_id (blk a i) = Some b \<Longrightarrow>
   na_refcounts a b = Some (int (holders a b + count_list ps b)) \<and> 0 < holders a b \<and> b \<in> all_block_indices a"
  using holders_pos [of i a b] by (auto simp: na_inv_def live_def)

lemma na_inv_cows [simp]: "na_inv ps (a\<lparr>copy_on_writes := c\<rparr>) = na_inv ps a"
  by (simp add: na_inv_def holders_def)

lemma cow_shared:
  assumes inv: "na_inv ps a" and i: "live a i" and b: "nb_block_id (blk a i) = Some b"
    and shared: "1 < holders a b + count_list ps b" and run: "cow_block_if_not_appendable i a = Inr (t, a')"
  shows "na_inv (t # ps) a'" "nb_block_id (blk a' i) = None"
    "na_pool a' = na_pool (set_blk i ((blk a i)\<lparr>nb_block_id := None\<rparr>) a)"
    "all_block_indices a' = all_block_indices a" "na_block_size a' = na_block_size a"
    "copy_on_writes a' = copy_on_writes a @ [(b, t)]"
    "na_refcounts a' = (na_refcounts a)(b \<mapsto> int (holders a b + count_list ps b) - 1, t \<mapsto> 1)"
    "t \<noteq> b" "holders a t = 0"
proof -
  have rc: "na_refcounts a b = Some (int (holders a b + count_list ps b))" using refcount_of [OF inv i b] by simp
  from inv i b obtain a1 where f: "free_block_id i a = Inr a1" "na_inv ps a1"
    "na_pool a1 = na_pool (set_blk i ((blk a i)\<lparr>nb_block_id := None\<rparr>) a)"
    "all_block_indices a1 = all_block_indices a" "copy_on_writes a1 = copy_on_writes a"
    "na_refcounts a1 = (na_refcounts a)(b \<mapsto> int (holders a b + count_list ps b) - 1)"
    "na_block_size a1 = na_block_size a"
    "free_block_indices a1 = (if holders a b + count_list ps b = 1 then b # free_block_indices a else free_block_indices a)"
    by (rule free_block_id_inv) blast
  have split: "andthen (free_block_id i a) (\<lambda>a. andthen (allocate_block_id a) (\<lambda>(trg, a).
      andthen (record_cow (Some b) (Some trg) (copy_on_writes a)) (\<lambda>cows.
        Inr (trg, a\<lparr>copy_on_writes := cows\<rparr>)))) = Inr (t, a')"
    using run b rc shared by (simp add: cow_block_if_not_appendable_def is_appendable_def ro_get_def rc_get_def)
  then have "free_block_indices a1 \<noteq> []" using f(1) by (auto simp: allocate_block_id_empty)
  with f(2) obtain c a2 where g: "allocate_block_id a1 = Inr (c, a2)" "na_inv (c # ps) a2"
    "a2 = a1\<lparr>free_block_indices := tl (free_block_indices a1), na_refcounts := (na_refcounts a1)(c \<mapsto> 1)\<rparr>"
    "c = hd (free_block_indices a1)" "holders a1 c = 0"
    by (rule allocate_block_id_inv) blast
  have t: "t = c" "a' = a2\<lparr>copy_on_writes := copy_on_writes a2 @ [(b, c)]\<rparr>"
    using split f(1) g(1) by (auto simp: record_cow_def)
  have "c \<in> set (free_block_indices a)"
    using f(8) shared g(4) \<open>free_block_indices a1 \<noteq> []\<close> by (auto split: if_splits)
  then have c: "holders a c = 0" "c \<noteq> b" using inv holders_pos [of i a b] i b by (auto simp: na_inv_def live_def)
  show "na_inv (t # ps) a'" using g(2) by (simp add: t)
  show "na_pool a' = na_pool (set_blk i ((blk a i)\<lparr>nb_block_id := None\<rparr>) a)" using f(3) by (simp add: t g(3))
  then show "nb_block_id (blk a' i) = None" using i by (simp add: blk_def set_blk_def live_def)
  show "all_block_indices a' = all_block_indices a" "na_block_size a' = na_block_size a"
    "copy_on_writes a' = copy_on_writes a @ [(b, t)]"
    "na_refcounts a' = (na_refcounts a)(b \<mapsto> int (holders a b + count_list ps b) - 1, t \<mapsto> 1)"
    "t \<noteq> b" "holders a t = 0"
    using f c by (simp_all add: t g(3))
qed

lemma cow_unshared:
  assumes inv: "na_inv ps a" and i: "live a i" and b: "nb_block_id (blk a i) = Some b"
    and alone: "holders a b + count_list ps b \<le> 1"
  shows "cow_block_if_not_appendable i a = Inr (b, a)"
  using refcount_of [OF inv i b] b alone
  by (simp add: cow_block_if_not_appendable_def is_appendable_def ro_get_def rc_get_def)

text \<open>The tokens are stored first (state \<open>a1\<close>); then the block keeps its id or takes a fresh one.\<close>

lemma append_token_ids_cases:
  assumes inv: "na_inv ps a" and i: "live a i" and run: "append_token_ids i ts a = Inr a'"
  defines "y \<equiv> (blk a i)\<lparr>nb_token_ids := nb_token_ids (blk a i) @ ts\<rparr>"
  defines "a1 \<equiv> set_blk i y a"
  shows "na_inv ps a1" "fits (na_block_size a) y" "\<And>b. holders a1 b = holders a b"
    "blk a1 j = (if j = i then y else blk a j)"
    "(nb_block_id y = None \<and> a' = a1)
     \<or> (\<exists>b. nb_block_id y = Some b \<and> holders a b + count_list ps b \<le> 1
          \<and> a' = set_blk i (y\<lparr>nb_block_id := Some b\<rparr>) a1)
     \<or> (\<exists>b t a2. nb_block_id y = Some b \<and> 1 < holders a b + count_list ps b
          \<and> cow_block_if_not_appendable i a1 = Inr (t, a2) \<and> a' = set_blk i ((blk a2 i)\<lparr>nb_block_id := Some t\<rparr>) a2)"
proof -
  have len: "i < length (bp_pool (na_pool a))" using i by (simp add: live_def)
  from run obtain x where x: "append_token_ids_no_cow ts (blk a i) = Inr x"
    and k: "(case nb_block_id x of None \<Rightarrow> Inr (set_blk i x a)
          | Some _ \<Rightarrow> andthen (cow_block_if_not_appendable i (set_blk i x a))
              (\<lambda>(bid, a). Inr (set_blk i ((blk a i)\<lparr>nb_block_id := Some bid\<rparr>) a))) = Inr a'"
    by (auto simp: append_token_ids_def Let_def)
  have xy: "x = y" "fits (na_block_size a) y"
    using append_no_cow_Inr [OF x] live_fits [OF inv i] by (auto simp: y_def)
  show "fits (na_block_size a) y" by (fact xy(2))
  have same: "nb_block_id y = nb_block_id (blk a i)" by (simp add: y_def)
  show inv1: "na_inv ps a1" unfolding a1_def using inv i same xy(2) by (rule set_blk_inv)
  show h1: "\<And>b. holders a1 b = holders a b" using holders_set_blk [OF len, of y] same by (simp add: a1_def)
  show blk1: "\<And>j. blk a1 j = (if j = i then y else blk a j)" using len by (simp add: a1_def blk_set_blk)
  show "(nb_block_id y = None \<and> a' = a1)
     \<or> (\<exists>b. nb_block_id y = Some b \<and> holders a b + count_list ps b \<le> 1
          \<and> a' = set_blk i (y\<lparr>nb_block_id := Some b\<rparr>) a1)
     \<or> (\<exists>b t a2. nb_block_id y = Some b \<and> 1 < holders a b + count_list ps b
          \<and> cow_block_if_not_appendable i a1 = Inr (t, a2) \<and> a' = set_blk i ((blk a2 i)\<lparr>nb_block_id := Some t\<rparr>) a2)"
  proof (cases "nb_block_id y")
    case (Some b)
    have l1: "live a1 i" and b1: "nb_block_id (blk a1 i) = Some b" using i Some by (simp_all add: a1_def blk1 [unfolded a1_def])
    show ?thesis
    proof (cases "holders a b + count_list ps b \<le> 1")
      case True
      with cow_unshared [OF inv1 l1 b1] have "cow_block_if_not_appendable i a1 = Inr (b, a1)" by (simp add: h1)
      then show ?thesis using k Some True xy(1) by (simp add: a1_def [symmetric] blk1)
    next
      case False
      with k Some xy(1) show ?thesis by (auto simp: a1_def [symmetric])
    qed
  qed (use k xy(1) in \<open>simp add: a1_def\<close>)
qed

lemma append_token_ids_inv:
  assumes inv: "na_inv ps a" and i: "live a i" and run: "append_token_ids i ts a = Inr a'"
  shows "na_inv ps a' \<and> all_block_indices a' = all_block_indices a \<and> na_block_size a' = na_block_size a
    \<and> (\<forall>j. live a' j = live a j) \<and> (\<forall>j. j \<noteq> i \<longrightarrow> blk a' j = blk a j)
    \<and> nb_token_ids (blk a' i) = nb_token_ids (blk a i) @ ts \<and> nb_prev_block (blk a' i) = nb_prev_block (blk a i)
    \<and> (case nb_block_id (blk a i) of
         None \<Rightarrow> nb_block_id (blk a' i) = None
       | Some b \<Rightarrow>
           if holders a b + count_list ps b \<le> 1
           then nb_block_id (blk a' i) = Some b \<and> copy_on_writes a' = copy_on_writes a \<and> na_refcounts a' = na_refcounts a
           else \<exists>t. nb_block_id (blk a' i) = Some t \<and> t \<noteq> b \<and> holders a t = 0
             \<and> copy_on_writes a' = copy_on_writes a @ [(b, t)]
             \<and> na_refcounts a' = (na_refcounts a)(b \<mapsto> int (holders a b + count_list ps b) - 1, t \<mapsto> 1))"
proof -
  define y where "y = (blk a i)\<lparr>nb_token_ids := nb_token_ids (blk a i) @ ts\<rparr>"
  define a1 where "a1 = set_blk i y a"
  note C = append_token_ids_cases [OF inv i run, folded y_def, folded a1_def]
  have len: "i < length (bp_pool (na_pool a))" using i by (simp add: live_def)
  have f1: "all_block_indices a1 = all_block_indices a" "copy_on_writes a1 = copy_on_writes a" "live a1 j = live a j"
    "na_refcounts a1 = na_refcounts a" "na_block_size a1 = na_block_size a" "length (bp_pool (na_pool a1)) = length (bp_pool (na_pool a))"
    for j by (simp_all add: a1_def)
  have ys: "nb_block_id y = nb_block_id (blk a i)" "nb_prev_block y = nb_prev_block (blk a i)"
    "nb_token_ids y = nb_token_ids (blk a i) @ ts" by (simp_all add: y_def)
  from C(5) show ?thesis
  proof (elim disjE exE conjE)
    assume "nb_block_id y = None" "a' = a1"
    with C(1,4) ys show ?thesis by (simp add: f1)
  next
    fix b assume b: "nb_block_id y = Some b" "holders a b + count_list ps b \<le> 1" 
      "a' = set_blk i (y\<lparr>nb_block_id := Some b\<rparr>) a1"
    have "na_inv ps a'" unfolding b(3) using C(1) i C(2,4) b(1) by (intro set_blk_inv) (simp_all add: f1 fits_def)
    with b C(4) ys len show ?thesis by (simp add: f1 blk_set_blk)
  next
    fix b t a2
    assume b: "nb_block_id y = Some b" "1 < holders a b + count_list ps b"
      "cow_block_if_not_appendable i a1 = Inr (t, a2)" "a' = set_blk i ((blk a2 i)\<lparr>nb_block_id := Some t\<rparr>) a2"
    have pre: "live a1 i" "nb_block_id (blk a1 i) = Some b" "1 < holders a1 b + count_list ps b"
      using i b C(3,4) by (simp_all add: f1)
    note D = cow_shared [OF C(1) pre b(3)]
    have two: "live a2 j = live a j" "blk a2 j = (if j = i then y\<lparr>nb_block_id := None\<rparr> else blk a j)" for j
      using D(3) len by (auto simp: live_def blk_def set_blk_def a1_def nth_list_update)
    have len2: "i < length (bp_pool (na_pool a2))" using i two(1) [of i] by (simp add: live_def)
    have "na_inv ps a'" unfolding b(4) using D(1) i two(1) D(2) by (intro set_blk_pending_inv) simp_all
    with b D(4-9) len2 two ys C(3) show ?thesis by (simp add: blk_set_blk f1)
  qed
qed

end
