(* ===== verification/NaiveOps.thy ===== *)
theory NaiveOps
  imports NaiveInv
begin

text \<open>
  The operations of the naive allocator keep its invariant, what they leave alone, and forking.
\<close>

section \<open>Allocation\<close>

lemma na_inv_mset: "mset ps = mset qs \<Longrightarrow> na_inv ps a \<Longrightarrow> na_inv qs a"
  unfolding na_inv_def by (metis (no_types, lifting) Collect_cong count_mset set_mset_mset)

text \<open>What later steps of an operation may rely on: objects in use stay in use, unchanged.\<close>

definition keeps_live :: "naive_allocator \<Rightarrow> naive_allocator \<Rightarrow> bool" where
  "keeps_live a a' \<longleftrightarrow> all_block_indices a' = all_block_indices a \<and> na_block_size a' = na_block_size a
     \<and> (\<forall>j. live a j \<longrightarrow> live a' j \<and> blk a' j = blk a j)"

lemma keeps_live_refl [simp]: "keeps_live a a"
  by (simp add: keeps_live_def)

lemma keeps_live_trans: "keeps_live a b \<Longrightarrow> keeps_live b c \<Longrightarrow> keeps_live a c"
  by (simp add: keeps_live_def)

lemma keeps_live_fields [simp]:
  "keeps_live a (b\<lparr>na_refcounts := rc\<rparr>) = keeps_live a b"
  "keeps_live (a\<lparr>na_refcounts := rc\<rparr>) b = keeps_live a b"
  "keeps_live a (b\<lparr>free_block_indices := f\<rparr>) = keeps_live a b"
  "keeps_live (a\<lparr>free_block_indices := f\<rparr>) b = keeps_live a b"
  by (simp_all add: keeps_live_def live_def blk_def)

lemma allocate_block_id_Inr:
  assumes inv: "na_inv ps a" and run: "allocate_block_id a = Inr (b, a')"
  shows "na_inv (b # ps) a' \<and> keeps_live a a' \<and> holders a b = 0"
proof -
  have ne: "free_block_indices a \<noteq> []" using run by (auto simp: allocate_block_id_empty)
  from inv ne obtain c a2 where "allocate_block_id a = Inr (c, a2)" "na_inv (c # ps) a2"
    "a2 = a\<lparr>free_block_indices := tl (free_block_indices a), na_refcounts := (na_refcounts a)(c \<mapsto> 1)\<rparr>"
    "holders a c = 0" by (rule allocate_block_id_inv) blast
  with run show ?thesis by auto
qed

lemma na_init_block_keeps:
  assumes "na_inv (b # ps) a" and "na_init_block prev ts (Some b) a = Inr (i, a')"
  shows "keeps_live a a'"
proof -
  note N = na_init_block_inv [OF assms]
  have "all_block_indices a' = all_block_indices a" "na_block_size a' = na_block_size a"
    by (subst N(6), simp)+
  with N(5) show ?thesis by (simp add: keeps_live_def)
qed

lemma allocate_mutable_block_inv:
  assumes inv: "na_inv ps a" and run: "allocate_mutable_block prev a = Inr (i, a')"
  shows "na_inv ps a' \<and> keeps_live a a' \<and> live a' i \<and> \<not> live a i \<and> nb_token_ids (blk a' i) = []
    \<and> nb_prev_block (blk a' i) = prev
    \<and> (\<exists>b. nb_block_id (blk a' i) = Some b \<and> holders a b = 0 \<and> holders a' b = 1)"
proof -
  from run obtain b a1 where a1: "allocate_block_id a = Inr (b, a1)" "na_init_block prev [] (Some b) a1 = Inr (i, a')"
    by (auto simp: allocate_mutable_block_def)
  have A: "na_inv (b # ps) a1" "keeps_live a a1" "holders a b = 0" using allocate_block_id_Inr [OF inv a1(1)] by simp_all
  note N = na_init_block_inv [OF A(1) a1(2)]
  have pool: "na_pool a1 = na_pool a"
    using a1(1) by (auto simp: allocate_block_id_def split: list.splits)
  then have "holders a1 b = 0" "\<not> live a i" using A(3) N(3) by (simp_all add: holders_def live_def)
  with N A keeps_live_trans [OF A(2) na_init_block_keeps [OF A(1) a1(2)]] show ?thesis by simp
qed

lemma append_keeps_live:
  assumes "na_inv ps a'" and "live a' i" and "append_token_ids i ts a' = Inr a''" and "keeps_live a a'" and "\<not> live a i"
  shows "na_inv ps a'' \<and> keeps_live a a'' \<and> live a'' i"
  using append_token_ids_inv [OF assms(1-3)] assms(2,4,5) by (auto simp: keeps_live_def)

lemma allocate_immutable_block_inv:
  assumes "na_inv ps a" and "allocate_immutable_block prev ts a = Inr (i, a')"
  shows "na_inv ps a' \<and> keeps_live a a' \<and> live a' i \<and> \<not> live a i"
proof -
  from assms(2) obtain a1 where "allocate_mutable_block prev a = Inr (i, a1)" "append_token_ids i ts a1 = Inr a'"
    by (auto simp: allocate_immutable_block_def)
  with allocate_mutable_block_inv [OF assms(1)] append_keeps_live show ?thesis by blast
qed

lemma allocate_ids_inv:
  "na_inv ps a \<Longrightarrow> allocate_ids n a = Inr (bs, a') \<Longrightarrow> na_inv (bs @ ps) a' \<and> keeps_live a a' \<and> length bs = n"
proof (induction n arbitrary: a bs ps)
  case (Suc n)
  from Suc.prems(2) obtain b a1 cs where s: "allocate_block_id a = Inr (b, a1)" "allocate_ids n a1 = Inr (cs, a')" "bs = b # cs"
    by auto
  have A: "na_inv (b # ps) a1" "keeps_live a a1" using allocate_block_id_Inr [OF Suc.prems(1) s(1)] by simp_all
  have "na_inv (cs @ b # ps) a' \<and> keeps_live a1 a' \<and> length cs = n" using Suc.IH [OF A(1) s(2)] .
  with A(2) s(3) show ?case using na_inv_mset [of "cs @ b # ps" "b # cs @ ps" a'] keeps_live_trans by auto
qed simp

lemma init_blocks_inv:
  "na_inv (map snd xs @ ps) a \<Longrightarrow> init_blocks prev xs a = Inr (ns, a') \<Longrightarrow>
   na_inv ps a' \<and> keeps_live a a' \<and> (\<forall>i \<in> set ns. live a' i \<and> \<not> live a i) \<and> distinct ns"
proof (induction xs arbitrary: a prev ns)
  case (Cons x xs)
  obtain ts b where x: "x = (ts, b)" by (cases x)
  from Cons.prems(2) obtain i a1 ms where s: "na_init_block prev ts (Some b) a = Inr (i, a1)"
    "init_blocks (Some i) xs a1 = Inr (ms, a')" "ns = i # ms" by (auto simp: x)
  have inv: "na_inv (b # map snd xs @ ps) a" using Cons.prems(1) by (simp add: x)
  note N = na_init_block_inv [OF inv s(1)] and K = na_init_block_keeps [OF inv s(1)]
  have "na_inv ps a' \<and> keeps_live a1 a' \<and> (\<forall>i \<in> set ms. live a' i \<and> \<not> live a1 i) \<and> distinct ms"
    using Cons.IH [OF N(1) s(2)] .
  with N(2,3) K s(3) show ?case using keeps_live_trans [OF K] by (auto simp: keeps_live_def)
qed simp

lemma allocate_immutable_blocks_inv:
  assumes "na_inv ps a" and "allocate_immutable_blocks prev tss a = Inr (ns, a')"
  shows "na_inv ps a' \<and> keeps_live a a' \<and> (\<forall>i \<in> set ns. live a' i \<and> \<not> live a i) \<and> distinct ns"
proof -
  from assms(2) obtain bs a1 where s: "allocate_ids (length tss) a = Inr (bs, a1)"
    "init_blocks prev (zip tss bs) a1 = Inr (ns, a')" by (auto simp: allocate_immutable_blocks_def)
  have A: "na_inv (bs @ ps) a1" "keeps_live a a1" "length bs = length tss" using allocate_ids_inv [OF assms(1) s(1)] by simp_all
  then have "na_inv (map snd (zip tss bs) @ ps) a1" by simp
  from init_blocks_inv [OF this s(2)] A(2) show ?thesis using keeps_live_trans [OF A(2)] by (auto simp: keeps_live_def)
qed

section \<open>Release and swapping\<close>

lemma free_block_id_Inr:
  assumes inv: "na_inv ps a" and i: "live a i" and run: "free_block_id i a = Inr a'"
  shows "na_inv ps a'" "live a' j = live a j" "nb_block_id (blk a' i) = None" "j \<noteq> i \<Longrightarrow> blk a' j = blk a j"
proof -
  from run obtain b where b: "nb_block_id (blk a i) = Some b" by (auto simp: free_block_id_def split: option.splits)
  from inv i b obtain a1 where "free_block_id i a = Inr a1" "na_inv ps a1"
    "na_pool a1 = na_pool (set_blk i ((blk a i)\<lparr>nb_block_id := None\<rparr>) a)"
    by (rule free_block_id_inv) blast
  moreover from this(1) run have "a1 = a'" by simp
  ultimately show "na_inv ps a'" "live a' j = live a j" "nb_block_id (blk a' i) = None" "j \<noteq> i \<Longrightarrow> blk a' j = blk a j"
    using i by (auto simp: live_def blk_def set_blk_def)
qed

lemma na_inv_release:
  assumes "na_inv ps a" and "live a i" and "nb_block_id (blk a i) = None"
  shows "na_inv ps (a\<lparr>na_pool := pool_free_block i (na_pool a)\<rparr>)"
  using assms by (auto simp: na_inv_def holders_def pool_free_block_def pool_ok_def live_def blk_def)

lemma na_free_inv:
  assumes "na_inv ps a" and "live a i" and "na_free i k a = Inr a'"
  shows "na_inv ps a'"
proof -
  from assms(3) obtain a1 where "free_block_id i a = Inr a1"
    "a' = (if k then a1 else a1\<lparr>na_pool := pool_free_block i (na_pool a1)\<rparr>)" by (auto simp: na_free_def)
  with free_block_id_Inr [OF assms(1,2)] na_inv_release assms(2) show ?thesis by auto
qed

lemma na_swap_out_inv:
  "na_inv ps a \<Longrightarrow> \<forall>i \<in> set ns. live a i \<Longrightarrow> na_swap_out ns a = Inr a' \<Longrightarrow> na_inv ps a'"
  unfolding na_swap_out_def
proof (induction ns arbitrary: a)
  case (Cons i ns)
  then obtain a1 where s: "free_block_id i a = Inr a1" "fold_result free_block_id ns a1 = Inr a'" by auto
  with free_block_id_Inr [OF Cons.prems(1) _ s(1)] Cons.IH [of a1] Cons.prems(2) show ?case by simp
qed simp


lemma set_blk_take_inv:
  assumes inv: "na_inv ps a" and i: "live a i" and b: "nb_block_id (blk a i) = Some b"
  shows "na_inv (b # ps) (set_blk i ((blk a i)\<lparr>nb_block_id := None\<rparr>) a)"
proof -
  let ?x = "(blk a i)\<lparr>nb_block_id := None\<rparr>"
  have len: "i < length (bp_pool (na_pool a))" using i by (simp add: live_def)
  have pos: "0 < holders a b" "b \<in> all_block_indices a" using refcount_of [OF inv i b] by simp_all
  have h: "holders (set_blk i ?x a) b' = holders a b' - (if b' = b then 1 else 0)" for b'
    using holders_set_blk [OF len, of ?x b'] b by auto
  have "pool_ok (na_pool (set_blk i ?x a))"
    using inv i by (auto simp: na_inv_def pool_ok_def live_def set_blk_def nth_list_update)
  moreover have "\<forall>y \<in> set (bp_pool (na_pool (set_blk i ?x a))). fits (na_block_size a) y"
    using inv nth_mem [OF len]
    by (auto simp: na_inv_def set_blk_def blk_def fits_def dest!: set_update_subset_insert [THEN subsetD])
  ultimately show ?thesis using inv pos by (auto simp: na_inv_def h)
qed

text \<open>Both branches of \<open>swap_in\<close> allocate a block and fill it; its id is moved and the object released.\<close>

definition move_id :: "nat \<Rightarrow> nat \<Rightarrow> naive_allocator \<Rightarrow> naive_allocator" where
  "move_id i tmp a =
     (let bid = nb_block_id (blk a tmp); a = set_blk tmp ((blk a tmp)\<lparr>nb_block_id := None\<rparr>) a;
          a = a\<lparr>na_pool := pool_free_block tmp (na_pool a)\<rparr>
      in set_blk i ((blk a i)\<lparr>nb_block_id := bid\<rparr>) a)"

lemma swap_in_block_eq:
  "swap_in_block i a =
     andthen (allocate_immutable_block (nb_prev_block (blk a i)) (nb_token_ids (blk a i)) a)
       (\<lambda>(tmp, a). Inr (move_id i tmp a))"
  by (simp add: swap_in_block_def allocate_immutable_block_def move_id_def Let_def)

lemma swap_in_block_inv:
  assumes inv: "na_inv ps a" and i: "live a i" and none: "nb_block_id (blk a i) = None"
    and run: "swap_in_block i a = Inr a'"
  shows "na_inv ps a'" "\<exists>b. nb_block_id (blk a' i) = Some b"
    "live a j \<Longrightarrow> live a' j" "live a j \<Longrightarrow> j \<noteq> i \<Longrightarrow> blk a' j = blk a j"
proof -
  from run obtain tmp a1 where
    s': "allocate_immutable_block (nb_prev_block (blk a i)) (nb_token_ids (blk a i)) a = Inr (tmp, a1)"
    and a': "a' = move_id i tmp a1" by (auto simp: swap_in_block_eq)
  have A: "na_inv ps a1" "keeps_live a a1" "live a1 tmp" "\<not> live a tmp"
    using allocate_immutable_block_inv [OF inv s'] by simp_all
  have "\<exists>b. nb_block_id (blk a1 tmp) = Some b"
  proof -
    from s' obtain a0 where "allocate_mutable_block (nb_prev_block (blk a i)) a = Inr (tmp, a0)"
      and ap: "append_token_ids tmp (nb_token_ids (blk a i)) a0 = Inr a1" by (auto simp: allocate_immutable_block_def)
    from allocate_mutable_block_inv [OF inv this(1)] append_token_ids_inv [of ps a0 tmp, OF _ _ ap] show ?thesis
      by (auto split: if_splits)
  qed
  then obtain b where b: "nb_block_id (blk a1 tmp) = Some b" by blast
  define a2 where "a2 = set_blk tmp ((blk a1 tmp)\<lparr>nb_block_id := None\<rparr>) a1"
  define a3 where "a3 = a2\<lparr>na_pool := pool_free_block tmp (na_pool a2)\<rparr>"
  have len: "tmp < length (bp_pool (na_pool a1))" using A(3) by (simp add: live_def)
  have b2: "blk a2 k = (if k = tmp then (blk a1 tmp)\<lparr>nb_block_id := None\<rparr> else blk a1 k)" for k
    using len by (simp add: a2_def blk_set_blk)
  have i2: "na_inv (b # ps) a2" "live a2 k = live a1 k" "nb_block_id (blk a2 tmp) = None" for k
    using set_blk_take_inv [OF A(1,3) b] b2 by (simp_all add: a2_def)
  have i3: "na_inv (b # ps) a3" using na_inv_release [OF i2(1) _ i2(3)] i2(2) A(3) by (simp add: a3_def)
  have b3: "blk a3 k = blk a2 k" "live a3 k = (live a2 k \<and> k \<noteq> tmp)" for k
    by (auto simp: a3_def pool_free_block_def blk_def live_def)
  have it: "i \<noteq> tmp" using i A(4) by auto
  have l3: "live a3 i" "nb_block_id (blk a3 i) = None"
    using it i none A(2) i2(2) b2 b3 by (auto simp: keeps_live_def)
  then have len3: "i < length (bp_pool (na_pool a3))" by (simp add: live_def)
  have eq: "a' = set_blk i ((blk a3 i)\<lparr>nb_block_id := Some b\<rparr>) a3"
    using b by (simp add: a' move_id_def Let_def a3_def a2_def)
  show "na_inv ps a'" unfolding eq using i3 l3 by (rule set_blk_pending_inv)
  show "\<exists>b. nb_block_id (blk a' i) = Some b" using len3 by (simp add: eq blk_set_blk)
  show "live a j \<Longrightarrow> live a' j" "live a j \<Longrightarrow> j \<noteq> i \<Longrightarrow> blk a' j = blk a j"
    using A(2,4) i2(2) b2 b3 len3 by (auto simp: eq blk_set_blk keeps_live_def)
qed

lemma na_swap_in_inv:
  "na_inv ps a \<Longrightarrow> distinct ns \<Longrightarrow> \<forall>i \<in> set ns. live a i \<and> nb_block_id (blk a i) = None \<Longrightarrow>
   na_swap_in ns a = Inr a' \<Longrightarrow> na_inv ps a'"
  unfolding na_swap_in_def
proof (induction ns arbitrary: a)
  case (Cons i ns)
  then obtain a1 where s: "swap_in_block i a = Inr a1" "fold_result swap_in_block ns a1 = Inr a'" by auto
  have i: "live a i" "nb_block_id (blk a i) = None" using Cons.prems(3) by simp_all
  note S = swap_in_block_inv [OF Cons.prems(1) i s(1)]
  have "\<forall>k \<in> set ns. live a1 k \<and> nb_block_id (blk a1 k) = None"
  proof
    fix k assume k: "k \<in> set ns"
    with Cons.prems(2,3) have "live a k" "nb_block_id (blk a k) = None" "k \<noteq> i" by auto
    with S(3) [of k] S(4) [of k] show "live a1 k \<and> nb_block_id (blk a1 k) = None" by simp
  qed
  with Cons.IH [OF S(1) _ _ s(2)] Cons.prems(2) show ?case by simp
qed simp

section \<open>Forking\<close>

lemma increase_pool_free: "free_ids p = [] \<Longrightarrow> 0 < bp_pool_size p \<Longrightarrow> free_ids (increase_pool p) \<noteq> []"
  by (simp add: increase_pool_def Let_def)

lemma na_init_block_total:
  assumes "0 < bp_pool_size (na_pool a)" and "ts = [] \<or> int (length ts) \<le> na_block_size a"
  shows "\<exists>i a'. na_init_block prev ts bid a = Inr (i, a')"
  using assms increase_pool_free [of "na_pool a"]
  by (auto simp: na_init_block_def pool_init_block_def naive_block_init_def append_token_ids_no_cow_def
    num_empty_slots_def Let_def py_assert_def)

lemma fork_ref_inv:
  assumes inv: "na_inv ps a" and i: "live a i" and b: "nb_block_id (blk a i) = Some b"
  shows "\<exists>n rc. rc_incr b (na_refcounts a) = Inr (n, rc) \<and> n \<noteq> 1 \<and> rc = (na_refcounts a)(b \<mapsto> n)
    \<and> na_refcounts a b = Some (n - 1) \<and> na_inv (b # ps) (a\<lparr>na_refcounts := rc\<rparr>)"
proof -
  let ?n = "int (holders a b + count_list ps b) + 1"
  have R: "na_refcounts a b = Some (?n - 1)" "0 < holders a b" "b \<in> all_block_indices a"
    using refcount_of [OF inv i b] by simp_all
  have "holders (a\<lparr>na_refcounts := rc\<rparr>) = holders a" for rc by (simp add: holders_def fun_eq_iff)
  then have "na_inv (b # ps) (a\<lparr>na_refcounts := (na_refcounts a)(b \<mapsto> ?n)\<rparr>)"
    using inv R(2,3) by (auto simp: na_inv_def)
  with R show ?thesis by (intro exI [of _ ?n] exI [of _ "(na_refcounts a)(b \<mapsto> ?n)"]) (simp add: rc_incr_def)
qed

text \<open>
  Forking a chain of objects in use, all holding blocks, succeeds; each copy has its source's tokens
  and block, every block gains the references of its copies, and nothing else changes.
\<close>

lemma fork_loop_spec:
  assumes "na_inv ps a" and "\<forall>s \<in> set ss. live a s \<and> nb_block_id (blk a s) \<noteq> None"
  shows "\<exists>ns a'. fork_loop ss prev a = Inr (ns, a') \<and> na_inv ps a' \<and> keeps_live a a'
    \<and> length ns = length ss \<and> distinct ns \<and> (\<forall>i \<in> set ns. live a' i \<and> \<not> live a i)
    \<and> (\<forall>k < length ss. nb_token_ids (blk a' (ns ! k)) = nb_token_ids (blk a (ss ! k))
         \<and> nb_block_id (blk a' (ns ! k)) = nb_block_id (blk a (ss ! k))
         \<and> nb_prev_block (blk a' (ns ! k)) = (if k = 0 then prev else Some (ns ! (k - 1))))
    \<and> free_block_indices a' = free_block_indices a \<and> copy_on_writes a' = copy_on_writes a
    \<and> (\<forall>b. holders a' b = holders a b + count_list (map (\<lambda>s. nb_block_id (blk a s)) ss) (Some b))"
  using assms
proof (induction ss arbitrary: a prev)
  case Nil
  then show ?case by simp
next
  case (Cons s ss)
  then have s: "live a s" "nb_block_id (blk a s) \<noteq> None" by simp_all
  then obtain b where b: "nb_block_id (blk a s) = Some b" by blast
  obtain n rc where R: "rc_incr b (na_refcounts a) = Inr (n, rc)" "n \<noteq> 1" "na_inv (b # ps) (a\<lparr>na_refcounts := rc\<rparr>)"
    using fork_ref_inv [OF Cons.prems(1) s(1) b] by blast
  have pool: "0 < bp_pool_size (na_pool a)" using Cons.prems(1) s(1) by (auto simp: na_inv_def pool_ok_def live_def)
  have fit: "nb_token_ids (blk a s) = [] \<or> int (length (nb_token_ids (blk a s))) \<le> na_block_size a"
    using live_fits [OF Cons.prems(1) s(1)] by (simp add: fits_def)
  obtain i a1 where I: "na_init_block prev (nb_token_ids (blk a s)) (Some b) (a\<lparr>na_refcounts := rc\<rparr>) = Inr (i, a1)"
    using na_init_block_total [of "a\<lparr>na_refcounts := rc\<rparr>"] pool fit by fastforce
  note N = na_init_block_inv [OF R(3) I]
  have K: "keeps_live a a1" using na_init_block_keeps [OF R(3) I] by simp
  have fields: "free_block_indices a1 = free_block_indices a" "copy_on_writes a1 = copy_on_writes a"
    by (subst N(6), simp)+
  have "\<forall>s \<in> set ss. live a1 s \<and> nb_block_id (blk a1 s) \<noteq> None" using Cons.prems(2) K by (auto simp: keeps_live_def)
  from Cons.IH [OF N(1) this, of "Some i"] obtain ns a' where IH: "fork_loop ss (Some i) a1 = Inr (ns, a')"
    "na_inv ps a'" "keeps_live a1 a'" "length ns = length ss" "distinct ns" "\<forall>i \<in> set ns. live a' i \<and> \<not> live a1 i"
    "\<forall>k < length ss. nb_token_ids (blk a' (ns ! k)) = nb_token_ids (blk a1 (ss ! k))
         \<and> nb_block_id (blk a' (ns ! k)) = nb_block_id (blk a1 (ss ! k))
         \<and> nb_prev_block (blk a' (ns ! k)) = (if k = 0 then Some i else Some (ns ! (k - 1)))"
    "free_block_indices a' = free_block_indices a1" "copy_on_writes a' = copy_on_writes a1"
    "\<forall>b. holders a' b = holders a1 b + count_list (map (\<lambda>s. nb_block_id (blk a1 s)) ss) (Some b)" by blast
  have ids: "map (\<lambda>s. nb_block_id (blk a1 s)) ss = map (\<lambda>s. nb_block_id (blk a s)) ss"
    using Cons.prems(2) K by (simp add: keeps_live_def)
  have "holders (a\<lparr>na_refcounts := rc\<rparr>) = holders a" by (simp add: holders_def fun_eq_iff)
  then have hold: "\<forall>c. holders a' c = holders a c + count_list (map (\<lambda>s. nb_block_id (blk a s)) (s # ss)) (Some c)"
    using IH(10) N(7) b unfolding ids by simp
  have run: "fork_loop (s # ss) prev a = Inr (i # ns, a')" using b R I IH(1) by simp
  have ns: "live a1 i" "\<not> live a i" using N(2,3) by (simp_all add: live_def)
  have "\<forall>k < length (s # ss). nb_token_ids (blk a' ((i # ns) ! k)) = nb_token_ids (blk a ((s # ss) ! k))
         \<and> nb_block_id (blk a' ((i # ns) ! k)) = nb_block_id (blk a ((s # ss) ! k))
         \<and> nb_prev_block (blk a' ((i # ns) ! k)) = (if k = 0 then prev else Some ((i # ns) ! (k - 1)))"
  proof (intro allI impI)
    fix k assume "k < length (s # ss)"
    then show "nb_token_ids (blk a' ((i # ns) ! k)) = nb_token_ids (blk a ((s # ss) ! k))
         \<and> nb_block_id (blk a' ((i # ns) ! k)) = nb_block_id (blk a ((s # ss) ! k))
         \<and> nb_prev_block (blk a' ((i # ns) ! k)) = (if k = 0 then prev else Some ((i # ns) ! (k - 1)))"
      using IH(3,7) N(4) ns(1) b Cons.prems(2) K by (cases k) (auto simp: keeps_live_def nth_Cons')
  qed
  with run IH(2-6,8,9) ns fields K keeps_live_trans [OF K IH(3)] hold show ?case
    by (intro exI [of _ "i # ns"] exI [of _ a']) (auto simp: keeps_live_def)
qed


section \<open>Construction\<close>

lemma count_list_map_replicate [simp]: "count_list (map f (replicate n x)) y = (if f x = y then n else 0)"
  by (simp add: count_list_replicate)

lemma naive_init_inv:
  assumes "naive_init n bsz ids = Inr a" and "case ids of None \<Rightarrow> True | Some xs \<Rightarrow> distinct xs"
  shows "na_inv [] a \<and> int (card (all_block_indices a)) = n"
proof -
  let ?ids = "case ids of None \<Rightarrow> [0..n - 1] | Some xs \<Rightarrow> xs"
  from assms(1) have n: "int (card (set ?ids)) = n" "0 \<le> n * 4"
    and a: "a = \<lparr>free_block_indices = ?ids, all_block_indices = set ?ids, na_refcounts = rc_init ?ids,
        na_block_size = bsz, copy_on_writes = [],
        na_pool = \<lparr>bp_block_size = bsz, bp_pool_size = nat (n * 4), free_ids = [0..<nat (n * 4)],
                 bp_pool = replicate (nat (n * 4)) (empty_block bsz)\<rparr>\<rparr>"
    by (auto simp: naive_init_def pool_init_def Let_def)
  have "distinct ?ids" using assms(2) by (auto split: option.splits)
  with n(1) show ?thesis
    by (auto simp: a na_inv_def holders_def rc_init_def pool_ok_def empty_block_def fits_def)
qed

section \<open>Releasing what others still hold\<close>

lemma release_loop:
  assumes "na_inv ps a" and "distinct ns" and "\<forall>i \<in> set ns. live a i \<and> nb_block_id (blk a i) \<noteq> None"
    and "\<forall>b. count_list (map (\<lambda>i. nb_block_id (blk a i)) ns) (Some b) = 0
           \<or> count_list (map (\<lambda>i. nb_block_id (blk a i)) ns) (Some b) < holders a b + count_list ps b"
  shows "\<exists>a'. fold_result (\<lambda>i. na_free i False) ns a = Inr a' \<and> na_inv ps a'
    \<and> free_block_indices a' = free_block_indices a \<and> copy_on_writes a' = copy_on_writes a
    \<and> all_block_indices a' = all_block_indices a
    \<and> (\<forall>b. holders a' b + count_list (map (\<lambda>i. nb_block_id (blk a i)) ns) (Some b) = holders a b)
    \<and> (\<forall>j. live a j \<longrightarrow> j \<notin> set ns \<longrightarrow> live a' j \<and> blk a' j = blk a j)"
  using assms
proof (induction ns arbitrary: a)
  case (Cons i ns)
  have i: "live a i" using Cons.prems(3) by simp
  obtain b where b: "nb_block_id (blk a i) = Some b" using Cons.prems(3) by auto
  have two: "1 < holders a b + count_list ps b" using Cons.prems(4) [rule_format, of b] b by simp
  from Cons.prems(1) i b obtain a1 where f: "free_block_id i a = Inr a1" "na_inv ps a1"
    "na_pool a1 = na_pool (set_blk i ((blk a i)\<lparr>nb_block_id := None\<rparr>) a)"
    "all_block_indices a1 = all_block_indices a" "copy_on_writes a1 = copy_on_writes a"
    "free_block_indices a1 = (if holders a b + count_list ps b = 1 then b # free_block_indices a else free_block_indices a)"
    by (rule free_block_id_inv) blast
  define a2 where "a2 = a1\<lparr>na_pool := pool_free_block i (na_pool a1)\<rparr>"
  have len: "i < length (bp_pool (na_pool a))" using i by (simp add: live_def)
  have S: "live a1 j = live a j" "blk a1 j = (if j = i then (blk a i)\<lparr>nb_block_id := None\<rparr> else blk a j)" for j
    using f(3) len by (auto simp: live_def blk_def set_blk_def)
  have h2: "holders a2 c + (if c = b then 1 else 0) = holders a c" for c
    using holders_set_blk [OF len, of "(blk a i)\<lparr>nb_block_id := None\<rparr>" c] b f(3)
    by (auto simp: a2_def holders_def pool_free_block_def)
  have S2: "live a2 j = (live a j \<and> j \<noteq> i)" "blk a2 j = blk a1 j" for j
    using S(1) [of j] by (auto simp: a2_def pool_free_block_def live_def blk_def)
  have inv2: "na_inv ps a2" unfolding a2_def using f(2) i S by (intro na_inv_release) simp_all
  have ids: "map (\<lambda>i. nb_block_id (blk a2 i)) ns = map (\<lambda>i. nb_block_id (blk a i)) ns"
    using Cons.prems(2) S(2) S2(2) by auto
  have held: "\<forall>j \<in> set ns. live a2 j \<and> nb_block_id (blk a2 j) \<noteq> None"
    using Cons.prems(2,3) S(2) S2 by auto
  have spare: "\<forall>c. count_list (map (\<lambda>i. nb_block_id (blk a i)) ns) (Some c) = 0
      \<or> count_list (map (\<lambda>i. nb_block_id (blk a i)) ns) (Some c) < holders a2 c + count_list ps c"
  proof
    fix c
    show "count_list (map (\<lambda>i. nb_block_id (blk a i)) ns) (Some c) = 0
      \<or> count_list (map (\<lambda>i. nb_block_id (blk a i)) ns) (Some c) < holders a2 c + count_list ps c"
      using Cons.prems(4) [rule_format, of c] h2 [of c] b by (auto split: if_splits)
  qed
  obtain a' where IH: "fold_result (\<lambda>i. na_free i False) ns a2 = Inr a'" "na_inv ps a'"
    "free_block_indices a' = free_block_indices a2" "copy_on_writes a' = copy_on_writes a2"
    "all_block_indices a' = all_block_indices a2"
    "\<forall>b. holders a' b + count_list (map (\<lambda>i. nb_block_id (blk a i)) ns) (Some b) = holders a2 b"
    "\<forall>j. live a2 j \<longrightarrow> j \<notin> set ns \<longrightarrow> live a' j \<and> blk a' j = blk a2 j"
    using Cons.IH [of a2, unfolded ids, OF inv2 _ held spare] Cons.prems(2) by auto
  have "na_free i False a = Inr a2" using f(1) by (simp add: na_free_def a2_def)
  moreover have "free_block_indices a2 = free_block_indices a" "copy_on_writes a2 = copy_on_writes a"
    "all_block_indices a2 = all_block_indices a" using f two by (simp_all add: a2_def)
  moreover have "holders a' c + count_list (map (\<lambda>i. nb_block_id (blk a i)) (i # ns)) (Some c) = holders a c" for c
    using IH(6) [rule_format, of c] h2 [of c] b by (auto split: if_splits)
  ultimately show ?case using IH S S2 by simp
qed simp


section \<open>When appending succeeds\<close>

lemma append_no_room:
  assumes "ts \<noteq> []" and "num_empty_slots (blk a i) < int (length ts)"
  shows "append_token_ids i ts a = Inl AssertionError"
  using assms by (simp add: append_token_ids_def append_token_ids_no_cow_def py_assert_def)

lemma cow_shared_runs:
  assumes inv: "na_inv ps a" and i: "live a i" and b: "nb_block_id (blk a i) = Some b"
    and shared: "1 < holders a b + count_list ps b"
  shows "if free_block_indices a = [] then cow_block_if_not_appendable i a = Inl NoFreeBlocksError
    else \<exists>t a'. cow_block_if_not_appendable i a = Inr (t, a')"
proof -
  have rc: "na_refcounts a b = Some (int (holders a b + count_list ps b))" using refcount_of [OF inv i b] by simp
  from inv i b obtain a1 where f: "free_block_id i a = Inr a1" "na_inv ps a1"
    "free_block_indices a1 = (if holders a b + count_list ps b = 1 then b # free_block_indices a else free_block_indices a)"
    by (rule free_block_id_inv) blast
  have eq: "cow_block_if_not_appendable i a = andthen (allocate_block_id a1) (\<lambda>(trg, a).
      andthen (record_cow (Some b) (Some trg) (copy_on_writes a)) (\<lambda>cows. Inr (trg, a\<lparr>copy_on_writes := cows\<rparr>)))"
    using b rc shared f(1) by (simp add: cow_block_if_not_appendable_def is_appendable_def ro_get_def rc_get_def)
  show ?thesis
  proof (cases "free_block_indices a = []")
    case True
    then show ?thesis using f(3) shared by (simp add: eq allocate_block_id_empty)
  next
    case False
    then have "free_block_indices a1 \<noteq> []" using f(3) shared by simp
    with f(2) obtain t a2 where "allocate_block_id a1 = Inr (t, a2)" by (rule allocate_block_id_inv) blast
    with False show ?thesis by (simp add: eq record_cow_def)
  qed
qed

lemma append_runs:
  assumes inv: "na_inv [] a" and i: "live a i" and b: "nb_block_id (blk a i) = Some b"
    and room: "ts = [] \<or> int (length ts) \<le> num_empty_slots (blk a i)"
  shows "if 1 < holders a b \<and> free_block_indices a = [] then append_token_ids i ts a = Inl NoFreeBlocksError
    else \<exists>a'. append_token_ids i ts a = Inr a'"
proof -
  define y where "y = (blk a i)\<lparr>nb_token_ids := nb_token_ids (blk a i) @ ts\<rparr>"
  have y: "append_token_ids_no_cow ts (blk a i) = Inr y"
    using room by (auto simp: append_token_ids_no_cow_def y_def)
  have len: "i < length (bp_pool (na_pool a))" using i by (simp add: live_def)
  have yb: "nb_block_id y = nb_block_id (blk a i)" "fits (na_block_size a) y"
    using append_no_cow_Inr [OF y] live_fits [OF inv i] by (auto simp: y_def)
  let ?a = "set_blk i y a"
  have inv1: "na_inv [] ?a" "live ?a i" using set_blk_inv [OF inv i yb] i by simp_all
  have b1: "nb_block_id (blk ?a i) = Some b" using yb(1) b len by (simp add: blk_set_blk)
  have h1: "holders ?a b = holders a b" using holders_set_blk [OF len, of y b] yb(1) by simp
  have eq: "append_token_ids i ts a = andthen (cow_block_if_not_appendable i ?a)
      (\<lambda>(bid, a). Inr (set_blk i ((blk a i)\<lparr>nb_block_id := Some bid\<rparr>) a))"
    using y yb(1) b by (simp add: append_token_ids_def Let_def)
  show ?thesis
  proof (cases "1 < holders a b")
    case True
    with cow_shared_runs [OF inv1 b1] h1 show ?thesis by (auto simp: eq)
  next
    case False
    with cow_unshared [OF inv1 b1] h1 show ?thesis by (simp add: eq)
  qed
qed

end
