(* ===== verification/NaiveProps.thy ===== *)
theory NaiveProps
  imports NaiveOps
begin

text \<open>
  The naive block allocator's promises: reference counts and free list are exact in every reachable
  state (C35), appending never writes to a shared block (C36), forking shares the blocks and can be
  undone (C37); and the cache metric is the true hit rate.
\<close>

section \<open>Reachable states\<close>

text \<open>
  The calls that respect the ownership of block objects: an object is used while it is in use, swapped
  in only after it gave up its block, and forked only while it holds one.
\<close>

inductive na_reach :: "naive_allocator \<Rightarrow> bool" where
  na_start: "naive_init n bsz ids = Inr a \<Longrightarrow> (case ids of None \<Rightarrow> True | Some xs \<Rightarrow> distinct xs) \<Longrightarrow> na_reach a"
| na_mutable: "na_reach a \<Longrightarrow> allocate_mutable_block prev a = Inr (i, a') \<Longrightarrow> na_reach a'"
| na_immutable: "na_reach a \<Longrightarrow> allocate_immutable_block prev ts a = Inr (i, a') \<Longrightarrow> na_reach a'"
| na_immutables: "na_reach a \<Longrightarrow> allocate_immutable_blocks prev tss a = Inr (ns, a') \<Longrightarrow> na_reach a'"
| na_append: "na_reach a \<Longrightarrow> live a i \<Longrightarrow> append_token_ids i ts a = Inr a' \<Longrightarrow> na_reach a'"
| na_release: "na_reach a \<Longrightarrow> live a i \<Longrightarrow> na_free i keep a = Inr a' \<Longrightarrow> na_reach a'"
| na_forked: "na_reach a \<Longrightarrow> get_all_blocks_recursively (bp_pool (na_pool a)) i = Inr ss \<Longrightarrow>
    \<forall>s \<in> set ss. live a s \<and> nb_block_id (blk a s) \<noteq> None \<Longrightarrow> na_fork i a = Inr (ns, a') \<Longrightarrow> na_reach a'"
| na_out: "na_reach a \<Longrightarrow> \<forall>i \<in> set ns. live a i \<Longrightarrow> na_swap_out ns a = Inr a' \<Longrightarrow> na_reach a'"
| na_in: "na_reach a \<Longrightarrow> distinct ns \<Longrightarrow> \<forall>i \<in> set ns. live a i \<and> nb_block_id (blk a i) = None \<Longrightarrow>
    na_swap_in ns a = Inr a' \<Longrightarrow> na_reach a'"
| na_cleared: "na_reach a \<Longrightarrow> na_reach (snd (clear_copy_on_writes a))"

lemma na_fork_inv:
  assumes "na_inv ps a" and "get_all_blocks_recursively (bp_pool (na_pool a)) i = Inr ss"
    and "\<forall>s \<in> set ss. live a s \<and> nb_block_id (blk a s) \<noteq> None" and "na_fork i a = Inr (ns, a')"
  shows "na_inv ps a'"
  using fork_loop_spec [OF assms(1,3), of None] assms(2,4) by (auto simp: na_fork_def)

lemma na_reach_inv: "na_reach a \<Longrightarrow> na_inv [] a"
proof (induction rule: na_reach.induct)
  case (na_start n bsz ids a)
  then show ?case using naive_init_inv by blast
next
  case (na_cleared a)
  then show ?case by (simp add: clear_copy_on_writes_def clear_cows_def)
next
  case (na_mutable a prev i a')
  then show ?case using allocate_mutable_block_inv by blast
next
  case (na_immutable a prev ts i a')
  then show ?case using allocate_immutable_block_inv by blast
next
  case (na_immutables a prev tss ns a')
  then show ?case using allocate_immutable_blocks_inv by blast
next
  case (na_append a i ts a')
  then show ?case using append_token_ids_inv by blast
next
  case (na_release a i keep a')
  then show ?case by (blast intro: na_free_inv)
next
  case (na_forked a i ss ns a')
  then show ?case by (blast intro: na_fork_inv)
next
  case (na_out a ns a')
  then show ?case by (blast intro: na_swap_out_inv)
next
  case (na_in a ns a')
  then show ?case by (blast intro: na_swap_in_inv)
qed

section \<open>Example data\<close>

definition demo_alloc :: naive_allocator where
  "demo_alloc = \<lparr>free_block_indices = [0, 1], all_block_indices = {0, 1}, na_refcounts = rc_init [0, 1],
     na_block_size = 4, copy_on_writes = [],
     na_pool = \<lparr>bp_block_size = 4, bp_pool_size = 8, free_ids = [0..<8],
       bp_pool = replicate 8 (empty_block 4)\<rparr>\<rparr>"

definition demo_alloc_one :: naive_allocator where
  "demo_alloc_one = demo_alloc\<lparr>free_block_indices := [1], na_refcounts := (rc_init [0, 1])(0 \<mapsto> 1),
     na_pool := (na_pool demo_alloc)\<lparr>free_ids := [1..<8],
       bp_pool := (replicate 8 (empty_block 4))
         [0 := \<lparr>nb_token_ids = [7, 8], nb_block_size = 4, nb_prev_block = None, nb_block_id = Some 0\<rparr>]\<rparr>\<rparr>"

definition demo_alloc_two :: naive_allocator where
  "demo_alloc_two = demo_alloc_one\<lparr>na_refcounts := (rc_init [0, 1])(0 \<mapsto> 2),
     na_pool := (na_pool demo_alloc_one)\<lparr>free_ids := [Suc (Suc 0)..<8],
       bp_pool := (bp_pool (na_pool demo_alloc_one))
         [1 := \<lparr>nb_token_ids = [7, 8], nb_block_size = 4, nb_prev_block = None, nb_block_id = Some 0\<rparr>]\<rparr>\<rparr>"

lemmas naive_run = allocate_immutable_block_def allocate_mutable_block_def
  allocate_block_id_def rc_incr_def rc_init_def na_init_block_def pool_init_block_def naive_block_init_def
  append_token_ids_no_cow_def empty_block_def append_token_ids_def blk_def set_blk_def num_empty_slots_def
  cow_block_if_not_appendable_def is_appendable_def ro_get_def rc_get_def na_fork_def
  get_all_blocks_recursively_def live_def

lemma demo_alloc_reach: "na_reach demo_alloc"
proof -
  have "naive_init 2 4 None = Inr demo_alloc"
    by (simp add: demo_alloc_def naive_init_def pool_init_def upto.simps Let_def)
  then show ?thesis by (rule na_start) simp
qed

lemma demo_alloc_one_reach: "na_reach demo_alloc_one"
proof -
  have "allocate_immutable_block None [7, 8] demo_alloc = Inr (0, demo_alloc_one)"
    by (simp add: demo_alloc_one_def demo_alloc_def naive_run Let_def)
  with demo_alloc_reach show ?thesis by (rule na_immutable)
qed

lemma demo_alloc_one_chain: "get_all_blocks_recursively (bp_pool (na_pool demo_alloc_one)) 0 = Inr [0]"
  by (simp add: demo_alloc_one_def demo_alloc_def get_all_blocks_recursively_def numeral_eq_Suc)

lemma demo_alloc_two_reach: "na_reach demo_alloc_two"
proof -
  have "na_fork 0 demo_alloc_one = Inr ([1], demo_alloc_two)"
    using demo_alloc_one_chain by (simp add: na_fork_def) (simp add: demo_alloc_two_def demo_alloc_one_def demo_alloc_def naive_run Let_def)
  moreover have "\<forall>s \<in> set [0]. live demo_alloc_one s \<and> nb_block_id (blk demo_alloc_one s) \<noteq> None"
    by (simp add: demo_alloc_one_def demo_alloc_def live_def blk_def)
  ultimately show ?thesis using na_forked [OF demo_alloc_one_reach demo_alloc_one_chain] by blast
qed

text \<open>
  C35: In every reachable state of the allocator the reference count of each block is the number of
  block objects that hold it; the free list has no duplicates and exactly the blocks nobody holds,
  so that free and held blocks add up to the total; and the objects the pool can hand out hold no
  block.
\<close>

theorem naive_allocator_accounting:
  assumes "na_reach a"
  shows "(\<forall>b. na_refcounts a b = (if b \<in> all_block_indices a then Some (int (holders a b)) else None))
    \<and> distinct (free_block_indices a)
    \<and> set (free_block_indices a) = {b \<in> all_block_indices a. holders a b = 0}
    \<and> na_num_free_blocks a + card {b \<in> all_block_indices a. 0 < holders a b} = na_num_total_blocks a
    \<and> (\<forall>i \<in> set (free_ids (na_pool a)). nb_block_id (blk a i) = None)"
proof -
  have inv: "na_inv [] a" using assms by (rule na_reach_inv)
  let ?free = "{b \<in> all_block_indices a. holders a b = 0}" and ?held = "{b \<in> all_block_indices a. 0 < holders a b}"
  have fin: "finite (all_block_indices a)" using inv by (simp add: na_inv_def)
  have "all_block_indices a = ?free \<union> ?held" by auto
  then have "card (all_block_indices a) = card ?free + card ?held"
    using fin by (metis (mono_tags, lifting) card_Un_disjoint disjoint_iff finite_Un mem_Collect_eq less_numeral_extra(3))
  moreover have "card ?free = length (free_block_indices a)"
    using inv by (simp add: na_inv_def flip: distinct_card)
  ultimately show ?thesis
    using inv by (simp add: na_inv_def na_num_free_blocks_def na_num_total_blocks_def pool_ok_def blk_def)
qed

theorem naive_allocator_accounting_witness:
  "na_reach demo_alloc_two \<and> na_num_free_blocks demo_alloc_two = 1 \<and> holders demo_alloc_two 0 = 2 \<and> holders demo_alloc_two 1 = 0"
proof -
  have rc: "na_refcounts demo_alloc_two 0 = Some 2" "na_refcounts demo_alloc_two 1 = Some 0" "all_block_indices demo_alloc_two = {0, 1}"
    "na_num_free_blocks demo_alloc_two = 1"
    by (simp_all add: demo_alloc_two_def demo_alloc_one_def demo_alloc_def rc_init_def na_num_free_blocks_def)
  with naive_allocator_accounting [OF demo_alloc_two_reach] demo_alloc_two_reach show ?thesis by auto
qed

section \<open>Copy-on-write\<close>

text \<open>
  C36: Appending tokens to an object that holds block \<open>b\<close>, in every case: the tokens must fit, and a
  shared block needs a free one to be copied to. Otherwise the tokens are appended, and the block
  the object holds afterwards is held by nobody else: it keeps \<open>b\<close> when it was alone, and gets a free
  block when \<open>b\<close> was shared, with the copy from \<open>b\<close> recorded. No other object in use changes.
\<close>

theorem append_never_writes_shared:
  assumes reach: "na_reach a" and i: "live a i" and b: "nb_block_id (blk a i) = Some b"
  shows "if ts \<noteq> [] \<and> num_empty_slots (blk a i) < int (length ts) then append_token_ids i ts a = Inl AssertionError
    else if 1 < holders a b \<and> free_block_indices a = [] then append_token_ids i ts a = Inl NoFreeBlocksError
    else \<exists>a' t. append_token_ids i ts a = Inr a' \<and> nb_block_id (blk a' i) = Some t
      \<and> nb_token_ids (blk a' i) = nb_token_ids (blk a i) @ ts
      \<and> na_refcounts a' t = Some 1 \<and> holders a' t = 1
      \<and> (if holders a b = 1 then t = b \<and> copy_on_writes a' = copy_on_writes a
         else t \<in> set (free_block_indices a) \<and> copy_on_writes a' = copy_on_writes a @ [(b, t)]
           \<and> na_refcounts a' b = Some (int (holders a b) - 1))
      \<and> (\<forall>j. j \<noteq> i \<longrightarrow> live a j \<longrightarrow> live a' j \<and> blk a' j = blk a j)"
proof -
  have inv: "na_inv [] a" using reach by (rule na_reach_inv)
  have h: "0 < holders a b" "na_refcounts a b = Some (int (holders a b))" using refcount_of [OF inv i b] by simp_all
  show ?thesis
  proof (cases "ts \<noteq> [] \<and> num_empty_slots (blk a i) < int (length ts)")
    case True
    then show ?thesis using append_no_room by simp
  next
    case fit: False
    show ?thesis
    proof (cases "1 < holders a b \<and> free_block_indices a = []")
      case True
      with append_runs [OF inv i b, of ts] fit show ?thesis by auto
    next
      case False
      with append_runs [OF inv i b, of ts] fit obtain a' where run: "append_token_ids i ts a = Inr a'" by auto
      note A = append_token_ids_inv [OF inv i run]
      have own: "holders a' t = 1" if "na_refcounts a' t = Some 1" for t
        using A that by (auto simp: na_inv_def split: if_splits)
      have free: "t \<in> set (free_block_indices a)" if "holders a t = 0" "na_refcounts a' t = Some 1" for t
        using A inv that by (auto simp: na_inv_def split: if_splits)
      show ?thesis
      proof (cases "holders a b = 1")
        case True
        with A b h fit False run own [of b] show ?thesis by auto
      next
        case False
        with A b h(1) obtain t where "nb_block_id (blk a' i) = Some t" "t \<noteq> b" "holders a t = 0"
          "copy_on_writes a' = copy_on_writes a @ [(b, t)]"
          "na_refcounts a' = (na_refcounts a)(b \<mapsto> int (holders a b) - 1, t \<mapsto> 1)" by auto
        with False A fit \<open>\<not> (1 < holders a b \<and> free_block_indices a = [])\<close> run own [of t] free [of t] show ?thesis by auto
      qed
    qed
  qed
qed

theorem append_never_writes_shared_witness:
  "na_reach demo_alloc_two \<and> live demo_alloc_two 1 \<and> nb_block_id (blk demo_alloc_two 1) = Some 0 \<and> holders demo_alloc_two 0 = 2
   \<and> (\<exists>a'. append_token_ids 1 [9] demo_alloc_two = Inr a' \<and> nb_block_id (blk a' 1) = Some 1
        \<and> blk a' 0 = blk demo_alloc_two 0 \<and> copy_on_writes a' = [(0, 1)])"
proof -
  have f: "live demo_alloc_two 1" "nb_block_id (blk demo_alloc_two 1) = Some 0" "num_empty_slots (blk demo_alloc_two 1) = 2"
    "free_block_indices demo_alloc_two = [1]" "copy_on_writes demo_alloc_two = []" "live demo_alloc_two 0"
    "na_refcounts demo_alloc_two 0 = Some 2"
    by (simp_all add: demo_alloc_two_def demo_alloc_one_def demo_alloc_def live_def blk_def num_empty_slots_def)
  moreover have "holders demo_alloc_two 0 = 2"
    using refcount_of [OF na_reach_inv [OF demo_alloc_two_reach] f(1,2)] f(7) by simp
  ultimately show ?thesis
    using append_never_writes_shared [OF demo_alloc_two_reach f(1,2), of "[9]"] demo_alloc_two_reach by auto
qed


section \<open>Forking\<close>

fun linked_blocks :: "naive_allocator \<Rightarrow> nat option \<Rightarrow> nat list \<Rightarrow> bool" where
  "linked_blocks a prev [] = True"
| "linked_blocks a prev (s # ss) = (nb_prev_block (blk a s) = prev \<and> linked_blocks a (Some s) ss)"

lemma linked_blocks_snoc:
  "linked_blocks a prev (ss @ [s]) \<longleftrightarrow>
   linked_blocks a prev ss \<and> nb_prev_block (blk a s) = (if ss = [] then prev else Some (last ss))"
  by (induction ss arbitrary: prev) auto

lemma recurse_blocks_linked:
  "linked_blocks a None (ss @ [s]) \<Longrightarrow> length ss < fuel \<Longrightarrow>
   recurse_blocks (bp_pool (na_pool a)) fuel s = Inr (ss @ [s])"
proof (induction ss arbitrary: s fuel rule: rev_induct)
  case Nil
  then show ?case by (cases fuel) (auto simp: blk_def)
next
  case (snoc x ss)
  from snoc.prems obtain f where f: "fuel = Suc f" by (cases fuel) auto
  have "nb_prev_block (blk a s) = Some x" "linked_blocks a None (ss @ [x])"
    using snoc.prems(1) linked_blocks_snoc [of a None "ss @ [x]" s] by auto
  with snoc.IH [of x f] snoc.prems(2) f show ?case by (simp add: blk_def)
qed

lemma get_all_blocks_linked:
  assumes "linked_blocks a None ss" and "ss \<noteq> []" and "distinct ss" and "\<forall>s \<in> set ss. live a s"
  shows "get_all_blocks_recursively (bp_pool (na_pool a)) (last ss) = Inr ss"
proof -
  have "length ss \<le> length (bp_pool (na_pool a))"
    by (rule distinct_length_le_card) (use assms(3,4) in \<open>auto simp: live_def\<close>)
  moreover have ss: "ss = butlast ss @ [last ss]" using assms(2) by simp
  then have "length (butlast ss) < length ss" by (metis length_append_singleton lessI)
  ultimately have "length (butlast ss) < length (bp_pool (na_pool a))" by linarith
  with recurse_blocks_linked [of a "butlast ss" "last ss"] assms(1) ss show ?thesis
    by (simp add: get_all_blocks_recursively_def)
qed

lemma na_inv_refcounts:
  "na_inv [] a \<Longrightarrow> na_inv [] a' \<Longrightarrow> all_block_indices a' = all_block_indices a \<Longrightarrow>
   (\<And>b. holders a' b = holders a b) \<Longrightarrow> na_refcounts a' = na_refcounts a"
  by (auto simp: na_inv_def fun_eq_iff)

lemma source_held:
  assumes "\<forall>s \<in> set ss. live a s \<and> nb_block_id (blk a s) \<noteq> None"
  shows "count_list (map (\<lambda>s. nb_block_id (blk a s)) ss) (Some b) = 0 \<or> 0 < holders a b"
proof (cases "Some b \<in> set (map (\<lambda>s. nb_block_id (blk a s)) ss)")
  case True
  then obtain s where "s \<in> set ss" "nb_block_id (blk a s) = Some b" by auto
  with assms holders_pos [of s a b] show ?thesis by (simp add: live_def)
qed (simp add: count_list_0_iff)

lemma linked_blocks_nth:
  "\<forall>k < length ns. nb_prev_block (blk a (ns ! k)) = (if k = 0 then prev else Some (ns ! (k - 1))) \<Longrightarrow>
   linked_blocks a prev ns"
proof (induction ns arbitrary: prev)
  case (Cons n ns)
  have "nb_prev_block (blk a (ns ! k)) = (if k = 0 then Some n else Some (ns ! (k - 1)))" if "k < length ns" for k
    using Cons.prems [rule_format, of "Suc k"] that by (cases k) simp_all
  moreover have "nb_prev_block (blk a n) = prev" using Cons.prems [rule_format, of 0] by simp
  ultimately show ?case using Cons.IH by simp
qed simp

text \<open>
  C37: Forking a sequence of allocated blocks, linked from the first to the last by their previous
  blocks, succeeds: the copies form a linked sequence of new objects with the same tokens and the
  same physical blocks, and no block is taken from the free list. Freeing the copies brings back the
  reference counts and the free list of before, and the sources are never touched.
\<close>

theorem fork_round_trip:
  assumes reach: "na_reach a" and chain: "linked_blocks a None ss" "ss \<noteq> []" "distinct ss"
    and src: "\<forall>s \<in> set ss. live a s \<and> nb_block_id (blk a s) \<noteq> None"
  shows "\<exists>ns a\<^sub>1 a\<^sub>2. na_fork (last ss) a = Inr (ns, a\<^sub>1) \<and> length ns = length ss \<and> linked_blocks a\<^sub>1 None ns
    \<and> (\<forall>k < length ss. \<not> live a (ns ! k) \<and> nb_token_ids (blk a\<^sub>1 (ns ! k)) = nb_token_ids (blk a (ss ! k))
         \<and> nb_block_id (blk a\<^sub>1 (ns ! k)) = nb_block_id (blk a (ss ! k)))
    \<and> free_block_indices a\<^sub>1 = free_block_indices a
    \<and> fold_result (\<lambda>i. na_free i False) ns a\<^sub>1 = Inr a\<^sub>2
    \<and> na_refcounts a\<^sub>2 = na_refcounts a \<and> free_block_indices a\<^sub>2 = free_block_indices a
    \<and> copy_on_writes a\<^sub>2 = copy_on_writes a
    \<and> (\<forall>j. live a j \<longrightarrow> blk a\<^sub>1 j = blk a j \<and> live a\<^sub>2 j \<and> blk a\<^sub>2 j = blk a j)"
proof -
  have inv: "na_inv [] a" using reach by (rule na_reach_inv)
  from fork_loop_spec [OF inv src, of None] obtain ns a1 where F: "fork_loop ss None a = Inr (ns, a1)"
    "na_inv [] a1" "keeps_live a a1" "length ns = length ss" "distinct ns" "\<forall>i \<in> set ns. live a1 i \<and> \<not> live a i"
    "\<forall>k < length ss. nb_token_ids (blk a1 (ns ! k)) = nb_token_ids (blk a (ss ! k))
         \<and> nb_block_id (blk a1 (ns ! k)) = nb_block_id (blk a (ss ! k))
         \<and> nb_prev_block (blk a1 (ns ! k)) = (if k = 0 then None else Some (ns ! (k - 1)))"
    "free_block_indices a1 = free_block_indices a" "copy_on_writes a1 = copy_on_writes a"
    "\<forall>b. holders a1 b = holders a b + count_list (map (\<lambda>s. nb_block_id (blk a s)) ss) (Some b)" by blast
  have run: "na_fork (last ss) a = Inr (ns, a1)"
    using get_all_blocks_linked [OF chain] src F(1) by (simp add: na_fork_def)
  have ids: "map (\<lambda>i. nb_block_id (blk a1 i)) ns = map (\<lambda>s. nb_block_id (blk a s)) ss"
    using F(4,7) by (simp add: list_eq_iff_nth_eq)
  have held: "\<forall>i \<in> set ns. live a1 i \<and> nb_block_id (blk a1 i) \<noteq> None"
    using F(4,6,7) src by (metis in_set_conv_nth nth_mem)
  have spare: "\<forall>b. count_list (map (\<lambda>i. nb_block_id (blk a1 i)) ns) (Some b) = 0
      \<or> count_list (map (\<lambda>i. nb_block_id (blk a1 i)) ns) (Some b) < holders a1 b + count_list [] b"
    unfolding ids using F(10) source_held [OF src] by simp
  from release_loop [OF F(2,5) held spare] obtain a2 where R: "fold_result (\<lambda>i. na_free i False) ns a1 = Inr a2"
    "na_inv [] a2" "free_block_indices a2 = free_block_indices a1" "copy_on_writes a2 = copy_on_writes a1"
    "all_block_indices a2 = all_block_indices a1"
    "\<forall>b. holders a2 b + count_list (map (\<lambda>i. nb_block_id (blk a1 i)) ns) (Some b) = holders a1 b"
    "\<forall>j. live a1 j \<longrightarrow> j \<notin> set ns \<longrightarrow> live a2 j \<and> blk a2 j = blk a1 j" by blast
  have "holders a2 b = holders a b" for b using R(6) F(10) unfolding ids by simp
  then have "na_refcounts a2 = na_refcounts a"
    using na_inv_refcounts [OF inv R(2)] R(5) F(3) by (simp add: keeps_live_def)
  moreover have "linked_blocks a1 None ns" using F(4,7) by (intro linked_blocks_nth) simp
  moreover have "\<forall>j. live a j \<longrightarrow> blk a1 j = blk a j \<and> live a2 j \<and> blk a2 j = blk a j"
    using F(3,6) R(7) unfolding keeps_live_def by metis
  moreover have "\<forall>k < length ss. \<not> live a (ns ! k)" using F(4,6) by (metis nth_mem)
  ultimately show ?thesis using run R F(4,7,8,9) by (intro exI [of _ ns] exI [of _ a1] exI [of _ a2]) simp
qed

theorem fork_round_trip_witness:
  "na_reach demo_alloc_one \<and> linked_blocks demo_alloc_one None [0]
   \<and> (\<exists>ns a\<^sub>1 a\<^sub>2. na_fork 0 demo_alloc_one = Inr (ns, a\<^sub>1) \<and> length ns = 1
        \<and> fold_result (\<lambda>i. na_free i False) ns a\<^sub>1 = Inr a\<^sub>2 \<and> na_refcounts a\<^sub>2 = na_refcounts demo_alloc_one)"
proof -
  have f: "linked_blocks demo_alloc_one None [0]" "\<forall>s \<in> set [0]. live demo_alloc_one s \<and> nb_block_id (blk demo_alloc_one s) \<noteq> None"
    by (simp_all add: demo_alloc_one_def demo_alloc_def live_def blk_def)
  from fork_round_trip [OF demo_alloc_one_reach f(1) _ _ f(2)] f(1) demo_alloc_one_reach show ?thesis by auto
qed

section \<open>Cache metric\<close>

definition metric_ok :: "int \<Rightarrow> int \<Rightarrow> cache_metric \<Rightarrow> bool" where
  "metric_ok hits queries c \<longleftrightarrow> 0 < cm_block_size c \<and> 0 \<le> num_completed_blocks c
     \<and> 0 \<le> num_incompleted_block_queries c \<and> num_incompleted_block_queries c < cm_block_size c
     \<and> queries = num_completed_blocks c * cm_block_size c + num_incompleted_block_queries c
     \<and> completed_block_cache_hit_rate c * of_int (num_completed_blocks c) * of_int (cm_block_size c)
         + of_int (num_incompleted_block_hit c) = of_int hits
     \<and> (num_incompleted_block_queries c = 0 \<longrightarrow> num_incompleted_block_hit c = 0)"

lemma rate_update:
  fixes r n h b :: rat
  shows "n + 1 \<noteq> 0 \<Longrightarrow> b \<noteq> 0 \<Longrightarrow> (r * n + h / b) / (n + 1) * (n + 1) * b = r * n * b + h"
proof -
  assume nz: "n + 1 \<noteq> 0" "b \<noteq> 0"
  have cancel: "x / d * d = x" if "d \<noteq> 0" for x d :: rat using that by simp
  show ?thesis unfolding cancel [OF nz(1)] distrib_right cancel [OF nz(2)] ..
qed

lemma cm_query_ok:
  assumes ok: "metric_ok hits queries c"
  shows "metric_ok (hits + (if hit then 1 else 0)) (queries + 1) (cm_query hit c)"
proof (cases "num_incompleted_block_queries c + 1 = cm_block_size c")
  case True
  let ?n = "of_int (num_completed_blocks c) :: rat" and ?b = "of_int (cm_block_size c) :: rat"
  let ?h = "num_incompleted_block_hit c + (if hit then 1 else 0)"
  have nz: "?n + 1 \<noteq> 0" "?b \<noteq> 0" using ok unfolding metric_ok_def
    by (metis add_pos_nonneg add.commute less_irrefl of_int_0_le_iff zero_less_one, simp)
  have rate: "(completed_block_cache_hit_rate c * ?n + of_int ?h / ?b) / (?n + 1) * (?n + 1) * ?b
      = completed_block_cache_hit_rate c * ?n * ?b + of_int ?h" using rate_update [OF nz] .
  have q: "cm_query hit c = c\<lparr>completed_block_cache_hit_rate :=
        (completed_block_cache_hit_rate c * ?n + of_int ?h / ?b) / (?n + 1),
      num_incompleted_block_queries := 0, num_incompleted_block_hit := 0,
      num_completed_blocks := num_completed_blocks c + 1\<rparr>"
    using True by (simp add: cm_query_def Let_def)
  have "queries + 1 = (num_completed_blocks c + 1) * cm_block_size c"
    using ok True by (simp add: metric_ok_def distrib_right)
  moreover have "completed_block_cache_hit_rate c * ?n * ?b + of_int ?h = of_int (hits + (if hit then 1 else 0))"
    using ok by (simp add: metric_ok_def)
  ultimately show ?thesis using ok rate unfolding metric_ok_def q by (simp del: times_divide_eq_left)
next
  case False
  with ok show ?thesis by (auto simp: cm_query_def metric_ok_def Let_def)
qed

lemma cm_queries_ok:
  "metric_ok hits queries c \<Longrightarrow>
   metric_ok (hits + int (count_list hs True)) (queries + int (length hs)) (fold cm_query hs c)"
proof (induction hs arbitrary: c hits queries)
  case (Cons h hs)
  from Cons.IH [OF cm_query_ok [OF Cons.prems, of h]] show ?case by (cases h) (simp_all add: ac_simps)
qed simp

lemma get_hit_rate_ok:
  assumes "metric_ok hits queries c"
  shows "get_hit_rate c = of_int hits / of_int queries"
proof -
  let ?n = "of_int (num_completed_blocks c) :: rat" and ?b = "of_int (cm_block_size c) :: rat"
  let ?q = "of_int (num_incompleted_block_queries c) :: rat" and ?h = "of_int (num_incompleted_block_hit c) :: rat"
  let ?r = "completed_block_cache_hit_rate c"
  have b: "?b \<noteq> 0" using assms by (simp add: metric_ok_def)
  have inc: "(if 0 < num_incompleted_block_queries c then ?h / ?q * (?q / ?b) else 0) = ?h / ?b"
    using assms by (auto simp: metric_ok_def)
  have com: "(if 0 < num_completed_blocks c then ?r * ?n else 0) = ?r * ?n"
    using assms by (auto simp: metric_ok_def)
  have tot: "?n + ?q / ?b = of_int queries / ?b" and hit: "?r * ?n + ?h / ?b = of_int hits / ?b"
    using assms b by (simp_all add: metric_ok_def field_simps)
  show ?thesis using b by (simp add: get_hit_rate_def Let_def inc com tot hit)
qed

text \<open>
  The block-wise bookkeeping of the cache metric is exact: after any sequence of queries the
  reported hit rate is the number of hits divided by the number of queries, and 0 before the first.
\<close>

theorem hit_rate_exact:
  "get_hit_rate (fold cm_query hs cache_metric_init) =
     (if hs = [] then 0 else of_nat (count_list hs True) / of_nat (length hs))"
proof -
  have "metric_ok 0 0 cache_metric_init" by (simp add: metric_ok_def cache_metric_init_def)
  from get_hit_rate_ok [OF cm_queries_ok [OF this, of hs]] show ?thesis by simp
qed

end
