(* ===== verification/SamplingParams.thy ===== *)
theory SamplingParams
  imports Detokenizer
begin

text \<open>
  \<^verbatim>\<open>src/vllm/sampling_params.py\<close>, class \<open>SamplingParams\<close>: the normalisation and the checks of
  \<open>__post_init__\<close>, and \<open>update_from_generation_config\<close>; then the request that
  \<^verbatim>\<open>src/vllm/v1/engine/processor.py\<close> makes of the parameters for the detokenizer. Floating-point
  parameters are rationals, so NaN is left out, and arguments have the types of their annotations:
  the \<^verbatim>\<open>isinstance\<close> checks for other types have no counterpart. The fields for logits processors,
  guided decoding, bad words and token restrictions are not read by the checks and are left out.
\<close>

section \<open>Model\<close>

datatype stop_arg = StopOne py_text | StopMany "py_text list"

text \<open>\<^verbatim>\<open>logprobs\<close> is an \<^verbatim>\<open>int\<close> or the \<^verbatim>\<open>bool\<close> that Python's \<^verbatim>\<open>int\<close> includes.\<close>

datatype logprobs_arg = LpBool bool | LpInt int

datatype sampling_type = GREEDY | RANDOM | RANDOM_SEED

definition SAMPLING_EPS :: rat where "SAMPLING_EPS = 1 / 100000"

definition MAX_TEMP :: rat where "MAX_TEMP = 1 / 100"

record sampling_params_args =
  p_n :: int
  p_best_of :: "int option"
  p_real_n :: "int option"
  p_presence_penalty :: rat
  p_frequency_penalty :: rat
  p_repetition_penalty :: rat
  p_temperature :: rat
  p_top_p :: rat
  p_top_k :: int
  p_min_p :: rat
  p_seed :: "int option"
  p_stop :: "stop_arg option"
  p_stop_token_ids :: "token list option"
  p_ignore_eos :: bool
  p_max_tokens :: "int option"
  p_min_tokens :: int
  p_logprobs :: "logprobs_arg option"
  p_prompt_logprobs :: "logprobs_arg option"
  p_detokenize :: bool
  p_skip_special_tokens :: bool
  p_spaces_between_special_tokens :: bool
  p_include_stop_str_in_output :: bool
  p_truncate_prompt_tokens :: "int option"
  p_output_kind :: request_output_kind
  p_output_text_buffer_length :: int
  p_all_stop_token_ids :: "token set"

text \<open>\<^verbatim>\<open>bool(x)\<close> of an optional integer: neither \<^verbatim>\<open>None\<close> nor 0.\<close>

definition nonzero :: "int option \<Rightarrow> bool" where
  "nonzero x = (case x of None \<Rightarrow> False | Some k \<Rightarrow> k \<noteq> 0)"

definition logprobs_value :: "logprobs_arg \<Rightarrow> int" where
  "logprobs_value l = (case l of LpBool b \<Rightarrow> (if b then 1 else 0) | LpInt k \<Rightarrow> k)"

definition normal_logprobs :: "logprobs_arg option \<Rightarrow> logprobs_arg option" where
  "normal_logprobs l = (if l = Some (LpBool True) then Some (LpInt 1) else l)"

definition stop_list :: "sampling_params_args \<Rightarrow> py_text list" where
  "stop_list p = (case p_stop p of Some (StopMany ss) \<Rightarrow> ss | Some (StopOne s) \<Rightarrow> [s] | None \<Rightarrow> [])"

definition normalise :: "sampling_params_args \<Rightarrow> sampling_params_args" where
  "normalise p =
     (let p = (if 0 < p_temperature p \<and> p_temperature p < MAX_TEMP
               then p\<lparr>p_temperature := max (p_temperature p) MAX_TEMP\<rparr> else p);
          p = p\<lparr>p_seed := (if p_seed p = Some (- 1) then None else p_seed p)\<rparr>;
          p = p\<lparr>p_stop := Some (StopMany (stop_list p))\<rparr>;
          p = p\<lparr>p_stop_token_ids := Some (case p_stop_token_ids p of None \<Rightarrow> [] | Some ts \<Rightarrow> ts)\<rparr>;
          p = p\<lparr>p_logprobs := normal_logprobs (p_logprobs p), p_prompt_logprobs := normal_logprobs (p_prompt_logprobs p)\<rparr>
      in if stop_list p \<noteq> [] \<and> \<not> p_include_stop_str_in_output p
         then p\<lparr>p_output_text_buffer_length := int (Max (set (map length (stop_list p)))) - 1\<rparr> else p)"

text \<open>\<open>_verify_args\<close>: the conditions under which each of its checks raises, in order.\<close>

definition verify_args :: "sampling_params_args \<Rightarrow> unit result" where
  "verify_args p =
     (if p_n p < 1
        \<or> \<not> (- 2 \<le> p_presence_penalty p \<and> p_presence_penalty p \<le> 2)
        \<or> \<not> (- 2 \<le> p_frequency_penalty p \<and> p_frequency_penalty p \<le> 2)
        \<or> \<not> (0 < p_repetition_penalty p \<and> p_repetition_penalty p \<le> 2)
        \<or> p_temperature p < 0
        \<or> \<not> (0 < p_top_p p \<and> p_top_p p \<le> 1)
        \<or> p_top_k p < - 1 \<or> p_top_k p = 0
        \<or> \<not> (0 \<le> p_min_p p \<and> p_min_p p \<le> 1)
        \<or> (case p_max_tokens p of None \<Rightarrow> False | Some m \<Rightarrow> m < 1)
        \<or> p_min_tokens p < 0
        \<or> (case p_max_tokens p of None \<Rightarrow> False | Some m \<Rightarrow> m < p_min_tokens p)
        \<or> (case p_logprobs p of None \<Rightarrow> False | Some l \<Rightarrow> logprobs_value l < 0)
        \<or> (case p_prompt_logprobs p of None \<Rightarrow> False | Some l \<Rightarrow> logprobs_value l < 0)
        \<or> (case p_truncate_prompt_tokens p of None \<Rightarrow> False | Some m \<Rightarrow> m < 1)
        \<or> [] \<in> set (stop_list p)
        \<or> stop_list p \<noteq> [] \<and> \<not> p_detokenize p
        \<or> p_best_of p \<noteq> p_real_n p \<and> p_output_kind p = DELTA
      then Inl ValueError else Inr ())"

definition verify_greedy_sampling :: "sampling_params_args \<Rightarrow> unit result" where
  "verify_greedy_sampling p = (if 1 < p_n p then Inl ValueError else Inr ())"

definition apply_best_of :: "sampling_params_args \<Rightarrow> sampling_params_args result" where
  "apply_best_of p =
     (if nonzero (p_best_of p)
      then if the (p_best_of p) < p_n p then Inl ValueError
           else if \<not> nonzero (p_real_n p)
                then Inr (p\<lparr>p_real_n := Some (p_n p), p_n := the (p_best_of p)\<rparr>)
                else Inr p
      else Inr p)"

definition apply_greedy :: "sampling_params_args \<Rightarrow> sampling_params_args result" where
  "apply_greedy p =
     (if p_temperature p < SAMPLING_EPS
      then let p = p\<lparr>p_top_p := 1, p_top_k := - 1, p_min_p := 0\<rparr>
           in andthen (verify_greedy_sampling p) (\<lambda>_. Inr p)
      else Inr p)"

definition post_init :: "sampling_params_args \<Rightarrow> sampling_params_args result" where
  "post_init p =
     andthen (apply_best_of p) (\<lambda>p.
       let p = normalise p
       in andthen (verify_args p) (\<lambda>_.
          andthen (apply_greedy p) (\<lambda>p.
            Inr (p\<lparr>p_all_stop_token_ids := set (case p_stop_token_ids p of None \<Rightarrow> [] | Some ts \<Rightarrow> ts)\<rparr>))))"

definition sampling_type_of :: "sampling_params_args \<Rightarrow> sampling_type" where
  "sampling_type_of p =
     (if p_temperature p < SAMPLING_EPS then GREEDY
      else if p_seed p \<noteq> None then RANDOM_SEED else RANDOM)"

text \<open>
  \<open>update_from_generation_config\<close>, with the configuration's \<^verbatim>\<open>eos_token_id\<close> as a set when it is given.
  \<^verbatim>\<open>list(eos_ids)\<close> lists a set in an order Python does not specify, the parameter \<open>listed\<close>.
\<close>

definition update_from_generation_config ::
  "(token set \<Rightarrow> token list) \<Rightarrow> token set option \<Rightarrow> token option \<Rightarrow> sampling_params_args \<Rightarrow> sampling_params_args" where
  "update_from_generation_config listed eos model_eos p =
     (let p = (case model_eos of None \<Rightarrow> p
               | Some t \<Rightarrow> p\<lparr>p_all_stop_token_ids := insert t (p_all_stop_token_ids p)\<rparr>)
      in case eos of
           None \<Rightarrow> p
         | Some ids \<Rightarrow>
             let ids = (case model_eos of None \<Rightarrow> ids | Some t \<Rightarrow> ids - {t})
             in if ids = {} then p
                else let p = p\<lparr>p_all_stop_token_ids := p_all_stop_token_ids p \<union> ids\<rparr>
                     in if p_ignore_eos p then p
                        else p\<lparr>p_stop_token_ids :=
                                 Some (listed (ids \<union> set (case p_stop_token_ids p of None \<Rightarrow> [] | Some ts \<Rightarrow> ts)))\<rparr>)"

text \<open>The detokenizer's request, as \<open>Processor.process_inputs\<close> makes it.\<close>

definition detokenizer_request_of ::
  "req_id \<Rightarrow> py_text option \<Rightarrow> token list \<Rightarrow> sampling_params_args \<Rightarrow> detokenizer_request" where
  "detokenizer_request_of rid pr pids p =
     \<lparr>dr_request_id = rid, dr_prompt = pr, dr_prompt_token_ids = pids,
      dr_skip_special_tokens = p_skip_special_tokens p,
      dr_spaces_between_special_tokens = p_spaces_between_special_tokens p,
      dr_output_kind = p_output_kind p, dr_stop = stop_list p,
      dr_include_stop_str_in_output = p_include_stop_str_in_output p\<rparr>"

section \<open>What is accepted\<close>

text \<open>The documented ranges, and what normalisation adds to them.\<close>

definition params_ok :: "sampling_params_args \<Rightarrow> bool" where
  "params_ok p \<longleftrightarrow> 1 \<le> p_n p \<and> \<bar>p_presence_penalty p\<bar> \<le> 2 \<and> \<bar>p_frequency_penalty p\<bar> \<le> 2
     \<and> 0 < p_repetition_penalty p \<and> p_repetition_penalty p \<le> 2
     \<and> (p_temperature p = 0 \<or> MAX_TEMP \<le> p_temperature p)
     \<and> (p_temperature p = 0 \<longrightarrow> p_n p = 1 \<and> p_top_p p = 1 \<and> p_top_k p = - 1 \<and> p_min_p p = 0)
     \<and> 0 < p_top_p p \<and> p_top_p p \<le> 1 \<and> (p_top_k p = - 1 \<or> 1 \<le> p_top_k p)
     \<and> 0 \<le> p_min_p p \<and> p_min_p p \<le> 1
     \<and> (\<forall>m. p_max_tokens p = Some m \<longrightarrow> 1 \<le> m \<and> p_min_tokens p \<le> m) \<and> 0 \<le> p_min_tokens p
     \<and> p_seed p \<noteq> Some (- 1)
     \<and> [] \<notin> set (stop_list p) \<and> (stop_list p \<noteq> [] \<longrightarrow> p_detokenize p)
     \<and> (\<exists>ts. p_stop_token_ids p = Some ts \<and> set ts \<subseteq> p_all_stop_token_ids p)"

lemmas normalise_simps = normalise_def Let_def stop_list_def

lemma normalise_fields [simp]:
  "p_n (normalise p) = p_n p" "p_best_of (normalise p) = p_best_of p" "p_real_n (normalise p) = p_real_n p"
  "p_seed (normalise p) \<noteq> Some (- 1)" "stop_list (normalise p) = stop_list p"
  "\<exists>ts. p_stop_token_ids (normalise p) = Some ts"
  "p_include_stop_str_in_output (normalise p) = p_include_stop_str_in_output p"
  by (simp_all add: normalise_simps)

lemma normalise_temperature:
  "0 \<le> p_temperature (normalise p) \<Longrightarrow> p_temperature (normalise p) = 0 \<or> MAX_TEMP \<le> p_temperature (normalise p)"
  by (auto simp: normalise_simps)

lemma verify_argsD:
  assumes "verify_args p = Inr ()"
  shows "1 \<le> p_n p" "\<bar>p_presence_penalty p\<bar> \<le> 2" "\<bar>p_frequency_penalty p\<bar> \<le> 2"
    "0 < p_repetition_penalty p \<and> p_repetition_penalty p \<le> 2" "0 \<le> p_temperature p"
    "0 < p_top_p p \<and> p_top_p p \<le> 1" "p_top_k p = - 1 \<or> 1 \<le> p_top_k p" "0 \<le> p_min_p p \<and> p_min_p p \<le> 1"
    "\<And>m. p_max_tokens p = Some m \<Longrightarrow> 1 \<le> m \<and> p_min_tokens p \<le> m" "0 \<le> p_min_tokens p"
    "[] \<notin> set (stop_list p)" "stop_list p \<noteq> [] \<Longrightarrow> p_detokenize p"
  using assms unfolding verify_args_def by (simp_all add: abs_le_iff split: if_splits) linarith+

lemma apply_greedy_cases:
  "apply_greedy p = Inr q \<Longrightarrow>
   (p_temperature p < SAMPLING_EPS \<and> p_n p \<le> 1 \<and> q = p\<lparr>p_top_p := 1, p_top_k := - 1, p_min_p := 0\<rparr>)
   \<or> (\<not> p_temperature p < SAMPLING_EPS \<and> q = p)"
  by (auto simp: apply_greedy_def verify_greedy_sampling_def Let_def split: if_splits)

lemma post_init_cases:
  assumes "post_init p = Inr q"
  obtains n q' ts where "verify_args n = Inr ()" "apply_greedy n = Inr q'" "p_stop_token_ids n = Some ts"
    "q = q'\<lparr>p_all_stop_token_ids := set ts\<rparr>" "stop_list n = stop_list p" "p_seed n \<noteq> Some (- 1)"
    "p_temperature n = 0 \<or> MAX_TEMP \<le> p_temperature n"
proof -
  from assms obtain p' q' where a: "apply_best_of p = Inr p'" "verify_args (normalise p') = Inr ()"
    "apply_greedy (normalise p') = Inr q'"
    and q: "q = q'\<lparr>p_all_stop_token_ids := set (case p_stop_token_ids q' of None \<Rightarrow> [] | Some ts \<Rightarrow> ts)\<rparr>"
    unfolding post_init_def Let_def by (elim andthen_InrE) simp
  obtain ts where ts: "p_stop_token_ids (normalise p') = Some ts" using normalise_fields(6) by blast
  then have "p_stop_token_ids q' = Some ts" using apply_greedy_cases [OF a(3)] by auto
  moreover have "stop_list p' = stop_list p"
    using a(1) by (auto simp: apply_best_of_def stop_list_def split: if_splits)
  ultimately show thesis
    using a(2,3) ts q normalise_temperature [of p'] verify_argsD(5) [OF a(2)]
    by (intro that [of "normalise p'" q' ts]) simp_all
qed

lemma post_init_ok:
  assumes "post_init p = Inr q"
  shows "params_ok q \<and> p_all_stop_token_ids q = set (the (p_stop_token_ids q)) \<and> stop_list q = stop_list p"
proof -
  from assms obtain n q' ts where c: "verify_args n = Inr ()" "apply_greedy n = Inr q'" "p_stop_token_ids n = Some ts"
    "q = q'\<lparr>p_all_stop_token_ids := set ts\<rparr>" "stop_list n = stop_list p" "p_seed n \<noteq> Some (- 1)"
    "p_temperature n = 0 \<or> MAX_TEMP \<le> p_temperature n"
    by (rule post_init_cases) blast
  note V = verify_argsD [OF c(1)]
  have sl: "stop_list q' = stop_list n" "stop_list q = stop_list q'"
    using apply_greedy_cases [OF c(2)] by (auto simp: c(4) stop_list_def)
  have pos: "p_temperature n < SAMPLING_EPS \<longleftrightarrow> p_temperature n = 0"
    using c(7) by (auto simp: SAMPLING_EPS_def MAX_TEMP_def)
  have n1: "p_temperature n = 0 \<Longrightarrow> p_n n = 1" using apply_greedy_cases [OF c(2)] pos V(1) by auto
  have "params_ok q"
    using apply_greedy_cases [OF c(2)] unfolding pos
  proof (elim disjE conjE)
    assume g: "p_temperature n = 0" "q' = n\<lparr>p_top_p := 1, p_top_k := - 1, p_min_p := 0\<rparr>"
    show ?thesis unfolding params_ok_def sl unfolding c(4) g(2) using V c(3,6) g(1) n1 by simp
  next
    assume g: "p_temperature n \<noteq> 0" "q' = n"
    show ?thesis unfolding params_ok_def sl unfolding c(4) g(2) using V c(3,6,7) g(1) by simp
  qed
  moreover have "p_stop_token_ids q = Some ts" using apply_greedy_cases [OF c(2)] c(3,4) by auto
  ultimately show ?thesis using c(4,5) sl by simp
qed


lemma post_init_buffer:
  assumes "post_init p = Inr q" and "p_output_text_buffer_length p = 0"
  shows "p_output_text_buffer_length q =
    (if stop_list q \<noteq> [] \<and> \<not> p_include_stop_str_in_output q then int (Max (set (map length (stop_list q)))) - 1 else 0)"
proof -
  from assms(1) obtain p' q' where a: "apply_best_of p = Inr p'" "apply_greedy (normalise p') = Inr q'"
    and q: "q = q'\<lparr>p_all_stop_token_ids := set (case p_stop_token_ids q' of None \<Rightarrow> [] | Some ts \<Rightarrow> ts)\<rparr>"
    unfolding post_init_def Let_def by (elim andthen_InrE) simp
  have "p_output_text_buffer_length p' = 0" using a(1) assms(2) by (auto simp: apply_best_of_def split: if_splits)
  then have "p_output_text_buffer_length (normalise p') =
    (if stop_list p' \<noteq> [] \<and> \<not> p_include_stop_str_in_output p' then int (Max (set (map length (stop_list p')))) - 1 else 0)"
    by (simp add: normalise_simps)
  moreover have "p_output_text_buffer_length q' = p_output_text_buffer_length (normalise p')"
    "stop_list q = stop_list (normalise p')" "p_include_stop_str_in_output q = p_include_stop_str_in_output (normalise p')"
    using apply_greedy_cases [OF a(2)] by (auto simp: q stop_list_def)
  ultimately show ?thesis by (simp add: q)
qed

end
