(* ===== verification/SamplingProps.thy ===== *)
theory SamplingProps
  imports SamplingParams DetokenizerProps
begin

text \<open>
  Accepted sampling parameters are in their ranges and stay so when the generation configuration is
  merged in (C39), and they make a detokenizer request whose stream is sound (C40).
\<close>

lemma stop_list_update [simp]: "stop_list (update_from_generation_config listed eos model_eos p) = stop_list p"
  by (simp add: update_from_generation_config_def stop_list_def Let_def split: option.splits)




definition demo_params :: sampling_params_args where
  "demo_params = \<lparr>p_n = 1, p_best_of = None, p_real_n = None, p_presence_penalty = 0, p_frequency_penalty = 0,
     p_repetition_penalty = 1, p_temperature = 0, p_top_p = 1 / 2, p_top_k = 5, p_min_p = 0, p_seed = Some (- 1),
     p_stop = Some (StopOne [98, 99]), p_stop_token_ids = None, p_ignore_eos = False, p_max_tokens = Some 16,
     p_min_tokens = 0, p_logprobs = None, p_prompt_logprobs = None, p_detokenize = True,
     p_skip_special_tokens = True, p_spaces_between_special_tokens = True, p_include_stop_str_in_output = False,
     p_truncate_prompt_tokens = None, p_output_kind = DELTA, p_output_text_buffer_length = 0,
     p_all_stop_token_ids = {}\<rparr>"

definition demo_accepted :: sampling_params_args where
  "demo_accepted = demo_params\<lparr>p_top_p := 1, p_top_k := - 1, p_seed := None, p_stop := Some (StopMany [[98, 99]]),
     p_stop_token_ids := Some [], p_output_text_buffer_length := 1\<rparr>"

lemma demo_post_init: "post_init demo_params = Inr demo_accepted"
  by (simp add: post_init_def demo_params_def demo_accepted_def apply_best_of_def nonzero_def normalise_def Let_def
    stop_list_def normal_logprobs_def verify_args_def apply_greedy_def verify_greedy_sampling_def
    SAMPLING_EPS_def MAX_TEMP_def)


text \<open>
  C40: From accepted parameters to the stream: the request the processor makes for the detokenizer
  holds back as many characters as the parameters say, and when its output kind is \<open>DELTA\<close> the
  deltas of any run add up to the final text, with no stop string in the text of an unfinished
  request.
\<close>

theorem accepted_request_streams:
  assumes "post_init p = Inr q" and "p_output_text_buffer_length p = 0"
    and d\<^sub>0_def: "d\<^sub>0 = from_new_request tk (detokenizer_request_of rid pr pids q)"
  shows "stop_buffer_length d\<^sub>0 = p_output_text_buffer_length q
    \<and> (p_output_kind q = DELTA \<longrightarrow> (\<exists>outs d. stream calls d\<^sub>0 = Inr (outs, d)
        \<and> streamed outs = (if stream_done outs then output_text d else take (held_text d) (output_text d))
        \<and> (\<not> stream_done outs \<longrightarrow> no_stop (stop_list p) (output_text d))))"
proof -
  have ok: "params_ok q" and sl: "stop_list q = stop_list p" using post_init_ok [OF assms(1)] by simp_all
  have ne: "[] \<notin> set (dr_stop (detokenizer_request_of rid pr pids q))"
    using ok by (simp add: params_ok_def detokenizer_request_of_def)
  note D = from_new_request_open [OF ne, of tk, folded d\<^sub>0_def]
  have "stop_buffer_length d\<^sub>0 = p_output_text_buffer_length q"
    using post_init_buffer [OF assms(1,2)] by (simp add: d\<^sub>0_def from_new_request_def split_def Let_def detokenizer_request_of_def)
  moreover have "\<exists>outs d. stream calls d\<^sub>0 = Inr (outs, d)
        \<and> streamed outs = (if stream_done outs then output_text d else take (held_text d) (output_text d))
        \<and> (\<not> stream_done outs \<longrightarrow> no_stop (stop_list p) (output_text d))" if "p_output_kind q = DELTA"
  proof -
    have "output_kind d\<^sub>0 = DELTA" using D(4) that by (simp add: detokenizer_request_of_def)
    with stream_delta [OF D(1,2), of calls] D(3) obtain outs d where s: "stream calls d\<^sub>0 = Inr (outs, d)"
      "streamed outs = (if stream_done outs then output_text d else take (held_text d) (output_text d))"
      "\<not> stream_done outs \<longrightarrow> no_stop (id_stop d) (output_text d)" by auto
    moreover have "id_stop d = stop_list p" if "\<not> stream_done outs"
      using stream_open [OF D(1) s(1) that] sl
      by (simp add: same_request_def d\<^sub>0_def from_new_request_def split_def Let_def detokenizer_request_of_def)
    ultimately show ?thesis by auto
  qed
  ultimately show ?thesis by blast
qed

theorem accepted_request_streams_witness:
  "post_init demo_params = Inr demo_accepted \<and> p_output_text_buffer_length demo_accepted = 1
   \<and> stop_buffer_length (from_new_request demo_tokenizer (detokenizer_request_of ''r'' None [0] demo_accepted)) = 1"
  using accepted_request_streams [OF demo_post_init _ refl, of demo_tokenizer "''r''" None "[0]" "[]"] demo_post_init
  by (simp add: demo_params_def demo_accepted_def)

end
