(* ===== verification/InputBatch.thy ===== *)
theory InputBatch
  imports SamplingParams
begin

text \<open>
  \<^verbatim>\<open>src/vllm/v1/worker/gpu_input_batch.py\<close>: the persistent batch of the model runner, a struct of
  arrays with one row per request, and the dictionaries and sets kept beside it. Arrays and
  tensors are lists, the rows of two-dimensional ones lists of lists; a dictionary whose length or
  values the code reads is an association list, the others are maps. Integer tensors hold
  unbounded integers (their \<^verbatim>\<open>int32\<close> elements are token ids, counts and block numbers), floating-point
  ones rationals. What \<^verbatim>\<open>torch.empty\<close> and \<^verbatim>\<open>np.empty\<close> leave in a new tensor is the argument \<open>uninit\<close>
  of the constructor. A \<^verbatim>\<open>torch.Generator\<close> is a reference, since the batch and the request's cached
  state share the object.
\<close>

section \<open>Data\<close>

type_synonym gen_ref = nat

record cached_request_state =
  crs_req_id :: req_id
  crs_prompt_token_ids :: "token list"
  crs_prompt :: "string option"
  crs_mm_inputs :: "mm_kwargs option list"
  crs_mm_positions :: "placeholder_range list"
  crs_sampling_params :: sampling_params_args
  crs_generator :: "gen_ref option"
  crs_block_ids :: "nat list"
  crs_num_computed_tokens :: int
  crs_output_token_ids :: "token list"

definition crs_num_tokens :: "cached_request_state \<Rightarrow> int" where
  "crs_num_tokens c = int (length (crs_prompt_token_ids c)) + int (length (crs_output_token_ids c))"

record input_batch =
  ib_max_num_reqs :: nat
  ib_max_model_len :: nat
  ib_max_num_blocks_per_req :: nat
  ib_vocab_size :: token
  ib_req_ids :: "req_id option list"
  ib_req_id_to_index :: "(req_id \<times> nat) list"
  token_ids_cpu :: "token list list"
  num_computed_tokens_cpu :: "int list"
  ib_num_prompt_tokens :: "nat list"
  block_table :: "nat list list"
  block_table_cpu :: "nat list list"
  temperature :: "rat list"
  temperature_cpu :: "rat list"
  greedy_reqs :: "req_id set"
  random_reqs :: "req_id set"
  top_p :: "rat list"
  top_p_cpu :: "rat list"
  top_p_reqs :: "req_id set"
  top_k :: "int list"
  top_k_cpu :: "int list"
  top_k_reqs :: "req_id set"
  frequency_penalties :: "rat list"
  frequency_penalties_cpu :: "rat list"
  frequency_penalties_reqs :: "req_id set"
  presence_penalties :: "rat list"
  presence_penalties_cpu :: "rat list"
  presence_penalties_reqs :: "req_id set"
  repetition_penalties :: "rat list"
  repetition_penalties_cpu :: "rat list"
  repetition_penalties_reqs :: "req_id set"
  ib_min_tokens :: "int list"
  ib_stop_token_ids :: "token set list"
  ib_prompt_token_ids :: "token list list option"
  generators :: "nat \<rightharpoonup> gen_ref"
  num_logprobs :: "(req_id \<times> int) list"
  prompt_logprob_reqs :: "req_id set"

definition init_batch :: "rat \<Rightarrow> int \<Rightarrow> nat \<Rightarrow> nat \<Rightarrow> nat \<Rightarrow> token \<Rightarrow> input_batch" where
  "init_batch uninit uninit_int n m k v =
     \<lparr>ib_max_num_reqs = n, ib_max_model_len = m, ib_max_num_blocks_per_req = k, ib_vocab_size = v,
      ib_req_ids = replicate n None, ib_req_id_to_index = [],
      token_ids_cpu = replicate n (replicate m 0),
      num_computed_tokens_cpu = replicate n uninit_int, ib_num_prompt_tokens = replicate n 0,
      block_table = replicate n (replicate k 0), block_table_cpu = replicate n (replicate k 0),
      temperature = replicate n uninit, temperature_cpu = replicate n uninit,
      greedy_reqs = {}, random_reqs = {},
      top_p = replicate n uninit, top_p_cpu = replicate n uninit, top_p_reqs = {},
      top_k = replicate n uninit_int, top_k_cpu = replicate n uninit_int, top_k_reqs = {},
      frequency_penalties = replicate n uninit, frequency_penalties_cpu = replicate n uninit,
      frequency_penalties_reqs = {},
      presence_penalties = replicate n uninit, presence_penalties_cpu = replicate n uninit,
      presence_penalties_reqs = {},
      repetition_penalties = replicate n uninit, repetition_penalties_cpu = replicate n uninit,
      repetition_penalties_reqs = {},
      ib_min_tokens = replicate n 0, ib_stop_token_ids = replicate n {}, ib_prompt_token_ids = None,
      generators = Map.empty, num_logprobs = [], prompt_logprob_reqs = {}\<rparr>"

section \<open>Properties of the batch\<close>

definition num_reqs :: "input_batch \<Rightarrow> nat" where
  "num_reqs b = length (ib_req_id_to_index b)"

definition all_greedy :: "input_batch \<Rightarrow> bool" where
  "all_greedy b = (random_reqs b = {})"

definition all_random :: "input_batch \<Rightarrow> bool" where
  "all_random b = (greedy_reqs b = {})"

definition no_top_p :: "input_batch \<Rightarrow> bool" where
  "no_top_p b = (top_p_reqs b = {})"

definition no_top_k :: "input_batch \<Rightarrow> bool" where
  "no_top_k b = (top_k_reqs b = {})"

definition no_penalties :: "input_batch \<Rightarrow> bool" where
  "no_penalties b = (presence_penalties_reqs b = {} \<and> frequency_penalties_reqs b = {}
     \<and> repetition_penalties_reqs b = {})"

definition max_num_logprobs :: "input_batch \<Rightarrow> int" where
  "max_num_logprobs b = (if num_logprobs b \<noteq> [] then Max (set (map snd (num_logprobs b))) else 0)"

definition no_logprob :: "input_batch \<Rightarrow> bool" where
  "no_logprob b = (num_logprobs b = [])"

definition no_prompt_logprob :: "input_batch \<Rightarrow> bool" where
  "no_prompt_logprob b = (prompt_logprob_reqs b = {})"

section \<open>Adding and removing requests\<close>

text \<open>
  NumPy's \<^verbatim>\<open>row[start:start + len(xs)] = xs\<close>. The slice is clipped to the row; then the lengths
  differ, which raises, except that a single value is broadcast over the (empty) slice.
\<close>

definition np_set_slice :: "'a list \<Rightarrow> nat \<Rightarrow> 'a list \<Rightarrow> 'a list result" where
  "np_set_slice row start xs =
     (if start + length xs \<le> length row then Inr (take start row @ xs @ drop (start + length xs) row)
      else if length xs = 1 then Inr row
      else Inl ValueError)"

text \<open>The assignments of \<open>add_request\<close> to row \<open>i\<close> and to the sets beside the arrays.\<close>

definition fill_row ::
  "cached_request_state \<Rightarrow> nat \<Rightarrow> token list \<Rightarrow> nat list \<Rightarrow> input_batch \<Rightarrow> input_batch" where
  "fill_row request i row blocks b =
     (let rid = crs_req_id request; p = crs_sampling_params request in
      b\<lparr>ib_req_ids := (ib_req_ids b)[i := Some rid],
        ib_req_id_to_index := dict_set rid i (ib_req_id_to_index b),
        ib_num_prompt_tokens := (ib_num_prompt_tokens b)[i := length (crs_prompt_token_ids request)],
        token_ids_cpu := (token_ids_cpu b)[i := row],
        num_computed_tokens_cpu := (num_computed_tokens_cpu b)[i := crs_num_computed_tokens request],
        block_table_cpu := (block_table_cpu b)[i := blocks],
        temperature_cpu := (temperature_cpu b)[i := p_temperature p],
        greedy_reqs := (if sampling_type_of p = GREEDY then insert rid (greedy_reqs b) else greedy_reqs b),
        random_reqs := (if sampling_type_of p = GREEDY then random_reqs b else insert rid (random_reqs b)),
        top_p_cpu := (top_p_cpu b)[i := p_top_p p],
        top_p_reqs := (if p_top_p p < 1 then insert rid (top_p_reqs b) else top_p_reqs b),
        top_k_cpu := (top_k_cpu b)[i := p_top_k p],
        top_k_reqs := (if 0 < p_top_k p then insert rid (top_k_reqs b) else top_k_reqs b),
        frequency_penalties_cpu := (frequency_penalties_cpu b)[i := p_frequency_penalty p],
        frequency_penalties_reqs := (if p_frequency_penalty p \<noteq> 0
          then insert rid (frequency_penalties_reqs b) else frequency_penalties_reqs b),
        presence_penalties_cpu := (presence_penalties_cpu b)[i := p_presence_penalty p],
        presence_penalties_reqs := (if p_presence_penalty p \<noteq> 0
          then insert rid (presence_penalties_reqs b) else presence_penalties_reqs b),
        repetition_penalties_cpu := (repetition_penalties_cpu b)[i := p_repetition_penalty p],
        repetition_penalties_reqs := (if p_repetition_penalty p \<noteq> 1
          then insert rid (repetition_penalties_reqs b) else repetition_penalties_reqs b),
        ib_min_tokens := (ib_min_tokens b)[i := p_min_tokens p],
        ib_stop_token_ids := (ib_stop_token_ids b)[i := p_all_stop_token_ids p],
        generators := (case crs_generator request of None \<Rightarrow> generators b
                       | Some g \<Rightarrow> (generators b)(i \<mapsto> g)),
        num_logprobs := (case p_logprobs p of None \<Rightarrow> num_logprobs b
          | Some l \<Rightarrow> if 0 < logprobs_value l then dict_set rid (logprobs_value l) (num_logprobs b)
                     else num_logprobs b),
        prompt_logprob_reqs := (case p_prompt_logprobs p of None \<Rightarrow> prompt_logprob_reqs b
          | Some l \<Rightarrow> if logprobs_value l \<noteq> 0 then insert rid (prompt_logprob_reqs b)
                     else prompt_logprob_reqs b)\<rparr>)"

text \<open>The assertion bounds the index by the length of every array, so no assignment is out of range.\<close>

definition batch_add_request :: "cached_request_state \<Rightarrow> nat option \<Rightarrow> input_batch \<Rightarrow> input_batch result" where
  "batch_add_request request req_index b =
     (let i = (case req_index of None \<Rightarrow> num_reqs b | Some i \<Rightarrow> i);
          n = length (crs_prompt_token_ids request)
      in andthen (py_assert (i < ib_max_num_reqs b)) (\<lambda>_.
         andthen (np_set_slice (token_ids_cpu b ! i) 0 (crs_prompt_token_ids request)) (\<lambda>row.
         andthen (np_set_slice row n (crs_output_token_ids request)) (\<lambda>row.
         andthen (np_set_slice (block_table_cpu b ! i) 0 (crs_block_ids request)) (\<lambda>blocks.
           Inr (fill_row request i row blocks b))))))"

definition clear_row :: "req_id \<Rightarrow> nat \<Rightarrow> input_batch \<Rightarrow> input_batch" where
  "clear_row rid i b =
     b\<lparr>ib_req_id_to_index := dict_pop rid (ib_req_id_to_index b),
       ib_req_ids := (ib_req_ids b)[i := None],
       greedy_reqs := greedy_reqs b - {rid}, random_reqs := random_reqs b - {rid},
       top_p_reqs := top_p_reqs b - {rid}, top_k_reqs := top_k_reqs b - {rid},
       frequency_penalties_reqs := frequency_penalties_reqs b - {rid},
       presence_penalties_reqs := presence_penalties_reqs b - {rid},
       repetition_penalties_reqs := repetition_penalties_reqs b - {rid},
       generators := (generators b)(i := None),
       num_logprobs := dict_pop rid (num_logprobs b),
       prompt_logprob_reqs := prompt_logprob_reqs b - {rid}\<rparr>"

definition batch_remove_request :: "req_id \<Rightarrow> input_batch \<Rightarrow> nat option \<times> input_batch" where
  "batch_remove_request rid b =
     (case map_of (ib_req_id_to_index b) rid of
        None \<Rightarrow> (None, b)
      | Some i \<Rightarrow> (Some i, clear_row rid i b))"

definition clear_batch :: "input_batch \<Rightarrow> input_batch" where
  "clear_batch b =
     b\<lparr>ib_req_ids := replicate (ib_max_num_reqs b) None, ib_req_id_to_index := [],
       greedy_reqs := {}, random_reqs := {}, top_p_reqs := {}, top_k_reqs := {},
       frequency_penalties_reqs := {}, presence_penalties_reqs := {}, repetition_penalties_reqs := {},
       generators := Map.empty, num_logprobs := [], prompt_logprob_reqs := {}\<rparr>"

section \<open>Condensing\<close>

text \<open>The inner loop of \<open>condense\<close>: it ends since each step passes another element of the list.\<close>

function skip_empty :: "nat list \<Rightarrow> int \<Rightarrow> int" where
  "skip_empty empties last_index =
     (if last_index \<in> int ` set empties then skip_empty empties (last_index - 1) else last_index)"
  by auto
termination
proof (relation "measure (\<lambda>(empties, l). card {e \<in> set empties. int e \<le> l})")
  fix empties :: "nat list" and l :: int
  assume "l \<in> int ` set empties"
  then have "{e \<in> set empties. int e \<le> l - 1} \<subset> {e \<in> set empties. int e \<le> l}"
    by auto
  then show "((empties, l - 1), (empties, l)) \<in> measure (\<lambda>(empties, l). card {e \<in> set empties. int e \<le> l})"
    by (auto intro: psubset_card_mono)
qed simp

declare skip_empty.simps [simp del]

text \<open>The body of the outer loop: row \<open>l\<close> moves to the empty row \<open>e\<close>.\<close>

definition move_row :: "nat \<Rightarrow> nat \<Rightarrow> req_id \<Rightarrow> input_batch \<Rightarrow> input_batch" where
  "move_row e l rid b =
     b\<lparr>ib_req_ids := (ib_req_ids b)[e := Some rid, l := None],
       ib_req_id_to_index := dict_set rid e (ib_req_id_to_index b),
       token_ids_cpu := (token_ids_cpu b)[e := token_ids_cpu b ! l],
       ib_num_prompt_tokens := (ib_num_prompt_tokens b)[e := ib_num_prompt_tokens b ! l],
       num_computed_tokens_cpu := (num_computed_tokens_cpu b)[e := num_computed_tokens_cpu b ! l],
       block_table_cpu := (block_table_cpu b)[e := block_table_cpu b ! l],
       temperature_cpu := (temperature_cpu b)[e := temperature_cpu b ! l],
       top_p_cpu := (top_p_cpu b)[e := top_p_cpu b ! l],
       top_k_cpu := (top_k_cpu b)[e := top_k_cpu b ! l],
       frequency_penalties_cpu := (frequency_penalties_cpu b)[e := frequency_penalties_cpu b ! l],
       presence_penalties_cpu := (presence_penalties_cpu b)[e := presence_penalties_cpu b ! l],
       repetition_penalties_cpu := (repetition_penalties_cpu b)[e := repetition_penalties_cpu b ! l],
       ib_min_tokens := (ib_min_tokens b)[e := ib_min_tokens b ! l],
       ib_stop_token_ids := (ib_stop_token_ids b)[e := ib_stop_token_ids b ! l],
       generators := (case generators b l of
           None \<Rightarrow> generators b | Some g \<Rightarrow> (generators b)(l := None, e \<mapsto> g))\<rparr>"

text \<open>
  The list shrinks by its last element in every round. After the inner loop and the \<^verbatim>\<open>break\<close> the
  last index is above an empty index, so it is not negative.
\<close>

function condense_loop :: "nat list \<Rightarrow> int \<Rightarrow> input_batch \<Rightarrow> input_batch result" where
  "condense_loop empties last_index b =
     (if empties = [] then Inr b
      else let l = skip_empty empties last_index; e = last empties
           in if l \<le> int e then Inr b
              else if length (ib_req_ids b) \<le> nat l then Inl IndexError
              else (case ib_req_ids b ! nat l of
                      None \<Rightarrow> Inl AssertionError
                    | Some rid \<Rightarrow> condense_loop (butlast empties) (l - 1) (move_row e (nat l) rid b)))"
  by auto
termination by (relation "measure (\<lambda>(empties, _, _). length empties)") auto

declare condense_loop.simps [simp del]

definition condense :: "nat list \<Rightarrow> input_batch \<Rightarrow> input_batch result" where
  "condense empties b =
     (if num_reqs b = 0 then Inr b
      else condense_loop empties (int (num_reqs b) + int (length empties) - 1) b)"

section \<open>Sampling metadata\<close>

record sampling_metadata =
  sm_temperature :: "rat list"
  sm_all_greedy :: bool
  sm_all_random :: bool
  sm_top_p :: "rat list"
  sm_top_k :: "int list"
  sm_no_top_p :: bool
  sm_no_top_k :: bool
  sm_generators :: "nat \<rightharpoonup> gen_ref"
  sm_max_num_logprobs :: int
  sm_no_penalties :: bool
  sm_prompt_token_ids :: "token list list option"
  sm_frequency_penalties :: "rat list"
  sm_presence_penalties :: "rat list"
  sm_repetition_penalties :: "rat list"
  sm_output_token_ids :: "token list list"
  sm_min_tokens :: "int list"
  sm_stop_token_ids :: "token set list"

text \<open>\<^verbatim>\<open>dst[:n].copy_(src[:n])\<close> of two tensors of the same length.\<close>

definition copy_prefix :: "nat \<Rightarrow> 'a list \<Rightarrow> 'a list \<Rightarrow> 'a list" where
  "copy_prefix n src dst = take n src @ drop n dst"

text \<open>
  \<open>_make_prompt_token_ids_tensor\<close>. The maximum of no elements raises; so does the assignment of
  rows that are shorter than the longest prompt.
\<close>

definition make_prompt_token_ids_tensor :: "input_batch \<Rightarrow> token list list result" where
  "make_prompt_token_ids_tensor b =
     (let n = num_reqs b; lens = take n (ib_num_prompt_tokens b); m = Max (set lens)
      in if lens = [] then Inl ValueError
         else if ib_max_model_len b < m then Inl ValueError
         else Inr (map (\<lambda>i. take (ib_num_prompt_tokens b ! i) (take m (token_ids_cpu b ! i))
                           @ replicate (m - ib_num_prompt_tokens b ! i) (ib_vocab_size b)) [0..<n]))"

definition sync_sampling :: "input_batch \<Rightarrow> input_batch result" where
  "sync_sampling b =
     (let n = num_reqs b;
          b = b\<lparr>temperature := copy_prefix n (temperature_cpu b) (temperature b),
                top_p := copy_prefix n (top_p_cpu b) (top_p b),
                top_k := copy_prefix n (top_k_cpu b) (top_k b)\<rparr>
      in if no_penalties b then Inr b
         else let b = b\<lparr>frequency_penalties := copy_prefix n (frequency_penalties_cpu b) (frequency_penalties b),
                        presence_penalties := copy_prefix n (presence_penalties_cpu b) (presence_penalties b),
                        repetition_penalties := copy_prefix n (repetition_penalties_cpu b) (repetition_penalties b)\<rparr>
              in andthen (make_prompt_token_ids_tensor b) (\<lambda>t. Inr (b\<lparr>ib_prompt_token_ids := Some t\<rparr>)))"

fun gather_outputs :: "(req_id \<rightharpoonup> token list) \<Rightarrow> req_id option list \<Rightarrow> token list list result" where
  "gather_outputs outs [] = Inr []"
| "gather_outputs outs (None # rids) = Inl AssertionError"
| "gather_outputs outs (Some rid # rids) =
     (case outs rid of None \<Rightarrow> Inl KeyError
      | Some ts \<Rightarrow> andthen (gather_outputs outs rids) (\<lambda>tss. Inr (ts # tss)))"

definition metadata_of :: "input_batch \<Rightarrow> token list list \<Rightarrow> sampling_metadata" where
  "metadata_of b outs =
     (let n = num_reqs b in
      \<lparr>sm_temperature = take n (temperature b), sm_all_greedy = all_greedy b, sm_all_random = all_random b,
       sm_top_p = take n (top_p b), sm_top_k = take n (top_k b), sm_no_top_p = no_top_p b,
       sm_no_top_k = no_top_k b, sm_generators = generators b, sm_max_num_logprobs = max_num_logprobs b,
       sm_no_penalties = no_penalties b, sm_prompt_token_ids = ib_prompt_token_ids b,
       sm_frequency_penalties = take n (frequency_penalties b),
       sm_presence_penalties = take n (presence_penalties b),
       sm_repetition_penalties = take n (repetition_penalties b), sm_output_token_ids = outs,
       sm_min_tokens = take n (ib_min_tokens b), sm_stop_token_ids = take n (ib_stop_token_ids b)\<rparr>)"

definition make_sampling_metadata ::
  "(req_id \<rightharpoonup> token list) \<Rightarrow> bool \<Rightarrow> input_batch \<Rightarrow> (sampling_metadata \<times> input_batch) result" where
  "make_sampling_metadata outs skip_copy b =
     andthen (if skip_copy then Inr b else sync_sampling b) (\<lambda>b.
     andthen (gather_outputs outs (take (num_reqs b) (ib_req_ids b))) (\<lambda>tss.
       Inr (metadata_of b tss, b)))"

end
