(* ===== verification/BatchInv.thy ===== *)
theory BatchInv
  imports InputBatch
begin

text \<open>
  The persistent batch as a finite map: which row a request has is an implementation detail, so
  \<open>batch_view\<close> forgets it and keeps, per request, the content of its row and of the sets and
  dictionaries beside the arrays. Every operation is characterised on the view: adding a request
  enters it, removing one drops it, condensing changes nothing.
\<close>

section \<open>Shape and view\<close>

definition batch_shape :: "input_batch \<Rightarrow> bool" where
  "batch_shape b \<longleftrightarrow>
     length (ib_req_ids b) = ib_max_num_reqs b \<and> length (token_ids_cpu b) = ib_max_num_reqs b
     \<and> length (num_computed_tokens_cpu b) = ib_max_num_reqs b \<and> length (ib_num_prompt_tokens b) = ib_max_num_reqs b
     \<and> length (block_table b) = ib_max_num_reqs b \<and> length (block_table_cpu b) = ib_max_num_reqs b
     \<and> length (temperature b) = ib_max_num_reqs b \<and> length (temperature_cpu b) = ib_max_num_reqs b
     \<and> length (top_p b) = ib_max_num_reqs b \<and> length (top_p_cpu b) = ib_max_num_reqs b
     \<and> length (top_k b) = ib_max_num_reqs b \<and> length (top_k_cpu b) = ib_max_num_reqs b
     \<and> length (frequency_penalties b) = ib_max_num_reqs b
     \<and> length (frequency_penalties_cpu b) = ib_max_num_reqs b
     \<and> length (presence_penalties b) = ib_max_num_reqs b
     \<and> length (presence_penalties_cpu b) = ib_max_num_reqs b
     \<and> length (repetition_penalties b) = ib_max_num_reqs b
     \<and> length (repetition_penalties_cpu b) = ib_max_num_reqs b
     \<and> length (ib_min_tokens b) = ib_max_num_reqs b \<and> length (ib_stop_token_ids b) = ib_max_num_reqs b
     \<and> (\<forall>i < ib_max_num_reqs b. length (token_ids_cpu b ! i) = ib_max_model_len b)
     \<and> (\<forall>i < ib_max_num_reqs b. length (block_table_cpu b ! i) = ib_max_num_blocks_per_req b)"

definition occupied :: "input_batch \<Rightarrow> nat set" where
  "occupied b = {i. i < length (ib_req_ids b) \<and> ib_req_ids b ! i \<noteq> None}"

definition batch_ids :: "input_batch \<Rightarrow> req_id set" where
  "batch_ids b = fst ` set (ib_req_id_to_index b)"

text \<open>The index and the rows agree, and nothing is kept for a request that is not in the batch.\<close>

definition indexed :: "input_batch \<Rightarrow> bool" where
  "indexed b \<longleftrightarrow> distinct (map fst (ib_req_id_to_index b))
     \<and> (\<forall>rid i. map_of (ib_req_id_to_index b) rid = Some i
          \<longleftrightarrow> i < length (ib_req_ids b) \<and> ib_req_ids b ! i = Some rid)"

definition no_leftovers :: "input_batch \<Rightarrow> bool" where
  "no_leftovers b \<longleftrightarrow>
     greedy_reqs b \<union> random_reqs b \<union> top_p_reqs b \<union> top_k_reqs b \<union> frequency_penalties_reqs b
       \<union> presence_penalties_reqs b \<union> repetition_penalties_reqs b \<union> fst ` set (num_logprobs b)
       \<union> prompt_logprob_reqs b \<subseteq> batch_ids b
     \<and> dom (generators b) \<subseteq> occupied b \<and> distinct (map fst (num_logprobs b))"

definition batch_ok :: "input_batch \<Rightarrow> bool" where
  "batch_ok b \<longleftrightarrow> batch_shape b \<and> indexed b \<and> no_leftovers b"

record batch_entry =
  e_tokens :: "token list"
  e_num_prompt :: nat
  e_num_computed :: int
  e_blocks :: "nat list"
  e_temperature :: rat
  e_top_p :: rat
  e_top_k :: int
  e_frequency :: rat
  e_presence :: rat
  e_repetition :: rat
  e_min_tokens :: int
  e_stop :: "token set"
  e_generator :: "gen_ref option"
  e_greedy :: bool
  e_random :: bool
  e_uses_top_p :: bool
  e_uses_top_k :: bool
  e_uses_frequency :: bool
  e_uses_presence :: bool
  e_uses_repetition :: bool
  e_logprobs :: "int option"
  e_prompt_logprobs :: bool

definition entry_at :: "input_batch \<Rightarrow> req_id \<Rightarrow> nat \<Rightarrow> batch_entry" where
  "entry_at b rid i =
     \<lparr>e_tokens = token_ids_cpu b ! i, e_num_prompt = ib_num_prompt_tokens b ! i,
      e_num_computed = num_computed_tokens_cpu b ! i, e_blocks = block_table_cpu b ! i,
      e_temperature = temperature_cpu b ! i, e_top_p = top_p_cpu b ! i, e_top_k = top_k_cpu b ! i,
      e_frequency = frequency_penalties_cpu b ! i, e_presence = presence_penalties_cpu b ! i,
      e_repetition = repetition_penalties_cpu b ! i, e_min_tokens = ib_min_tokens b ! i,
      e_stop = ib_stop_token_ids b ! i, e_generator = generators b i,
      e_greedy = (rid \<in> greedy_reqs b), e_random = (rid \<in> random_reqs b),
      e_uses_top_p = (rid \<in> top_p_reqs b), e_uses_top_k = (rid \<in> top_k_reqs b),
      e_uses_frequency = (rid \<in> frequency_penalties_reqs b),
      e_uses_presence = (rid \<in> presence_penalties_reqs b),
      e_uses_repetition = (rid \<in> repetition_penalties_reqs b),
      e_logprobs = map_of (num_logprobs b) rid, e_prompt_logprobs = (rid \<in> prompt_logprob_reqs b)\<rparr>"

definition batch_view :: "input_batch \<Rightarrow> req_id \<rightharpoonup> batch_entry" where
  "batch_view b rid = map_option (entry_at b rid) (map_of (ib_req_id_to_index b) rid)"

text \<open>An entry that holds the data of a cached request state.\<close>

definition holds :: "batch_entry \<Rightarrow> cached_request_state \<Rightarrow> bool" where
  "holds v c \<longleftrightarrow>
     (let p = crs_sampling_params c; ts = crs_prompt_token_ids c @ crs_output_token_ids c in
      take (length ts) (e_tokens v) = ts
      \<and> e_num_prompt v = length (crs_prompt_token_ids c)
      \<and> e_num_computed v = crs_num_computed_tokens c
      \<and> take (length (crs_block_ids c)) (e_blocks v) = crs_block_ids c
      \<and> e_temperature v = p_temperature p \<and> e_top_p v = p_top_p p \<and> e_top_k v = p_top_k p
      \<and> e_frequency v = p_frequency_penalty p \<and> e_presence v = p_presence_penalty p
      \<and> e_repetition v = p_repetition_penalty p \<and> e_min_tokens v = p_min_tokens p
      \<and> e_stop v = p_all_stop_token_ids p \<and> e_generator v = crs_generator c
      \<and> e_greedy v = (sampling_type_of p = GREEDY) \<and> e_random v = (sampling_type_of p \<noteq> GREEDY)
      \<and> e_uses_top_p v = (p_top_p p < 1) \<and> e_uses_top_k v = (0 < p_top_k p)
      \<and> e_uses_frequency v = (p_frequency_penalty p \<noteq> 0) \<and> e_uses_presence v = (p_presence_penalty p \<noteq> 0)
      \<and> e_uses_repetition v = (p_repetition_penalty p \<noteq> 1)
      \<and> e_logprobs v = (case p_logprobs p of None \<Rightarrow> None
          | Some l \<Rightarrow> if 0 < logprobs_value l then Some (logprobs_value l) else None)
      \<and> e_prompt_logprobs v = (case p_prompt_logprobs p of None \<Rightarrow> False | Some l \<Rightarrow> logprobs_value l \<noteq> 0))"

section \<open>Counting rows\<close>

lemma dom_batch_view [simp]: "dom (batch_view b) = batch_ids b"
proof -
  have "dom (batch_view b) = dom (map_of (ib_req_id_to_index b))"
    by (auto simp: batch_view_def)
  then show ?thesis by (simp add: batch_ids_def dom_map_of_conv_image_fst)
qed

lemma indexedD:
  assumes "indexed b"
  shows "distinct (map fst (ib_req_id_to_index b))"
    and "map_of (ib_req_id_to_index b) rid = Some i \<longleftrightarrow> i < length (ib_req_ids b) \<and> ib_req_ids b ! i = Some rid"
  using assms by (simp_all add: indexed_def)

lemma occupied_eq:
  assumes "indexed b"
  shows "occupied b = snd ` set (ib_req_id_to_index b)"
proof -
  have "i \<in> occupied b \<longleftrightarrow> (\<exists>rid. (rid, i) \<in> set (ib_req_id_to_index b))" for i
    unfolding map_of_eq_Some_iff [OF indexedD(1) [OF assms], symmetric] indexedD(2) [OF assms]
    by (auto simp: occupied_def)
  then show ?thesis by force
qed

lemma inj_on_index:
  assumes "indexed b"
  shows "inj_on snd (set (ib_req_id_to_index b))"
proof (rule inj_onI)
  fix x y
  assume "x \<in> set (ib_req_id_to_index b)" "y \<in> set (ib_req_id_to_index b)" "snd x = snd y"
  moreover from this have "map_of (ib_req_id_to_index b) (fst x) = Some (snd x)"
    "map_of (ib_req_id_to_index b) (fst y) = Some (snd y)"
    using indexedD(1) [OF assms] by (metis map_of_is_SomeI prod.collapse)+
  ultimately show "x = y" using indexedD(2) [OF assms] by (metis option.inject prod.expand)
qed

lemma card_occupied:
  assumes "indexed b"
  shows "card (occupied b) = num_reqs b"
proof -
  have "distinct (ib_req_id_to_index b)"
    using indexedD(1) [OF assms] by (simp add: distinct_map)
  then show ?thesis
    using inj_on_index [OF assms] by (simp add: occupied_eq [OF assms] card_image distinct_card num_reqs_def)
qed

lemma card_batch_ids: "indexed b \<Longrightarrow> card (batch_ids b) = num_reqs b"
  by (metis batch_ids_def distinct_card indexedD(1) length_map list.set_map num_reqs_def)

lemma finite_occupied [simp]: "finite (occupied b)"
  by (simp add: occupied_def)

lemma occupied_bound: "i \<in> occupied b \<Longrightarrow> i < length (ib_req_ids b)"
  by (simp add: occupied_def)


lemma batch_okD:
  assumes "batch_ok b"
  shows "batch_shape b" "indexed b" "no_leftovers b"
  using assms by (simp_all add: batch_ok_def)

lemma shape_length: "batch_shape b \<Longrightarrow> length (ib_req_ids b) = ib_max_num_reqs b"
  by (simp add: batch_shape_def)

lemma shape_lengths:
  assumes "batch_shape b"
  shows "length (ib_req_ids b) = ib_max_num_reqs b"
    "length (token_ids_cpu b) = ib_max_num_reqs b"
    "length (ib_num_prompt_tokens b) = ib_max_num_reqs b"
    "length (num_computed_tokens_cpu b) = ib_max_num_reqs b"
    "length (block_table_cpu b) = ib_max_num_reqs b"
    "length (temperature_cpu b) = ib_max_num_reqs b"
    "length (top_p_cpu b) = ib_max_num_reqs b"
    "length (top_k_cpu b) = ib_max_num_reqs b"
    "length (frequency_penalties_cpu b) = ib_max_num_reqs b"
    "length (presence_penalties_cpu b) = ib_max_num_reqs b"
    "length (repetition_penalties_cpu b) = ib_max_num_reqs b"
    "length (ib_min_tokens b) = ib_max_num_reqs b"
    "length (ib_stop_token_ids b) = ib_max_num_reqs b"
    "i < ib_max_num_reqs b \<Longrightarrow> length (token_ids_cpu b ! i) = ib_max_model_len b"
    "i < ib_max_num_reqs b \<Longrightarrow> length (block_table_cpu b ! i) = ib_max_num_blocks_per_req b"
  using assms unfolding batch_shape_def by simp_all

section \<open>Moving a row\<close>

lemma dict_set_ids: "fst ` set (dict_set k v d) = insert k (fst ` set d)"
  using dict_set_keys [of k v d] by simp

lemma dict_set_same_length: "k \<in> fst ` set d \<Longrightarrow> length (dict_set k v d) = length d"
  by (induction k v d rule: dict_set.induct) auto

lemma move_row_fields [simp]:
  "ib_req_ids (move_row e l rid b) = (ib_req_ids b)[e := Some rid, l := None]"
  "ib_req_id_to_index (move_row e l rid b) = dict_set rid e (ib_req_id_to_index b)"
  "ib_max_num_reqs (move_row e l rid b) = ib_max_num_reqs b"
  "ib_max_model_len (move_row e l rid b) = ib_max_model_len b"
  "ib_max_num_blocks_per_req (move_row e l rid b) = ib_max_num_blocks_per_req b"
  "greedy_reqs (move_row e l rid b) = greedy_reqs b" "random_reqs (move_row e l rid b) = random_reqs b"
  "top_p_reqs (move_row e l rid b) = top_p_reqs b" "top_k_reqs (move_row e l rid b) = top_k_reqs b"
  "frequency_penalties_reqs (move_row e l rid b) = frequency_penalties_reqs b"
  "presence_penalties_reqs (move_row e l rid b) = presence_penalties_reqs b"
  "repetition_penalties_reqs (move_row e l rid b) = repetition_penalties_reqs b"
  "num_logprobs (move_row e l rid b) = num_logprobs b"
  "prompt_logprob_reqs (move_row e l rid b) = prompt_logprob_reqs b"
  "token_ids_cpu (move_row e l rid b) = (token_ids_cpu b)[e := token_ids_cpu b ! l]"
  "ib_num_prompt_tokens (move_row e l rid b) = (ib_num_prompt_tokens b)[e := ib_num_prompt_tokens b ! l]"
  "num_computed_tokens_cpu (move_row e l rid b) = (num_computed_tokens_cpu b)[e := num_computed_tokens_cpu b ! l]"
  "block_table_cpu (move_row e l rid b) = (block_table_cpu b)[e := block_table_cpu b ! l]"
  "temperature_cpu (move_row e l rid b) = (temperature_cpu b)[e := temperature_cpu b ! l]"
  "top_p_cpu (move_row e l rid b) = (top_p_cpu b)[e := top_p_cpu b ! l]"
  "top_k_cpu (move_row e l rid b) = (top_k_cpu b)[e := top_k_cpu b ! l]"
  "frequency_penalties_cpu (move_row e l rid b) = (frequency_penalties_cpu b)[e := frequency_penalties_cpu b ! l]"
  "presence_penalties_cpu (move_row e l rid b) = (presence_penalties_cpu b)[e := presence_penalties_cpu b ! l]"
  "repetition_penalties_cpu (move_row e l rid b) = (repetition_penalties_cpu b)[e := repetition_penalties_cpu b ! l]"
  "ib_min_tokens (move_row e l rid b) = (ib_min_tokens b)[e := ib_min_tokens b ! l]"
  "ib_stop_token_ids (move_row e l rid b) = (ib_stop_token_ids b)[e := ib_stop_token_ids b ! l]"
  "block_table (move_row e l rid b) = block_table b"
  "temperature (move_row e l rid b) = temperature b"
  "top_p (move_row e l rid b) = top_p b"
  "top_k (move_row e l rid b) = top_k b"
  "frequency_penalties (move_row e l rid b) = frequency_penalties b"
  "presence_penalties (move_row e l rid b) = presence_penalties b"
  "repetition_penalties (move_row e l rid b) = repetition_penalties b"
  "ib_vocab_size (move_row e l rid b) = ib_vocab_size b"
  "ib_prompt_token_ids (move_row e l rid b) = ib_prompt_token_ids b"
  by (simp_all add: move_row_def)

lemma move_row_generators:
  "generators (move_row e l rid b) = (case generators b l of
     None \<Rightarrow> generators b | Some g \<Rightarrow> (generators b)(l := None, e \<mapsto> g))"
  by (simp add: move_row_def)

lemma dom_generators_move_row:
  "dom (generators (move_row e l rid b)) \<subseteq> insert e (dom (generators b) - {l}) \<union> (dom (generators b) - {l})"
  by (auto simp: move_row_generators split: option.splits if_splits)

lemma index_of_row:
  "indexed b \<Longrightarrow> l < length (ib_req_ids b) \<Longrightarrow> ib_req_ids b ! l = Some rid \<Longrightarrow>
   map_of (ib_req_id_to_index b) rid = Some l"
  by (simp add: indexedD(2))

lemma rid_of_row:
  "indexed b \<Longrightarrow> l < length (ib_req_ids b) \<Longrightarrow> ib_req_ids b ! l = Some rid \<Longrightarrow> rid \<in> batch_ids b"
  using index_of_row [of b l rid] by (metis dom_batch_view batch_view_def domI option.simps(9))

lemma batch_shape_move_row:
  "batch_shape b \<Longrightarrow> e < ib_max_num_reqs b \<Longrightarrow> l < ib_max_num_reqs b \<Longrightarrow> batch_shape (move_row e l rid b)"
  unfolding batch_shape_def move_row_fields length_list_update
  by (elim conjE, intro conjI allI impI) (simp_all add: nth_list_update)

lemma move_row_ids:
  assumes "indexed b" "l < length (ib_req_ids b)" "ib_req_ids b ! l = Some rid"
  shows "batch_ids (move_row e l rid b) = batch_ids b" "num_reqs (move_row e l rid b) = num_reqs b"
proof -
  have "rid \<in> batch_ids b" using assms by (rule rid_of_row)
  then show "batch_ids (move_row e l rid b) = batch_ids b" "num_reqs (move_row e l rid b) = num_reqs b"
    by (simp_all add: batch_ids_def num_reqs_def dict_set_ids dict_set_same_length insert_absorb)
qed

lemma move_row_occupied:
  assumes "e < l" "l < length (ib_req_ids b)"
  shows "occupied (move_row e l rid b) = insert e (occupied b - {l})"
  using assms by (auto simp: occupied_def nth_list_update)

lemma indexed_move_row:
  assumes "indexed b" "e < l" "e \<notin> occupied b" "l < length (ib_req_ids b)" "ib_req_ids b ! l = Some rid"
  shows "indexed (move_row e l rid b)"
  unfolding indexed_def
proof (intro conjI allI)
  show "distinct (map fst (ib_req_id_to_index (move_row e l rid b)))"
    using indexedD(1) [OF assms(1)] by (simp add: distinct_dict_set)
  fix r i
  show "map_of (ib_req_id_to_index (move_row e l rid b)) r = Some i
      \<longleftrightarrow> i < length (ib_req_ids (move_row e l rid b)) \<and> ib_req_ids (move_row e l rid b) ! i = Some r"
    using assms(2-) indexedD(2) [OF assms(1), of r i] indexedD(2) [OF assms(1), of r l]
    by (auto simp: nth_list_update occupied_def)
qed

lemma no_leftovers_move_row:
  assumes "no_leftovers b" "indexed b" "e < l" "l < length (ib_req_ids b)" "ib_req_ids b ! l = Some rid"
  shows "no_leftovers (move_row e l rid b)"
proof -
  have "dom (generators b) \<subseteq> occupied b" using assms(1) by (simp add: no_leftovers_def)
  then have "dom (generators (move_row e l rid b)) \<subseteq> insert e (occupied b - {l})"
    using dom_generators_move_row [of e l rid b] by blast
  then show ?thesis
    using assms(1) unfolding no_leftovers_def move_row_ids [OF assms(2,4,5)] move_row_occupied [OF assms(3,4)]
    by simp
qed

lemma batch_ok_move_row:
  assumes "batch_ok b" "e < l" "e \<notin> occupied b" "l < length (ib_req_ids b)" "ib_req_ids b ! l = Some rid"
  shows "batch_ok (move_row e l rid b)"
  using assms batch_okD [OF assms(1)] unfolding batch_ok_def
  by (simp add: batch_shape_move_row indexed_move_row no_leftovers_move_row shape_length)

lemma batch_view_move_row:
  assumes "batch_ok b" "e < l" "e \<notin> occupied b" "l < length (ib_req_ids b)" "ib_req_ids b ! l = Some rid"
  shows "batch_view (move_row e l rid b) = batch_view b"
proof
  fix r
  note ix = batch_okD(2) [OF assms(1)] and sh = batch_okD(1) [OF assms(1)]
  have g: "generators b e = None"
    using assms(3) batch_okD(3) [OF assms(1)] by (auto simp: no_leftovers_def)
  show "batch_view (move_row e l rid b) r = batch_view b r"
  proof (cases "r = rid")
    case True
    have "map_of (ib_req_id_to_index b) rid = Some l"
      using indexedD(2) [OF ix] assms by simp
    moreover have "e < ib_max_num_reqs b"
      using assms(2,4) shape_length [OF sh] by simp
    then have "entry_at (move_row e l rid b) rid e = entry_at b rid l"
      using assms(2) g by (simp add: entry_at_def move_row_generators shape_lengths [OF sh] split: option.split)
    ultimately show ?thesis
      using True by (simp add: batch_view_def)
  next
    case False
    have "entry_at (move_row e l rid b) r i = entry_at b r i" if "i \<noteq> e" "i \<noteq> l" for i
      using that by (simp add: entry_at_def move_row_generators split: option.split)
    moreover have "i \<noteq> e" "i \<noteq> l" if "map_of (ib_req_id_to_index b) r = Some i" for i
      using that indexedD(2) [OF ix, of r i] False assms by (auto simp: occupied_def)
    ultimately show ?thesis
      using False by (cases "map_of (ib_req_id_to_index b) r") (simp_all add: batch_view_def)
  qed
qed


section \<open>Condensing\<close>

lemma skip_empty_spec:
  "skip_empty es k \<le> k \<and> skip_empty es k \<notin> int ` set es
   \<and> {i. int i \<le> skip_empty es k} - set es = {i. int i \<le> k} - set es"
proof (induction es k rule: skip_empty.induct)
  case (1 es k)
  show ?case
  proof (cases "k \<in> int ` set es")
    case True
    then have "{i. int i \<le> k} - set es = {i. int i \<le> k - 1} - set es"
      by (auto simp: order_less_le)
    with 1 True show ?thesis by (subst (1 2 3) skip_empty.simps) auto
  qed (subst (1 2 3) skip_empty.simps, simp)
qed

definition same_limits :: "input_batch \<Rightarrow> input_batch \<Rightarrow> bool" where
  "same_limits b b' \<longleftrightarrow> ib_max_num_reqs b' = ib_max_num_reqs b \<and> ib_max_model_len b' = ib_max_model_len b
     \<and> ib_max_num_blocks_per_req b' = ib_max_num_blocks_per_req b \<and> ib_vocab_size b' = ib_vocab_size b"

lemma same_limits_refl [simp]: "same_limits b b"
  by (simp add: same_limits_def)

lemma same_limits_trans: "same_limits b c \<Longrightarrow> same_limits c d \<Longrightarrow> same_limits b d"
  by (simp add: same_limits_def)

lemma last_min: "sorted_wrt (>) es \<Longrightarrow> es \<noteq> [] \<Longrightarrow> x \<in> set es \<Longrightarrow> last es \<le> (x :: nat)"
  by (induction es) (auto intro: less_imp_le)

lemma last_notin_butlast: "sorted_wrt (>) es \<Longrightarrow> es \<noteq> [] \<Longrightarrow> last es \<notin> set (butlast es :: nat list)"
  by (induction es) auto

lemma sorted_butlast: "sorted_wrt R es \<Longrightarrow> sorted_wrt R (butlast es)"
  by (induction es) (auto dest: in_set_butlastD)

lemma set_butlast: "es \<noteq> [] \<Longrightarrow> last es \<notin> set (butlast es) \<Longrightarrow> set (butlast es) = set es - {last es}"
  by (metis Diff_insert_absorb append_butlast_last_id insert_is_Un list.set(1) list.simps(15) set_append sup_commute)

lemma condense_loop_compacts:
  assumes "batch_ok b" "sorted_wrt (>) es" "occupied b = {i. int i \<le> k} - set es"
  shows "\<exists>b'. condense_loop es k b = Inr b' \<and> batch_ok b' \<and> batch_view b' = batch_view b
    \<and> same_limits b b' \<and> (\<exists>n. occupied b' = {..<n})"
  using assms
proof (induction es k b rule: condense_loop.induct)
  case (1 es k b)
  define l where "l = skip_empty es k"
  have l: "l \<notin> int ` set es" "occupied b = {i. int i \<le> l} - set es"
    using skip_empty_spec [of es k] "1.prems"(3) by (simp_all add: l_def)
  have initial: "{i. int i \<le> j} = {..<nat (j + 1)}" for j by auto
  show ?case
  proof (cases "es = []")
    case True
    then show ?thesis
      using "1.prems" initial [of k] by (subst condense_loop.simps) auto
  next
    case nonempty: False
    note min = last_min [OF "1.prems"(2) nonempty] and notin = last_notin_butlast [OF "1.prems"(2) nonempty]
    show ?thesis
    proof (cases "l \<le> int (last es)")
      case True
      then have "l < int (last es)"
        using l(1) nonempty by (metis image_eqI last_in_set order_le_less)
      then have "occupied b = {i. int i \<le> l}"
        unfolding l(2) using min by fastforce
      then show ?thesis
        using True nonempty "1.prems"(1) initial [of l] by (subst condense_loop.simps) (auto simp: l_def)
    next
      case False
      define m where "m = nat l"
      have m: "l = int m" "last es < m" using False by (auto simp: m_def)
      then have "m \<in> occupied b" using l by auto
      then obtain rid where rid: "m < length (ib_req_ids b)" "ib_req_ids b ! m = Some rid"
        by (auto simp: occupied_def)
      have free: "last es \<notin> occupied b" using l(2) nonempty by simp
      let ?b = "move_row (last es) m rid b"
      have occ: "occupied ?b = {i. int i \<le> l - 1} - set (butlast es)"
        using m l(1) nonempty unfolding move_row_occupied [OF m(2) rid(1)] l(2) set_butlast [OF nonempty notin]
        by (auto simp: order_less_le)
      have step: "condense_loop es k b = condense_loop (butlast es) (l - 1) ?b"
        using nonempty False rid m by (subst condense_loop.simps) (simp add: Let_def l_def [symmetric])
      have "\<exists>b'. condense_loop (butlast es) (l - 1) ?b = Inr b' \<and> batch_ok b' \<and> batch_view b' = batch_view ?b
        \<and> same_limits ?b b' \<and> (\<exists>n. occupied b' = {..<n})"
        using "1.IH" [OF nonempty l_def refl False, of rid] rid m
          batch_ok_move_row [OF "1.prems"(1) m(2) free rid] sorted_butlast [OF "1.prems"(2)] occ
        by (simp add: m_def [symmetric])
      then show ?thesis
        unfolding step batch_view_move_row [OF "1.prems"(1) m(2) free rid]
        by (simp add: same_limits_def)
    qed
  qed
qed

lemma num_reqs_occupied: "indexed b \<Longrightarrow> occupied b = {..<n} \<Longrightarrow> n = num_reqs b"
  using card_occupied [of b] by simp

lemma condense_compacts:
  assumes "batch_ok b" "sorted_wrt (>) es" "occupied b = {..<num_reqs b + length es} - set es"
  obtains b' where "condense es b = Inr b'" "batch_ok b'" "batch_view b' = batch_view b" "same_limits b b'"
    "occupied b' = {..<num_reqs b'}" "num_reqs b' = num_reqs b"
proof (cases "num_reqs b = 0")
  case True
  then have "occupied b = {..<num_reqs b}"
    using card_occupied [OF batch_okD(2) [OF assms(1)]] by simp
  with True assms(1) show ?thesis by (intro that [of b]) (simp_all add: condense_def)
next
  case False
  define k where "k = int (num_reqs b) + int (length es) - 1"
  have "{..<num_reqs b + length es} = {i. int i \<le> k}" by (auto simp: k_def)
  with assms(3) have "occupied b = {i. int i \<le> k} - set es" by simp
  with condense_loop_compacts [OF assms(1,2)] obtain b' n where
    "condense_loop es k b = Inr b'" and b': "batch_ok b'" "batch_view b' = batch_view b"
      "same_limits b b'" "occupied b' = {..<n}"
    by blast
  moreover from this False have "condense es b = Inr b'" by (simp add: condense_def k_def)
  moreover have "num_reqs b' = num_reqs b"
    using b' assms(1) by (metis batch_okD(2) card_batch_ids dom_batch_view)
  ultimately show ?thesis using that num_reqs_occupied [OF batch_okD(2)] by metis
qed

end
