(* ===== verification/BatchOps.thy ===== *)
theory BatchOps
  imports BatchInv
begin

text \<open>
  Adding and removing requests on the view of the batch: a request is entered with exactly the data
  of its cached state, and removed without a trace.
\<close>

section \<open>Slices\<close>

lemma np_set_slice_fits:
  "start + length xs \<le> length row \<Longrightarrow>
   np_set_slice row start xs = Inr (take start row @ xs @ drop (start + length xs) row)"
  by (simp add: np_set_slice_def)

lemma np_set_slice_length: "np_set_slice row start xs = Inr row' \<Longrightarrow> length row' = length row"
  by (auto simp: np_set_slice_def split: if_splits)

section \<open>Filling a row\<close>

lemma fill_row_fields [simp]:
  "ib_req_ids (fill_row c i row blocks b) = (ib_req_ids b)[i := Some (crs_req_id c)]"
  "ib_req_id_to_index (fill_row c i row blocks b) = dict_set (crs_req_id c) i (ib_req_id_to_index b)"
  "ib_max_num_reqs (fill_row c i row blocks b) = ib_max_num_reqs b"
  "ib_max_model_len (fill_row c i row blocks b) = ib_max_model_len b"
  "ib_max_num_blocks_per_req (fill_row c i row blocks b) = ib_max_num_blocks_per_req b"
  "ib_vocab_size (fill_row c i row blocks b) = ib_vocab_size b"
  "token_ids_cpu (fill_row c i row blocks b) = (token_ids_cpu b)[i := row]"
  "ib_num_prompt_tokens (fill_row c i row blocks b) =
     (ib_num_prompt_tokens b)[i := length (crs_prompt_token_ids c)]"
  "num_computed_tokens_cpu (fill_row c i row blocks b) =
     (num_computed_tokens_cpu b)[i := crs_num_computed_tokens c]"
  "block_table_cpu (fill_row c i row blocks b) = (block_table_cpu b)[i := blocks]"
  "temperature_cpu (fill_row c i row blocks b) =
     (temperature_cpu b)[i := p_temperature (crs_sampling_params c)]"
  "top_p_cpu (fill_row c i row blocks b) = (top_p_cpu b)[i := p_top_p (crs_sampling_params c)]"
  "top_k_cpu (fill_row c i row blocks b) = (top_k_cpu b)[i := p_top_k (crs_sampling_params c)]"
  "frequency_penalties_cpu (fill_row c i row blocks b) =
     (frequency_penalties_cpu b)[i := p_frequency_penalty (crs_sampling_params c)]"
  "presence_penalties_cpu (fill_row c i row blocks b) =
     (presence_penalties_cpu b)[i := p_presence_penalty (crs_sampling_params c)]"
  "repetition_penalties_cpu (fill_row c i row blocks b) =
     (repetition_penalties_cpu b)[i := p_repetition_penalty (crs_sampling_params c)]"
  "ib_min_tokens (fill_row c i row blocks b) = (ib_min_tokens b)[i := p_min_tokens (crs_sampling_params c)]"
  "ib_stop_token_ids (fill_row c i row blocks b) =
     (ib_stop_token_ids b)[i := p_all_stop_token_ids (crs_sampling_params c)]"
  "block_table (fill_row c i row blocks b) = block_table b"
  "temperature (fill_row c i row blocks b) = temperature b" "top_p (fill_row c i row blocks b) = top_p b"
  "top_k (fill_row c i row blocks b) = top_k b"
  "frequency_penalties (fill_row c i row blocks b) = frequency_penalties b"
  "presence_penalties (fill_row c i row blocks b) = presence_penalties b"
  "repetition_penalties (fill_row c i row blocks b) = repetition_penalties b"
  by (simp_all add: fill_row_def Let_def)

lemma fill_row_sets:
  "r \<in> greedy_reqs (fill_row c i row blocks b)
     \<longleftrightarrow> r \<in> greedy_reqs b \<or> r = crs_req_id c \<and> sampling_type_of (crs_sampling_params c) = GREEDY"
  "r \<in> random_reqs (fill_row c i row blocks b)
     \<longleftrightarrow> r \<in> random_reqs b \<or> r = crs_req_id c \<and> sampling_type_of (crs_sampling_params c) \<noteq> GREEDY"
  "r \<in> top_p_reqs (fill_row c i row blocks b)
     \<longleftrightarrow> r \<in> top_p_reqs b \<or> r = crs_req_id c \<and> p_top_p (crs_sampling_params c) < 1"
  "r \<in> top_k_reqs (fill_row c i row blocks b)
     \<longleftrightarrow> r \<in> top_k_reqs b \<or> r = crs_req_id c \<and> 0 < p_top_k (crs_sampling_params c)"
  "r \<in> frequency_penalties_reqs (fill_row c i row blocks b)
     \<longleftrightarrow> r \<in> frequency_penalties_reqs b \<or> r = crs_req_id c \<and> p_frequency_penalty (crs_sampling_params c) \<noteq> 0"
  "r \<in> presence_penalties_reqs (fill_row c i row blocks b)
     \<longleftrightarrow> r \<in> presence_penalties_reqs b \<or> r = crs_req_id c \<and> p_presence_penalty (crs_sampling_params c) \<noteq> 0"
  "r \<in> repetition_penalties_reqs (fill_row c i row blocks b)
     \<longleftrightarrow> r \<in> repetition_penalties_reqs b \<or> r = crs_req_id c \<and> p_repetition_penalty (crs_sampling_params c) \<noteq> 1"
  "r \<in> prompt_logprob_reqs (fill_row c i row blocks b)
     \<longleftrightarrow> r \<in> prompt_logprob_reqs b \<or> r = crs_req_id c \<and>
         (case p_prompt_logprobs (crs_sampling_params c) of None \<Rightarrow> False | Some l \<Rightarrow> logprobs_value l \<noteq> 0)"
  by (auto simp: fill_row_def Let_def split: option.splits)

lemma fill_row_num_logprobs:
  "num_logprobs (fill_row c i row blocks b) = (case p_logprobs (crs_sampling_params c) of None \<Rightarrow> num_logprobs b
     | Some l \<Rightarrow> if 0 < logprobs_value l then dict_set (crs_req_id c) (logprobs_value l) (num_logprobs b)
                else num_logprobs b)"
  by (simp add: fill_row_def Let_def)

lemma fill_row_generators:
  "generators (fill_row c i row blocks b) = (case crs_generator c of None \<Rightarrow> generators b
     | Some g \<Rightarrow> (generators b)(i \<mapsto> g))"
  by (simp add: fill_row_def Let_def)

lemma batch_shape_fill_row:
  assumes "batch_shape b" "i < ib_max_num_reqs b" "length row = ib_max_model_len b"
    "length blocks = ib_max_num_blocks_per_req b"
  shows "batch_shape (fill_row c i row blocks b)"
  using assms unfolding batch_shape_def fill_row_fields length_list_update
  by (elim conjE, intro conjI allI impI) (simp_all add: nth_list_update)

lemma occupied_fill_row:
  "i < length (ib_req_ids b) \<Longrightarrow> occupied (fill_row c i row blocks b) = insert i (occupied b)"
  by (auto simp: occupied_def nth_list_update)

lemma batch_ids_fill_row: "batch_ids (fill_row c i row blocks b) = insert (crs_req_id c) (batch_ids b)"
  by (simp add: batch_ids_def dict_set_ids)

lemma not_in_batch: "rid \<notin> batch_ids b \<longleftrightarrow> map_of (ib_req_id_to_index b) rid = None"
  by (simp add: batch_ids_def map_of_eq_None_iff)

lemma indexed_fill_row:
  assumes "indexed b" "i < length (ib_req_ids b)" "i \<notin> occupied b" "crs_req_id c \<notin> batch_ids b"
  shows "indexed (fill_row c i row blocks b)"
  unfolding indexed_def
proof (intro conjI allI)
  show "distinct (map fst (ib_req_id_to_index (fill_row c i row blocks b)))"
    using indexedD(1) [OF assms(1)] by (simp add: distinct_dict_set)
  fix r j
  show "map_of (ib_req_id_to_index (fill_row c i row blocks b)) r = Some j
      \<longleftrightarrow> j < length (ib_req_ids (fill_row c i row blocks b)) \<and> ib_req_ids (fill_row c i row blocks b) ! j = Some r"
    using assms(2-) indexedD(2) [OF assms(1), of r j] by (auto simp: nth_list_update occupied_def not_in_batch)
qed

lemma no_leftovers_ids:
  assumes "no_leftovers b" "r \<notin> batch_ids b"
  shows "r \<notin> greedy_reqs b" "r \<notin> random_reqs b" "r \<notin> top_p_reqs b" "r \<notin> top_k_reqs b"
    "r \<notin> frequency_penalties_reqs b" "r \<notin> presence_penalties_reqs b" "r \<notin> repetition_penalties_reqs b"
    "map_of (num_logprobs b) r = None" "r \<notin> prompt_logprob_reqs b"
  using assms by (auto simp: no_leftovers_def map_of_eq_None_iff)

lemma no_leftoversI:
  assumes "\<And>r. r \<notin> batch_ids b \<Longrightarrow> r \<notin> greedy_reqs b \<and> r \<notin> random_reqs b \<and> r \<notin> top_p_reqs b \<and> r \<notin> top_k_reqs b
      \<and> r \<notin> frequency_penalties_reqs b \<and> r \<notin> presence_penalties_reqs b \<and> r \<notin> repetition_penalties_reqs b
      \<and> map_of (num_logprobs b) r = None \<and> r \<notin> prompt_logprob_reqs b"
    and "dom (generators b) \<subseteq> occupied b" "distinct (map fst (num_logprobs b))"
  shows "no_leftovers b"
  unfolding no_leftovers_def
proof (intro conjI subsetI)
  fix r
  assume *: "r \<in> greedy_reqs b \<union> random_reqs b \<union> top_p_reqs b \<union> top_k_reqs b \<union> frequency_penalties_reqs b
       \<union> presence_penalties_reqs b \<union> repetition_penalties_reqs b \<union> fst ` set (num_logprobs b)
       \<union> prompt_logprob_reqs b"
  show "r \<in> batch_ids b"
  proof (rule ccontr)
    assume "r \<notin> batch_ids b"
    from assms(1) [OF this] * show False by (simp add: map_of_eq_None_iff)
  qed
qed (use assms(2,3) in auto)

lemma no_leftovers_fill_row:
  assumes "no_leftovers b" "i < length (ib_req_ids b)"
  shows "no_leftovers (fill_row c i row blocks b)"
proof (rule no_leftoversI)
  show "dom (generators (fill_row c i row blocks b)) \<subseteq> occupied (fill_row c i row blocks b)"
    using assms by (auto simp: no_leftovers_def fill_row_generators occupied_fill_row split: option.splits if_splits)
  show "distinct (map fst (num_logprobs (fill_row c i row blocks b)))"
    using assms(1) by (auto simp: no_leftovers_def fill_row_num_logprobs distinct_dict_set split: option.splits)
  fix r
  assume "r \<notin> batch_ids (fill_row c i row blocks b)"
  then have r: "r \<noteq> crs_req_id c" "r \<notin> batch_ids b" by (simp_all add: batch_ids_fill_row)
  note no_leftovers_ids [OF assms(1) r(2), simp]
  show "r \<notin> greedy_reqs (fill_row c i row blocks b) \<and> r \<notin> random_reqs (fill_row c i row blocks b)
      \<and> r \<notin> top_p_reqs (fill_row c i row blocks b) \<and> r \<notin> top_k_reqs (fill_row c i row blocks b)
      \<and> r \<notin> frequency_penalties_reqs (fill_row c i row blocks b)
      \<and> r \<notin> presence_penalties_reqs (fill_row c i row blocks b)
      \<and> r \<notin> repetition_penalties_reqs (fill_row c i row blocks b)
      \<and> map_of (num_logprobs (fill_row c i row blocks b)) r = None
      \<and> r \<notin> prompt_logprob_reqs (fill_row c i row blocks b)"
    using r(1) by (simp add: fill_row_sets fill_row_num_logprobs split: option.split)
qed


lemma entry_at_fill_row_other:
  "r \<noteq> crs_req_id c \<Longrightarrow> j \<noteq> i \<Longrightarrow> entry_at (fill_row c i row blocks b) r j = entry_at b r j"
  by (simp add: entry_at_def fill_row_sets fill_row_generators fill_row_num_logprobs split: option.split)

lemma batch_view_fill_row:
  assumes "indexed b" "i \<notin> occupied b"
  shows "batch_view (fill_row c i row blocks b) =
    (batch_view b)(crs_req_id c \<mapsto> entry_at (fill_row c i row blocks b) (crs_req_id c) i)"
proof
  fix r
  show "batch_view (fill_row c i row blocks b) r =
    ((batch_view b)(crs_req_id c \<mapsto> entry_at (fill_row c i row blocks b) (crs_req_id c) i)) r"
  proof (cases "r = crs_req_id c \<or> r \<notin> batch_ids b")
    case False
    then obtain j where j: "map_of (ib_req_id_to_index b) r = Some j" using not_in_batch by blast
    with assms have "j \<noteq> i" by (auto simp: occupied_def indexedD(2))
    with False j show ?thesis by (simp add: batch_view_def entry_at_fill_row_other)
  qed (auto simp: batch_view_def not_in_batch)
qed

lemma holds_fill_row:
  assumes "batch_ok b" "i < ib_max_num_reqs b" "i \<notin> occupied b" "crs_req_id c \<notin> batch_ids b"
    and "take (length (crs_prompt_token_ids c @ crs_output_token_ids c)) row = crs_prompt_token_ids c @ crs_output_token_ids c"
    and "take (length (crs_block_ids c)) blocks = crs_block_ids c"
  shows "holds (entry_at (fill_row c i row blocks b) (crs_req_id c) i) c"
proof -
  note ids = no_leftovers_ids [OF batch_okD(3) [OF assms(1)] assms(4)]
  have "generators b i = None"
    using assms(3) batch_okD(3) [OF assms(1)] by (auto simp: no_leftovers_def)
  with ids assms(2,5,6) show ?thesis
    unfolding holds_def Let_def entry_at_def
    by (simp add: fill_row_sets fill_row_generators fill_row_num_logprobs
        shape_lengths [OF batch_okD(1) [OF assms(1)]] split: option.split)
qed

section \<open>Adding a request\<close>

definition fits_row :: "input_batch \<Rightarrow> cached_request_state \<Rightarrow> bool" where
  "fits_row b c \<longleftrightarrow> length (crs_prompt_token_ids c) + length (crs_output_token_ids c) \<le> ib_max_model_len b
     \<and> length (crs_block_ids c) \<le> ib_max_num_blocks_per_req b"

text \<open>The row a request is put into: the given one, or the first behind the batch.\<close>

definition target_row :: "nat option \<Rightarrow> input_batch \<Rightarrow> nat" where
  "target_row pos b = (case pos of None \<Rightarrow> num_reqs b | Some i \<Rightarrow> i)"

lemma batch_add_request_ok:
  assumes ok: "batch_ok b" and i: "i = target_row pos b" "i < ib_max_num_reqs b" "i \<notin> occupied b"
    and c: "crs_req_id c \<notin> batch_ids b" "fits_row b c"
  obtains b' v where "batch_add_request c pos b = Inr b'" "batch_ok b'" "same_limits b b'"
    "batch_view b' = (batch_view b)(crs_req_id c \<mapsto> v)" "holds v c" "occupied b' = insert i (occupied b)"
proof -
  note len = shape_lengths [OF batch_okD(1) [OF ok]]
  let ?pr = "crs_prompt_token_ids c" and ?out = "crs_output_token_ids c"
  define row where "row = ?pr @ ?out @ drop (length (?pr @ ?out)) (token_ids_cpu b ! i)"
  define blocks where "blocks = crs_block_ids c @ drop (length (crs_block_ids c)) (block_table_cpu b ! i)"
  let ?b = "fill_row c i row blocks b"
  have "np_set_slice (token_ids_cpu b ! i) 0 ?pr = Inr (?pr @ drop (length ?pr) (token_ids_cpu b ! i))"
    and "np_set_slice (?pr @ drop (length ?pr) (token_ids_cpu b ! i)) (length ?pr) ?out = Inr row"
    and "np_set_slice (block_table_cpu b ! i) 0 (crs_block_ids c) = Inr blocks"
    using c(2) i(2) len by (simp_all add: np_set_slice_fits fits_row_def row_def blocks_def add.commute)
  then have "batch_add_request c pos b = Inr ?b"
    using i by (simp add: batch_add_request_def target_row_def Let_def)
  moreover have "length row = ib_max_model_len b" "length blocks = ib_max_num_blocks_per_req b"
    using c(2) i(2) len by (simp_all add: fits_row_def row_def blocks_def)
  then have "batch_ok ?b"
    using batch_okD [OF ok] i c unfolding batch_ok_def
    by (simp add: batch_shape_fill_row indexed_fill_row no_leftovers_fill_row shape_length)
  moreover have "holds (entry_at ?b (crs_req_id c) i) c"
    using ok i(2,3) c(1) by (rule holds_fill_row) (simp_all add: row_def blocks_def)
  moreover have "same_limits b ?b" by (simp add: same_limits_def)
  moreover have "occupied ?b = insert i (occupied b)"
    using i(2) len(1) by (simp add: occupied_fill_row)
  ultimately show ?thesis
    using that batch_view_fill_row [OF batch_okD(2) [OF ok] i(3)] by blast
qed

lemma batch_add_request_full:
  "num_reqs b = ib_max_num_reqs b \<Longrightarrow> batch_add_request c None b = Inl AssertionError"
  by (simp add: batch_add_request_def Let_def)

section \<open>Removing a request\<close>

lemma dict_pop_ids: "fst ` set (dict_pop k d) = fst ` set d - {k}"
  by (auto simp: dict_pop_def)

lemma clear_row_fields [simp]:
  "ib_req_ids (clear_row rid i b) = (ib_req_ids b)[i := None]"
  "ib_req_id_to_index (clear_row rid i b) = dict_pop rid (ib_req_id_to_index b)"
  "generators (clear_row rid i b) = (generators b)(i := None)"
  "num_logprobs (clear_row rid i b) = dict_pop rid (num_logprobs b)"
  "ib_max_num_reqs (clear_row rid i b) = ib_max_num_reqs b"
  "ib_max_model_len (clear_row rid i b) = ib_max_model_len b"
  "ib_max_num_blocks_per_req (clear_row rid i b) = ib_max_num_blocks_per_req b"
  "ib_vocab_size (clear_row rid i b) = ib_vocab_size b"
  "token_ids_cpu (clear_row rid i b) = token_ids_cpu b"
  "ib_num_prompt_tokens (clear_row rid i b) = ib_num_prompt_tokens b"
  "num_computed_tokens_cpu (clear_row rid i b) = num_computed_tokens_cpu b"
  "block_table_cpu (clear_row rid i b) = block_table_cpu b"
  "temperature_cpu (clear_row rid i b) = temperature_cpu b"
  "top_p_cpu (clear_row rid i b) = top_p_cpu b"
  "top_k_cpu (clear_row rid i b) = top_k_cpu b"
  "frequency_penalties_cpu (clear_row rid i b) = frequency_penalties_cpu b"
  "presence_penalties_cpu (clear_row rid i b) = presence_penalties_cpu b"
  "repetition_penalties_cpu (clear_row rid i b) = repetition_penalties_cpu b"
  "ib_min_tokens (clear_row rid i b) = ib_min_tokens b"
  "ib_stop_token_ids (clear_row rid i b) = ib_stop_token_ids b"
  "block_table (clear_row rid i b) = block_table b"
  "temperature (clear_row rid i b) = temperature b"
  "top_p (clear_row rid i b) = top_p b"
  "top_k (clear_row rid i b) = top_k b"
  "frequency_penalties (clear_row rid i b) = frequency_penalties b"
  "presence_penalties (clear_row rid i b) = presence_penalties b"
  "repetition_penalties (clear_row rid i b) = repetition_penalties b"
  "greedy_reqs (clear_row rid i b) = greedy_reqs b - {rid}"
  "random_reqs (clear_row rid i b) = random_reqs b - {rid}"
  "top_p_reqs (clear_row rid i b) = top_p_reqs b - {rid}"
  "top_k_reqs (clear_row rid i b) = top_k_reqs b - {rid}"
  "frequency_penalties_reqs (clear_row rid i b) = frequency_penalties_reqs b - {rid}"
  "presence_penalties_reqs (clear_row rid i b) = presence_penalties_reqs b - {rid}"
  "repetition_penalties_reqs (clear_row rid i b) = repetition_penalties_reqs b - {rid}"
  "prompt_logprob_reqs (clear_row rid i b) = prompt_logprob_reqs b - {rid}"
  by (simp_all add: clear_row_def)

lemma batch_shape_clear_row: "batch_shape b \<Longrightarrow> batch_shape (clear_row rid i b)"
  unfolding batch_shape_def clear_row_fields length_list_update .

lemma occupied_clear_row: "occupied (clear_row rid i b) = occupied b - {i}"
  by (cases "i < length (ib_req_ids b)") (auto simp: occupied_def nth_list_update)

lemma batch_ids_clear_row: "batch_ids (clear_row rid i b) = batch_ids b - {rid}"
  by (simp add: batch_ids_def dict_pop_ids)

lemma indexed_clear_row:
  assumes "indexed b" "map_of (ib_req_id_to_index b) rid = Some i"
  shows "indexed (clear_row rid i b)"
  unfolding indexed_def
proof (intro conjI allI)
  show "distinct (map fst (ib_req_id_to_index (clear_row rid i b)))"
    using indexedD(1) [OF assms(1)] by (simp add: distinct_dict_pop)
  fix r j
  show "map_of (ib_req_id_to_index (clear_row rid i b)) r = Some j
      \<longleftrightarrow> j < length (ib_req_ids (clear_row rid i b)) \<and> ib_req_ids (clear_row rid i b) ! j = Some r"
    using assms(2) indexedD(2) [OF assms(1), of r j] indexedD(2) [OF assms(1), of rid i]
      indexedD(2) [OF assms(1), of rid j]
    by (auto simp: nth_list_update)
qed

lemma no_leftovers_clear_row:
  assumes "no_leftovers b"
  shows "no_leftovers (clear_row rid i b)"
proof (rule no_leftoversI)
  show "dom (generators (clear_row rid i b)) \<subseteq> occupied (clear_row rid i b)"
    using assms by (auto simp: no_leftovers_def occupied_clear_row split: if_splits)
  show "distinct (map fst (num_logprobs (clear_row rid i b)))"
    using assms by (simp add: no_leftovers_def distinct_dict_pop)
  fix r
  assume "r \<notin> batch_ids (clear_row rid i b)"
  then have "r = rid \<or> r \<notin> batch_ids b" by (auto simp: batch_ids_clear_row)
  then show "r \<notin> greedy_reqs (clear_row rid i b) \<and> r \<notin> random_reqs (clear_row rid i b)
      \<and> r \<notin> top_p_reqs (clear_row rid i b) \<and> r \<notin> top_k_reqs (clear_row rid i b)
      \<and> r \<notin> frequency_penalties_reqs (clear_row rid i b)
      \<and> r \<notin> presence_penalties_reqs (clear_row rid i b)
      \<and> r \<notin> repetition_penalties_reqs (clear_row rid i b)
      \<and> map_of (num_logprobs (clear_row rid i b)) r = None
      \<and> r \<notin> prompt_logprob_reqs (clear_row rid i b)"
    using no_leftovers_ids [OF assms, of r] by (elim disjE) simp_all
qed

lemma batch_view_clear_row:
  assumes "indexed b" "map_of (ib_req_id_to_index b) rid = Some i"
  shows "batch_view (clear_row rid i b) = (batch_view b)(rid := None)"
proof
  fix r
  have "entry_at (clear_row rid i b) r j = entry_at b r j" if "r \<noteq> rid" "j \<noteq> i" for j
    using that by (simp add: entry_at_def)
  moreover have "j \<noteq> i" if "r \<noteq> rid" "map_of (ib_req_id_to_index b) r = Some j" for j
    using that assms by (auto simp: indexedD(2))
  ultimately show "batch_view (clear_row rid i b) r = ((batch_view b)(rid := None)) r"
    by (cases "map_of (ib_req_id_to_index b) r") (simp_all add: batch_view_def)
qed

lemma batch_remove_request_ok:
  assumes "batch_ok b"
  obtains b' where "batch_remove_request rid b = (map_of (ib_req_id_to_index b) rid, b')" "batch_ok b'"
    "same_limits b b'" "batch_view b' = (batch_view b)(rid := None)"
    "occupied b' = occupied b - set_option (map_of (ib_req_id_to_index b) rid)"
    "\<And>r. r \<noteq> rid \<Longrightarrow> map_of (ib_req_id_to_index b') r = map_of (ib_req_id_to_index b) r"
proof (cases "map_of (ib_req_id_to_index b) rid")
  case None
  then have "batch_view b = (batch_view b)(rid := None)" by (simp add: batch_view_def fun_eq_iff)
  with None assms show ?thesis by (intro that [of b]) (simp_all add: batch_remove_request_def)
next
  case (Some i)
  note ok = batch_okD [OF assms]
  have "batch_ok (clear_row rid i b)"
    using ok Some by (simp add: batch_ok_def batch_shape_clear_row indexed_clear_row no_leftovers_clear_row)
  with Some show ?thesis
    by (intro that [of "clear_row rid i b"])
      (simp_all add: batch_remove_request_def batch_view_clear_row [OF ok(2) Some] occupied_clear_row same_limits_def)
qed

lemma clear_batch_empty:
  assumes "batch_ok b"
  shows "batch_ok (clear_batch b)" "batch_view (clear_batch b) = Map.empty" "occupied (clear_batch b) = {}"
proof -
  have "batch_shape (clear_batch b)"
    using batch_okD(1) [OF assms] by (simp add: batch_shape_def clear_batch_def)
  then show "batch_ok (clear_batch b)"
    by (simp add: batch_ok_def indexed_def no_leftovers_def clear_batch_def)
  show "batch_view (clear_batch b) = Map.empty" "occupied (clear_batch b) = {}"
    by (simp_all add: clear_batch_def batch_view_def occupied_def fun_eq_iff)
qed

lemma init_batch_ok:
  "batch_ok (init_batch u v n m k w)" "batch_view (init_batch u v n m k w) = Map.empty"
  "occupied (init_batch u v n m k w) = {}"
  by (simp_all add: init_batch_def batch_ok_def batch_shape_def indexed_def no_leftovers_def batch_view_def
      occupied_def fun_eq_iff)

end
