(* ===== verification/ModelRunner.thy ===== *)
theory ModelRunner
  imports InputBatch
begin

text \<open>
  \<^verbatim>\<open>src/vllm/v1/worker/gpu_model_runner.py\<close>, class \<open>GPUModelRunner\<close>: what a step does with the
  scheduler's output around the call of the model. The runner keeps the state of every request it
  has seen, the outputs of the encoder and the persistent batch. The neural network and its sampler
  are parameters: \<open>encode\<close> for the multi-modal encoder and \<open>sample\<close> for the forward pass and the sampling
  of one token per request, which also advances the random generators. Tensors on the device have
  the values copied to them; CUDA streams, graphs and padding, timing and logprob tensors are left out.
\<close>

section \<open>Data\<close>

text \<open>Opaque rows of an encoder output, and a \<^verbatim>\<open>torch.Generator\<close> with its seed and offset.\<close>

type_synonym embedding = nat

record generator =
  gen_seed :: int
  gen_offset :: int

text \<open>
  The scheduler's output as a worker receives it: a copy, in which the data of running requests is
  resolved and new requests carry their full sampling parameters.
\<close>

record new_request_msg = new_request_data +
  nm_params :: sampling_params_args

record scheduler_msg =
  msg_new :: "new_request_msg list"
  msg_resumed :: "resumed_request_data list"
  msg_running :: "running_request_data list"
  msg_num_scheduled :: "(req_id \<times> int) list"
  msg_total :: int
  msg_encoder_inputs :: "(req_id \<times> nat list) list"
  msg_preempted :: "req_id set"
  msg_finished :: "req_id set"
  msg_free_encoder :: "(req_id \<times> nat) list"

record model_runner =
  mr_block_size :: int
  mr_max_num_blocks_per_req :: nat
  mr_max_num_tokens :: nat
  mr_arange_len :: nat
  mr_is_multimodal :: bool
  mr_requests :: "req_id \<rightharpoonup> cached_request_state"
  mr_encoder_cache :: "req_id \<rightharpoonup> (nat \<times> embedding list) list"
  mr_batch :: input_batch
  mr_gens :: "gen_ref \<Rightarrow> generator"
  mr_next_gen :: gen_ref

definition init_runner :: "rat \<Rightarrow> int \<Rightarrow> nat \<Rightarrow> nat \<Rightarrow> int \<Rightarrow> nat \<Rightarrow> token \<Rightarrow> bool \<Rightarrow> model_runner" where
  "init_runner uninit uninit_int num_seqs model_len bs max_tok vocab multimodal =
     (let k = nat (cdiv (int model_len) bs) in
      \<lparr>mr_block_size = bs, mr_max_num_blocks_per_req = k, mr_max_num_tokens = max_tok,
       mr_arange_len = max num_seqs model_len, mr_is_multimodal = multimodal,
       mr_requests = Map.empty, mr_encoder_cache = Map.empty,
       mr_batch = init_batch uninit uninit_int num_seqs model_len k vocab,
       mr_gens = (\<lambda>_. \<lparr>gen_seed = 0, gen_offset = 0\<rparr>), mr_next_gen = 0\<rparr>)"

section \<open>Updating the states\<close>

definition drop_finished :: "req_id set \<Rightarrow> model_runner \<Rightarrow> model_runner" where
  "drop_finished fin r =
     r\<lparr>mr_requests := (\<lambda>k. if k \<in> fin then None else mr_requests r k),
       mr_encoder_cache := (\<lambda>k. if k \<in> fin then None else mr_encoder_cache r k)\<rparr>"

definition free_encoder_output ::
  "req_id \<times> nat \<Rightarrow> (req_id \<rightharpoonup> (nat \<times> embedding list) list) \<Rightarrow> (req_id \<rightharpoonup> (nat \<times> embedding list) list)" where
  "free_encoder_output = (\<lambda>(rid, input_id) cache.
     case cache rid of
       None \<Rightarrow> cache
     | Some outs \<Rightarrow> let outs = dict_pop input_id outs
                   in if outs = [] then cache(rid := None) else cache(rid \<mapsto> outs))"

text \<open>The loops over the batch take its methods as arguments.\<close>

fun remove_loop :: "('k \<Rightarrow> 's \<Rightarrow> nat option \<times> 's) \<Rightarrow> 'k list \<Rightarrow> nat list \<Rightarrow> 's \<Rightarrow> nat list \<times> 's" where
  "remove_loop remove [] removed b = (removed, b)"
| "remove_loop remove (rid # rids) removed b =
     (case remove rid b of
        (None, b) \<Rightarrow> remove_loop remove rids removed b
      | (Some i, b) \<Rightarrow> remove_loop remove rids (removed @ [i]) b)"

definition update_running :: "running_request_data \<Rightarrow> model_runner \<Rightarrow> model_runner result" where
  "update_running d r =
     (let rid = rrd_req_id d; b = mr_batch r in
      case mr_requests r rid of
        None \<Rightarrow> Inl KeyError
      | Some c \<Rightarrow>
          (case map_of (ib_req_id_to_index b) rid of
             None \<Rightarrow> Inl KeyError
           | Some i \<Rightarrow>
               let c = c\<lparr>crs_num_computed_tokens := rrd_num_computed_tokens d\<rparr>;
                   b = b\<lparr>num_computed_tokens_cpu := (num_computed_tokens_cpu b)[i := rrd_num_computed_tokens d]\<rparr>
               in if rrd_new_block_ids d = []
                  then Inr (r\<lparr>mr_requests := (mr_requests r)(rid \<mapsto> c), mr_batch := b\<rparr>)
                  else andthen (np_set_slice (block_table_cpu b ! i) (length (crs_block_ids c)) (rrd_new_block_ids d)) (\<lambda>row.
                    let c = c\<lparr>crs_block_ids := crs_block_ids c @ rrd_new_block_ids d\<rparr>
                    in Inr (r\<lparr>mr_requests := (mr_requests r)(rid \<mapsto> c),
                              mr_batch := b\<lparr>block_table_cpu := (block_table_cpu b)[i := row]\<rparr>\<rparr>))))"

definition add_new_state :: "new_request_msg \<Rightarrow> model_runner \<Rightarrow> model_runner" where
  "add_new_state d r =
     (let p = nm_params d; seeded = (sampling_type_of p = RANDOM_SEED); g = mr_next_gen r;
          c = \<lparr>crs_req_id = nrd_req_id d, crs_prompt_token_ids = nrd_prompt_token_ids d, crs_prompt = nrd_prompt d,
               crs_mm_inputs = nrd_mm_inputs d, crs_mm_positions = nrd_mm_positions d, crs_sampling_params = p,
               crs_generator = (if seeded then Some g else None), crs_block_ids = nrd_block_ids d,
               crs_num_computed_tokens = nrd_num_computed_tokens d, crs_output_token_ids = []\<rparr>;
          r = (if seeded then r\<lparr>mr_gens := (mr_gens r)(g := \<lparr>gen_seed = the (p_seed p), gen_offset = 0\<rparr>),
                               mr_next_gen := Suc g\<rparr> else r)
      in r\<lparr>mr_requests := (mr_requests r)(nrd_req_id d \<mapsto> c)\<rparr>)"

definition update_resumed :: "resumed_request_data \<Rightarrow> model_runner \<Rightarrow> model_runner result" where
  "update_resumed d r =
     (case mr_requests r (rsd_req_id d) of
        None \<Rightarrow> Inl KeyError
      | Some c \<Rightarrow> Inr (r\<lparr>mr_requests := (mr_requests r)(rsd_req_id d \<mapsto>
          c\<lparr>crs_block_ids := rsd_block_ids d, crs_num_computed_tokens := rsd_num_computed_tokens d\<rparr>)\<rparr>))"

text \<open>
  Adding to the batch: freed rows are filled from the end of the list, which is in descending order.
  The states come from \<open>self.requests\<close>.
\<close>

fun add_loop ::
  "('c \<Rightarrow> nat option \<Rightarrow> 's \<Rightarrow> 's result) \<Rightarrow> ('k \<rightharpoonup> 'c) \<Rightarrow> 'k list \<Rightarrow> nat list \<Rightarrow> 's \<Rightarrow> (nat list \<times> 's) result" where
  "add_loop add states [] removed b = Inr (removed, b)"
| "add_loop add states (rid # rids) removed b =
     (case states rid of
        None \<Rightarrow> Inl KeyError
      | Some c \<Rightarrow>
          if removed \<noteq> []
          then andthen (add c (Some (last removed)) b) (\<lambda>b. add_loop add states rids (butlast removed) b)
          else andthen (add c None b) (\<lambda>b. add_loop add states rids [] b))"

definition refill_batch :: "req_id list \<Rightarrow> nat list \<Rightarrow> model_runner \<Rightarrow> model_runner result" where
  "refill_batch to_add removed r =
     andthen (add_loop batch_add_request (mr_requests r) to_add (rev (sort removed)) (mr_batch r)) (\<lambda>(removed, b).
     andthen (if removed \<noteq> [] then condense removed b else Inr b) (\<lambda>b.
       Inr (r\<lparr>mr_batch := b\<rparr>)))"

text \<open>The order in which Python iterates over the set of stopped requests is the parameter \<open>listed\<close>.\<close>

definition update_states :: "(req_id set \<Rightarrow> req_id list) \<Rightarrow> scheduler_msg \<Rightarrow> model_runner \<Rightarrow> model_runner result" where
  "update_states listed so r =
     (let r = drop_finished (msg_finished so) r;
          r = r\<lparr>mr_encoder_cache := fold free_encoder_output (msg_free_encoder so) (mr_encoder_cache r)\<rparr>;
          (removed, b) = remove_loop batch_remove_request (listed (msg_preempted so \<union> msg_finished so)) [] (mr_batch r);
          r = r\<lparr>mr_batch := b\<rparr>
      in andthen (fold_result update_running (msg_running so) r) (\<lambda>r.
         let r = fold add_new_state (msg_new so) r
         in andthen (fold_result update_resumed (msg_resumed so) r) (\<lambda>r.
            refill_batch (map nrd_req_id (msg_new so) @ map rsd_req_id (msg_resumed so)) removed r)))"

section \<open>Preparing the inputs\<close>

record model_inputs =
  mi_input_ids :: "token list"
  mi_positions :: "int list"
  mi_slot_mapping :: "int list"
  mi_query_start_loc :: "int list"
  mi_seq_start_loc :: "int list"
  mi_max_query_len :: int
  mi_max_seq_len :: int
  mi_block_table :: "nat list list"
  mi_logits_indices :: "int list"

fun scheduled_counts :: "(req_id \<times> int) list \<Rightarrow> req_id option list \<Rightarrow> int list result" where
  "scheduled_counts ns [] = Inr []"
| "scheduled_counts ns (None # rids) = Inl AssertionError"
| "scheduled_counts ns (Some rid # rids) =
     (case map_of ns rid of None \<Rightarrow> Inl KeyError
      | Some n \<Rightarrow> andthen (scheduled_counts ns rids) (\<lambda>cs. Inr (n # cs)))"

text \<open>\<^verbatim>\<open>np.repeat(range(n), counts)\<close>: a negative count raises.\<close>

definition np_repeat :: "int list \<Rightarrow> nat list result" where
  "np_repeat cs = (if \<exists>c \<in> set cs. c < 0 then Inl ValueError
     else Inr (concat (map (\<lambda>i. replicate (nat (cs ! i)) i) [0..<length cs])))"

text \<open>The concatenation of prefixes of \<open>arange_np\<close>, an array of the given length.\<close>

definition batched_arange :: "nat \<Rightarrow> int list \<Rightarrow> nat list" where
  "batched_arange len cs = concat (map (\<lambda>c. take (nat c) [0..<len]) cs)"

text \<open>An operand of a NumPy operation whose result has \<open>k\<close> elements.\<close>

definition np_broadcast :: "nat \<Rightarrow> 'a list \<Rightarrow> 'a list result" where
  "np_broadcast k xs = (if length xs = k then Inr xs
     else if length xs = 1 then Inr (replicate k (hd xs)) else Inl ValueError)"

text \<open>\<^verbatim>\<open>torch.index_select\<close> refuses negative indices; indexing a tensor counts them from the end.\<close>

definition index_select :: "'a list \<Rightarrow> int list \<Rightarrow> 'a list result" where
  "index_select xs is = (if \<forall>i \<in> set is. 0 \<le> i \<and> i < int (length xs)
     then Inr (map (\<lambda>i. xs ! nat i) is) else Inl IndexError)"

definition fancy_index :: "'a list \<Rightarrow> int list \<Rightarrow> 'a list result" where
  "fancy_index xs is = (if \<forall>i \<in> set is. - int (length xs) \<le> i \<and> i < int (length xs)
     then Inr (map (\<lambda>i. xs ! nat (if i < 0 then int (length xs) + i else i)) is) else Inl IndexError)"

fun cumsum_from :: "int \<Rightarrow> int list \<Rightarrow> int list" where
  "cumsum_from a [] = []"
| "cumsum_from a (x # xs) = (a + x) # cumsum_from (a + x) xs"

definition prepare_inputs :: "scheduler_msg \<Rightarrow> model_runner \<Rightarrow> (model_inputs \<times> model_runner) result" where
  "prepare_inputs so r =
     (let b = mr_batch r; n = num_reqs b; total = min (nat (msg_total so)) (mr_max_num_tokens r) in
      andthen (py_assert (0 < msg_total so)) (\<lambda>_.
      andthen (py_assert (0 < n)) (\<lambda>_.
      let table = copy_prefix n (block_table_cpu b) (block_table b);
          r = r\<lparr>mr_batch := b\<lparr>block_table := table\<rparr>\<rparr>
      in andthen (scheduled_counts (msg_num_scheduled so) (take n (ib_req_ids b))) (\<lambda>counts.
         let max_count = Max (insert 0 (set counts)) in
         andthen (py_assert (0 < max_count)) (\<lambda>_.
         andthen (np_repeat counts) (\<lambda>req_indices.
         let arange = batched_arange (mr_arange_len r) counts in
         andthen (np_broadcast total req_indices) (\<lambda>req_indices.
         andthen (np_broadcast total arange) (\<lambda>arange.
         let positions = map (\<lambda>(i, j). num_computed_tokens_cpu b ! i + int j) (zip req_indices arange);
             token_indices = map (\<lambda>(p, i). p + int i * int (ib_max_model_len b)) (zip positions req_indices)
         in andthen (index_select (concat (token_ids_cpu b)) token_indices) (\<lambda>input_ids.
         let block_table_indices =
               map (\<lambda>(p, i). int i * int (mr_max_num_blocks_per_req r) + p div mr_block_size r) (zip positions req_indices)
         in andthen (fancy_index (concat (block_table_cpu b)) block_table_indices) (\<lambda>block_numbers.
         let slots = map (\<lambda>(k, p). int k * mr_block_size r + p mod mr_block_size r) (zip block_numbers positions);
             query_start = 0 # cumsum_from 0 counts;
             seq_lens = map2 (+) (take n (num_computed_tokens_cpu b)) counts
         in Inr (\<lparr>mi_input_ids = input_ids, mi_positions = positions, mi_slot_mapping = slots,
                  mi_query_start_loc = query_start, mi_seq_start_loc = 0 # cumsum_from 0 seq_lens,
                  mi_max_query_len = max_count, mi_max_seq_len = Max (set seq_lens),
                  mi_block_table = take n table,
                  mi_logits_indices = map (\<lambda>x. x - 1) (tl query_start)\<rparr>, r)))))))))))"

definition prepare_sampling :: "scheduler_msg \<Rightarrow> model_runner \<Rightarrow> (sampling_metadata \<times> model_runner) result" where
  "prepare_sampling so r =
     (let skip_copy = (msg_finished so = {} \<and> msg_preempted so = {} \<and> msg_new so = [] \<and> msg_resumed so = [])
      in andthen (make_sampling_metadata (\<lambda>rid. map_option crs_output_token_ids (mr_requests r rid)) skip_copy (mr_batch r))
           (\<lambda>(m, b). Inr (m, r\<lparr>mr_batch := b\<rparr>)))"

section \<open>The encoder\<close>

fun collect_mm_inputs ::
  "(req_id \<rightharpoonup> cached_request_state) \<Rightarrow> (req_id \<times> nat) list \<Rightarrow> mm_kwargs option list result" where
  "collect_mm_inputs states [] = Inr []"
| "collect_mm_inputs states ((rid, i) # ids) =
     (case states rid of None \<Rightarrow> Inl KeyError
      | Some c \<Rightarrow> if length (crs_mm_inputs c) \<le> i then Inl IndexError
                 else andthen (collect_mm_inputs states ids) (\<lambda>ms. Inr (crs_mm_inputs c ! i # ms)))"

definition store_encoder_output ::
  "(req_id \<times> nat) \<times> embedding list \<Rightarrow> (req_id \<rightharpoonup> (nat \<times> embedding list) list) \<Rightarrow> (req_id \<rightharpoonup> (nat \<times> embedding list) list)" where
  "store_encoder_output = (\<lambda>((rid, input_id), out) cache.
     cache(rid \<mapsto> dict_set input_id out (case cache rid of None \<Rightarrow> [] | Some outs \<Rightarrow> outs)))"

definition execute_encoder ::
  "(mm_kwargs option list \<Rightarrow> embedding list list) \<Rightarrow> scheduler_msg \<Rightarrow> model_runner \<Rightarrow> model_runner result" where
  "execute_encoder encode so r =
     (if msg_encoder_inputs so = [] then Inr r
      else let ids = concat (map (\<lambda>(rid, is). map (Pair rid) is) (msg_encoder_inputs so))
           in andthen (collect_mm_inputs (mr_requests r) ids) (\<lambda>inputs.
              Inr (r\<lparr>mr_encoder_cache := fold store_encoder_output (zip ids (encode inputs)) (mr_encoder_cache r)\<rparr>)))"

text \<open>The inner loop of \<open>_gather_encoder_outputs\<close> from input \<open>i\<close> on.\<close>

fun gather_from ::
  "(nat \<times> embedding list) list option \<Rightarrow> int \<Rightarrow> int \<Rightarrow> nat \<Rightarrow> placeholder_range list \<Rightarrow> embedding list list result" where
  "gather_from outputs computed sched i [] = Inr []"
| "gather_from outputs computed sched i (pos # rest) =
     (let start = offset pos; len = range_length pos in
      if computed + sched \<le> start then Inr []
      else if start + len \<le> computed then gather_from outputs computed sched (Suc i) rest
      else let start_idx = max (computed - start) 0; end_idx = min (computed - start + sched) len in
           andthen (py_assert (start_idx < end_idx)) (\<lambda>_.
           case outputs of None \<Rightarrow> Inl AssertionError
           | Some outs \<Rightarrow>
               (case map_of outs i of None \<Rightarrow> Inl AssertionError
                | Some out \<Rightarrow> andthen (gather_from outputs computed sched (Suc i) rest) (\<lambda>es.
                    Inr (py_slice out start_idx end_idx # es)))))"

fun gather_encoder_outputs ::
  "model_runner \<Rightarrow> (req_id \<times> int) list \<Rightarrow> req_id option list \<Rightarrow> embedding list list result" where
  "gather_encoder_outputs r ns [] = Inr []"
| "gather_encoder_outputs r ns (None # rids) = Inl AssertionError"
| "gather_encoder_outputs r ns (Some rid # rids) =
     (case map_of ns rid of None \<Rightarrow> Inl KeyError
      | Some n \<Rightarrow>
          (case mr_requests r rid of None \<Rightarrow> Inl KeyError
           | Some c \<Rightarrow>
               andthen (gather_from (mr_encoder_cache r rid) (crs_num_computed_tokens c) n 0 (crs_mm_positions c)) (\<lambda>es.
               andthen (gather_encoder_outputs r ns rids) (\<lambda>rest. Inr (es @ rest)))))"

section \<open>Executing a step\<close>

definition scheduled_num_tokens :: "scheduler_msg \<Rightarrow> req_id \<rightharpoonup> int" where
  "scheduled_num_tokens so = map_of (rev (map (\<lambda>d. (nrd_req_id d, nrd_num_tokens d)) (msg_new so)
     @ map (\<lambda>d. (rsd_req_id d, rsd_num_tokens d)) (msg_resumed so)
     @ map (\<lambda>d. (rrd_req_id d, rrd_num_tokens d)) (msg_running so)))"

record step_outcome =
  so_new_tokens :: "req_id \<rightharpoonup> token"
  so_bad_ids :: "req_id list"

text \<open>One round of the loop that takes the sampled tokens over, for the request in row \<open>i\<close>.\<close>

definition take_sampled ::
  "scheduler_msg \<Rightarrow> token list \<Rightarrow> nat \<times> req_id option \<Rightarrow> model_runner \<times> step_outcome \<Rightarrow> (model_runner \<times> step_outcome) result" where
  "take_sampled so sampled = (\<lambda>(i, rid_opt) (r, out).
     case rid_opt of None \<Rightarrow> Inl AssertionError
     | Some rid \<Rightarrow>
         (case (mr_requests r rid, scheduled_num_tokens so rid, map_of (msg_num_scheduled so) rid) of
            (Some c, Some total_toks, Some n) \<Rightarrow>
              let seq_len = crs_num_computed_tokens c + n; b = mr_batch r in
              andthen (py_assert (seq_len \<le> total_toks)) (\<lambda>_.
              if seq_len = total_toks
              then if length sampled \<le> i then Inl IndexError
                   else if seq_len < - int (ib_max_model_len b) \<or> int (ib_max_model_len b) \<le> seq_len then Inl IndexError
                   else let t = sampled ! i; k = nat (if seq_len < 0 then int (ib_max_model_len b) + seq_len else seq_len) in
                        Inr (r\<lparr>mr_requests := (mr_requests r)(rid \<mapsto> c\<lparr>crs_output_token_ids := crs_output_token_ids c @ [t]\<rparr>),
                               mr_batch := b\<lparr>token_ids_cpu := (token_ids_cpu b)[i := (token_ids_cpu b ! i)[k := t]]\<rparr>\<rparr>,
                             out\<lparr>so_new_tokens := (so_new_tokens out)(rid \<mapsto> t)\<rparr>)
              else Inr (case generators b i of None \<Rightarrow> r
                        | Some g \<Rightarrow> r\<lparr>mr_gens := (mr_gens r)(g := (mr_gens r g)\<lparr>gen_offset := gen_offset (mr_gens r g) - 4\<rparr>)\<rparr>,
                        out\<lparr>so_bad_ids := so_bad_ids out @ [rid]\<rparr>))
          | _ \<Rightarrow> Inl KeyError))"

definition take_all_sampled ::
  "scheduler_msg \<Rightarrow> token list \<Rightarrow> model_runner \<Rightarrow> (model_runner \<times> step_outcome) result" where
  "take_all_sampled so sampled r =
     (let rids = take (num_reqs (mr_batch r)) (ib_req_ids (mr_batch r)) in
      fold_result (take_sampled so sampled) (zip [0..<length rids] rids)
        (r, \<lparr>so_new_tokens = Map.empty, so_bad_ids = []\<rparr>))"

definition runner_output :: "token list \<Rightarrow> model_runner \<times> step_outcome \<Rightarrow> (model_runner_output \<times> model_runner) result" where
  "runner_output sampled = (\<lambda>(r, out).
     let b = mr_batch r; rids = take (num_reqs b) (ib_req_ids b) in
     andthen (py_assert (None \<notin> set rids)) (\<lambda>_.
       Inr (\<lparr>mro_req_ids = map the rids, req_id_to_index = map_of (ib_req_id_to_index b),
             sampled_token_ids = sampled, new_token_ids = so_new_tokens out, bad_ids = so_bad_ids out\<rparr>, r)))"

text \<open>The encoder part of a step; without a multi-modal model there are no outputs.\<close>

definition run_encoder ::
  "(mm_kwargs option list \<Rightarrow> embedding list list) \<Rightarrow> scheduler_msg \<Rightarrow> model_runner \<Rightarrow> (embedding list list \<times> model_runner) result" where
  "run_encoder encode so r =
     (if mr_is_multimodal r
      then andthen (execute_encoder encode so r) (\<lambda>r.
           andthen (gather_encoder_outputs r (msg_num_scheduled so)
             (take (num_reqs (mr_batch r)) (ib_req_ids (mr_batch r)))) (\<lambda>es. Inr (es, r)))
      else Inr ([], r))"

type_synonym sampler =
  "model_inputs \<Rightarrow> embedding list list \<Rightarrow> sampling_metadata \<Rightarrow> (gen_ref \<Rightarrow> generator) \<Rightarrow> token list \<times> (gen_ref \<Rightarrow> generator)"

definition execute_model ::
  "(req_id set \<Rightarrow> req_id list) \<Rightarrow> (mm_kwargs option list \<Rightarrow> embedding list list) \<Rightarrow> sampler \<Rightarrow>
   scheduler_msg \<Rightarrow> model_runner \<Rightarrow> (model_runner_output \<times> model_runner) result" where
  "execute_model listed encode sample so r =
     andthen (update_states listed so r) (\<lambda>r.
     andthen (run_encoder encode so r) (\<lambda>(es, r).
     andthen (prepare_inputs so r) (\<lambda>(inputs, r).
     andthen (prepare_sampling so r) (\<lambda>(meta, r).
     let (sampled, gens) = sample inputs es meta (mr_gens r); r = r\<lparr>mr_gens := gens\<rparr>
     in andthen (take_all_sampled so sampled r) (runner_output sampled)))))"

end
