(* ===== verification/RowTable.thy ===== *)
theory RowTable
  imports BatchOps ModelRunner
begin

text \<open>
  The contract between the model runner and its persistent batch: a table with numbered rows, one per
  key, whose rows are the numbers below their count whenever the runner is done with it. The loops
  of the runner that remove, add and compact are verified against the contract; the batch is an
  interpretation of it.
\<close>

section \<open>The contract\<close>

locale row_table =
  fixes ok :: "'s \<Rightarrow> bool" and view :: "'s \<Rightarrow> 'k \<rightharpoonup> 'v" and rows :: "'s \<Rightarrow> nat set"
    and capacity :: "'s \<Rightarrow> nat" and row :: "'s \<Rightarrow> 'k \<rightharpoonup> nat"
    and key :: "'c \<Rightarrow> 'k" and room :: "'s \<Rightarrow> 'c \<Rightarrow> bool" and rep :: "'v \<Rightarrow> 'c \<Rightarrow> bool"
    and same :: "'s \<Rightarrow> 's \<Rightarrow> bool"
    and add :: "'c \<Rightarrow> nat option \<Rightarrow> 's \<Rightarrow> 's result"
    and remove :: "'k \<Rightarrow> 's \<Rightarrow> nat option \<times> 's"
    and compact :: "nat list \<Rightarrow> 's \<Rightarrow> 's result"
  assumes finite_rows: "ok s \<Longrightarrow> finite (rows s)"
    and card_rows: "ok s \<Longrightarrow> card (rows s) = card (dom (view s))"
    and row_used: "ok s \<Longrightarrow> row s k = Some i \<Longrightarrow> i \<in> rows s"
    and same_trans: "same s t \<Longrightarrow> same t u \<Longrightarrow> same s u"
    and same_refl: "same s s"
    and same_room: "same s t \<Longrightarrow> capacity t = capacity s \<and> room t c = room s c"
    and remove_law: "ok s \<Longrightarrow> \<exists>t. remove k s = (row s k, t) \<and> ok t \<and> same s t
      \<and> view t = (view s)(k := None) \<and> rows t = rows s - set_option (row s k)"
    and add_law: "ok s \<Longrightarrow> i = (case pos of None \<Rightarrow> card (rows s) | Some i \<Rightarrow> i) \<Longrightarrow> i < capacity s \<Longrightarrow>
      i \<notin> rows s \<Longrightarrow> key c \<notin> dom (view s) \<Longrightarrow> room s c \<Longrightarrow>
      \<exists>t v. add c pos s = Inr t \<and> ok t \<and> same s t \<and> view t = (view s)(key c \<mapsto> v) \<and> rep v c
        \<and> rows t = insert i (rows s)"
    and compact_law: "ok s \<Longrightarrow> sorted_wrt (>) es \<Longrightarrow> rows s = {..<card (rows s) + length es} - set es \<Longrightarrow>
      \<exists>t. compact es s = Inr t \<and> ok t \<and> same s t \<and> view t = view s \<and> rows t = {..<card (rows t)}"
begin

lemma remove_loop_spec:
  assumes "ok s"
  shows "\<exists>removed t. remove_loop remove ks acc s = (acc @ removed, t) \<and> ok t \<and> same s t
    \<and> view t = view s |` (- set ks) \<and> distinct removed \<and> set removed \<subseteq> rows s \<and> rows t = rows s - set removed"
  using assms
proof (induction ks arbitrary: acc s)
  case Nil
  then show ?case by (simp add: same_refl)
next
  case (Cons k ks)
  obtain t where t: "remove k s = (row s k, t)" "ok t" "same s t" "view t = (view s)(k := None)"
    "rows t = rows s - set_option (row s k)"
    using remove_law [OF Cons.prems] by blast
  have restrict: "view t |` (- set ks) = view s |` (- set (k # ks))"
    unfolding t(4) by (auto simp: restrict_map_def fun_eq_iff)
  show ?case
  proof (cases "row s k")
    case None
    obtain removed u where "remove_loop remove ks acc t = (acc @ removed, u)" "ok u" "same t u"
      "view u = view t |` (- set ks)" "distinct removed" "set removed \<subseteq> rows t" "rows u = rows t - set removed"
      using Cons.IH [OF t(2), of acc] by blast
    with t None restrict show ?thesis by (auto intro: same_trans)
  next
    case (Some i)
    obtain removed u where u: "remove_loop remove ks (acc @ [i]) t = ((acc @ [i]) @ removed, u)" "ok u" "same t u"
      "view u = view t |` (- set ks)" "distinct removed" "set removed \<subseteq> rows t" "rows u = rows t - set removed"
      using Cons.IH [OF t(2), of "acc @ [i]"] by blast
    have "i \<in> rows s" using row_used [OF Cons.prems Some] .
    with u t Some restrict show ?thesis
      by (intro exI [of _ "i # removed"] exI [of _ u]) (auto intro: same_trans)
  qed
qed

lemma add_loop_spec:
  assumes "ok s" "sorted_wrt (>) es" "rows s = {..<card (rows s) + length es} - set es"
    "card (rows s) + length es \<le> capacity s" "card (rows s) + length ks \<le> capacity s"
    "distinct ks" "set ks \<inter> dom (view s) = {}"
    "\<And>k. k \<in> set ks \<Longrightarrow> \<exists>c. states k = Some c \<and> key c = k \<and> room s c"
  shows "\<exists>es' t. add_loop add states ks es s = Inr (es', t) \<and> ok t \<and> same s t \<and> sorted_wrt (>) es'
    \<and> rows t = {..<card (rows t) + length es'} - set es'
    \<and> (\<forall>k \<in> set ks. \<exists>v. view t k = Some v \<and> rep v (the (states k))) \<and> (\<forall>k. k \<notin> set ks \<longrightarrow> view t k = view s k)"
  using assms
proof (induction ks arbitrary: es s)
  case Nil
  then show ?case by (simp add: same_refl)
next
  case (Cons k ks)
  obtain c where c: "states k = Some c" "key c = k" "room s c" using Cons.prems(8) [of k] by auto
  define pos where "pos = (if es = [] then None else Some (last es))"
  define i where "i = (case pos of None \<Rightarrow> card (rows s) | Some i \<Rightarrow> i)"
  have rest: "sorted_wrt (>) (butlast es)" using Cons.prems(2) by (rule sorted_butlast)
  have subset: "set es \<subseteq> {..<card (rows s) + length es}"
  proof -
    have "card (rows s) \<ge> card {..<card (rows s) + length es} - card (set es \<inter> {..<card (rows s) + length es})"
      by (metis Cons.prems(3) card_Diff_subset_Int Int_commute finite_Int finite_lessThan finite_set order_refl)
    then have "length es \<le> card (set es \<inter> {..<card (rows s) + length es})" by simp
    then show ?thesis
      by (metis card_length card_seteq finite_set inf_le1 inf_le2 order_trans)
  qed
  have i: "i < capacity s" "i \<notin> rows s"
    "insert i (rows s) = {..<Suc (card (rows s)) + length (butlast es)} - set (butlast es)"
  proof -
    define n where "n = card (rows s)"
    have R: "rows s = {..<n + length es} - set es" using Cons.prems(3) by (simp only: n_def)
    have "i < capacity s \<and> i \<notin> rows s \<and> insert i (rows s) = {..<Suc n + length (butlast es)} - set (butlast es)"
    proof (cases "es = []")
      case True
      then show ?thesis using Cons.prems(5) by (auto simp: i_def pos_def R n_def [symmetric])
    next
      case False
      have but: "set (butlast es) = set es - {last es}"
        using set_butlast [OF False last_notin_butlast [OF Cons.prems(2) False]] .
      have last: "last es < n + length es" "last es \<in> set es" and i: "i = last es"
        using subsetD [OF subset last_in_set [OF False]] False by (simp_all add: n_def i_def pos_def)
      have len: "Suc n + length (butlast es) = n + length es" using False by (cases es) simp_all
      have "insert x ({..<m} - A) = {..<m} - (A - {x})" if "x < m" "x \<in> A" for x m :: nat and A
        using that by blast
      then have "insert i (rows s) = {..<Suc n + length (butlast es)} - set (butlast es)"
        unfolding R i but len using last by blast
      moreover have "i < capacity s" using last(1) Cons.prems(4) i by (simp add: n_def)
      ultimately show ?thesis using last(2) by (simp add: R i)
    qed
    then show "i < capacity s" "i \<notin> rows s"
      "insert i (rows s) = {..<Suc (card (rows s)) + length (butlast es)} - set (butlast es)"
      by (simp_all add: n_def)
  qed
  have "key c \<notin> dom (view s)" using Cons.prems(7) c(2) by auto
  then obtain t v where t: "add c pos s = Inr t" "ok t" "same s t" "view t = (view s)(k \<mapsto> v)" "rep v c"
    "rows t = insert i (rows s)"
    using add_law [OF Cons.prems(1) i_def i(1,2)] c(2,3) by blast
  have card: "card (rows t) = Suc (card (rows s))"
    using t(6) i(2) finite_rows [OF Cons.prems(1)] by simp
  have "\<exists>es' u. add_loop add states ks (butlast es) t = Inr (es', u) \<and> ok u \<and> same t u \<and> sorted_wrt (>) es'
    \<and> rows u = {..<card (rows u) + length es'} - set es'
    \<and> (\<forall>k \<in> set ks. \<exists>v. view u k = Some v \<and> rep v (the (states k))) \<and> (\<forall>k. k \<notin> set ks \<longrightarrow> view u k = view t k)"
  proof (rule Cons.IH [OF t(2) rest])
    show "rows t = {..<card (rows t) + length (butlast es)} - set (butlast es)"
      using i(3) t(6) card by simp
    show "card (rows t) + length (butlast es) \<le> capacity t" "card (rows t) + length ks \<le> capacity t"
      using Cons.prems(4,5) card same_room [OF t(3)] by (cases es; simp)+
    show "distinct ks" "set ks \<inter> dom (view t) = {}"
      using Cons.prems(6,7) t(4) by auto
    show "\<exists>c. states k' = Some c \<and> key c = k' \<and> room t c" if "k' \<in> set ks" for k'
      using Cons.prems(8) [of k'] that same_room [OF t(3)] by simp
  qed
  then obtain es' u where u: "add_loop add states ks (butlast es) t = Inr (es', u)" "ok u" "same t u"
    "sorted_wrt (>) es'" "rows u = {..<card (rows u) + length es'} - set es'"
    "\<forall>k \<in> set ks. \<exists>v. view u k = Some v \<and> rep v (the (states k))" "\<forall>k. k \<notin> set ks \<longrightarrow> view u k = view t k"
    by blast
  have "add_loop add states (k # ks) es s = Inr (es', u)"
    using c(1) t(1) u(1) by (auto simp: pos_def)
  moreover have "view u k = Some v" using u(7) t(4) Cons.prems(6) by simp
  ultimately show ?case
    using u same_trans [OF t(3) u(3)] t(4,5) c(1) by (intro exI [of _ es'] exI [of _ u]) auto
qed

lemma refill_spec:
  assumes "ok s" "distinct removed" "rows s = {..<card (rows s) + length removed} - set removed"
    "card (rows s) + length removed \<le> capacity s" "card (rows s) + length ks \<le> capacity s"
    "distinct ks" "set ks \<inter> dom (view s) = {}"
    "\<And>k. k \<in> set ks \<Longrightarrow> \<exists>c. states k = Some c \<and> key c = k \<and> room s c"
  shows "\<exists>es t u. add_loop add states ks (rev (sort removed)) s = Inr (es, t)
    \<and> (if es \<noteq> [] then compact es t else Inr t) = Inr u \<and> ok u \<and> same s u \<and> rows u = {..<card (rows u)}
    \<and> (\<forall>k \<in> set ks. \<exists>v. view u k = Some v \<and> rep v (the (states k))) \<and> (\<forall>k. k \<notin> set ks \<longrightarrow> view u k = view s k)"
proof -
  have "sorted_wrt (>) (rev (sort removed))"
    using assms(2) by (simp add: sorted_wrt_rev strict_sorted_iff)
  with add_loop_spec [OF assms(1), of "rev (sort removed)" ks states] assms(3-8)
  obtain es t where t: "add_loop add states ks (rev (sort removed)) s = Inr (es, t)" "ok t" "same s t"
    "sorted_wrt (>) es" "rows t = {..<card (rows t) + length es} - set es"
    "\<forall>k \<in> set ks. \<exists>v. view t k = Some v \<and> rep v (the (states k))" "\<forall>k. k \<notin> set ks \<longrightarrow> view t k = view s k"
    by auto
  obtain u where "(if es \<noteq> [] then compact es t else Inr t) = Inr u" "ok u" "same s u" "rows u = {..<card (rows u)}"
    "view u = view t"
  proof (cases "es = []")
    case True
    with t show ?thesis by (intro that [of t]) simp_all
  next
    case False
    with compact_law [OF t(2,4,5)] same_trans [OF t(3)] show ?thesis by (auto intro: that)
  qed
  with t show ?thesis by metis
qed

end

section \<open>The persistent batch\<close>

interpretation bt: row_table batch_ok batch_view occupied ib_max_num_reqs "\<lambda>b. map_of (ib_req_id_to_index b)"
  crs_req_id fits_row holds same_limits batch_add_request batch_remove_request condense
proof
  fix s assume ok: "batch_ok s"
  show "finite (occupied s)" by simp
  show "card (occupied s) = card (dom (batch_view s))"
    using batch_okD(2) [OF ok] by (simp add: card_occupied card_batch_ids)
  fix k i assume "map_of (ib_req_id_to_index s) k = Some i"
  then show "i \<in> occupied s" using batch_okD(2) [OF ok] by (simp add: indexedD(2) occupied_def)
next
  fix s k assume "batch_ok s"
  then show "\<exists>t. batch_remove_request k s = (map_of (ib_req_id_to_index s) k, t) \<and> batch_ok t \<and> same_limits s t
      \<and> batch_view t = (batch_view s)(k := None) \<and> occupied t = occupied s - set_option (map_of (ib_req_id_to_index s) k)"
    by (rule batch_remove_request_ok) blast
next
  fix s i pos c
  assume ok: "batch_ok s" and "i = (case pos of None \<Rightarrow> card (occupied s) | Some i \<Rightarrow> i)"
    and "i < ib_max_num_reqs s" "i \<notin> occupied s" "crs_req_id c \<notin> dom (batch_view s)" "fits_row s c"
  moreover from this have "i = target_row pos s"
    using batch_okD(2) [OF ok] by (simp add: target_row_def card_occupied split: option.split)
  ultimately show "\<exists>t v. batch_add_request c pos s = Inr t \<and> batch_ok t \<and> same_limits s t
      \<and> batch_view t = (batch_view s)(crs_req_id c \<mapsto> v) \<and> holds v c \<and> occupied t = insert i (occupied s)"
    by (elim batch_add_request_ok [of s i pos c]) (auto simp del: not_None_eq)
next
  fix s es
  assume ok: "batch_ok s" and es: "sorted_wrt (>) es"
    and "occupied s = {..<card (occupied s) + length es} - set es"
  then have "occupied s = {..<num_reqs s + length es} - set es"
    using batch_okD(2) [OF ok] by (simp add: card_occupied)
  with ok es show "\<exists>t. condense es s = Inr t \<and> batch_ok t \<and> same_limits s t \<and> batch_view t = batch_view s
      \<and> occupied t = {..<card (occupied t)}"
    by (rule condense_compacts) (simp add: card_occupied batch_okD)
qed (auto simp: same_limits_def fits_row_def)

end
