(* ===== verification/RunnerInv.thy ===== *)
theory RunnerInv
  imports RowTable
begin

text \<open>
  The invariant of the model runner (every row of the persistent batch holds the data of the request
  it belongs to, rows are contiguous, every seeded request has a generator of its own), the abstract
  step on the runner's request table, and that \<open>_update_states\<close> implements it.
\<close>

section \<open>Invariant\<close>

definition entries_match :: "model_runner \<Rightarrow> bool" where
  "entries_match r \<longleftrightarrow> (\<forall>rid v. batch_view (mr_batch r) rid = Some v \<longrightarrow>
     (\<exists>c. mr_requests r rid = Some c \<and> holds v c))"

definition states_ok :: "model_runner \<Rightarrow> bool" where
  "states_ok r \<longleftrightarrow> (\<forall>rid c. mr_requests r rid = Some c \<longrightarrow> crs_req_id c = rid
     \<and> length (crs_prompt_token_ids c) + length (crs_output_token_ids c) \<le> ib_max_model_len (mr_batch r))"

definition gen_ok :: "model_runner \<Rightarrow> cached_request_state \<Rightarrow> bool" where
  "gen_ok r c \<longleftrightarrow> (case crs_generator c of
     None \<Rightarrow> sampling_type_of (crs_sampling_params c) \<noteq> RANDOM_SEED
   | Some g \<Rightarrow> g < mr_next_gen r \<and> p_seed (crs_sampling_params c) = Some (gen_seed (mr_gens r g)))"

definition gens_ok :: "model_runner \<Rightarrow> bool" where
  "gens_ok r \<longleftrightarrow> (\<forall>rid c. mr_requests r rid = Some c \<longrightarrow> gen_ok r c)
     \<and> (\<forall>rid rid' c c' g. mr_requests r rid = Some c \<longrightarrow> mr_requests r rid' = Some c' \<longrightarrow>
          crs_generator c = Some g \<longrightarrow> crs_generator c' = Some g \<longrightarrow> rid = rid')"

lemma gens_okI:
  assumes "\<And>rid c. mr_requests r rid = Some c \<Longrightarrow> gen_ok r c"
    and "\<And>rid rid' c c' g. mr_requests r rid = Some c \<Longrightarrow> mr_requests r rid' = Some c' \<Longrightarrow>
      crs_generator c = Some g \<Longrightarrow> crs_generator c' = Some g \<Longrightarrow> rid = rid'"
  shows "gens_ok r"
  using assms unfolding gens_ok_def by blast

lemma gens_okD:
  assumes "gens_ok r"
  shows "mr_requests r rid = Some c \<Longrightarrow> gen_ok r c"
    and "mr_requests r rid = Some c \<Longrightarrow> mr_requests r rid' = Some c' \<Longrightarrow>
      crs_generator c = Some g \<Longrightarrow> crs_generator c' = Some g \<Longrightarrow> rid = rid'"
  using assms unfolding gens_ok_def by blast+

text \<open>What holds between the phases of an update, when rows may be empty.\<close>

definition runner_mid :: "model_runner \<Rightarrow> bool" where
  "runner_mid r \<longleftrightarrow> batch_ok (mr_batch r) \<and> entries_match r \<and> states_ok r \<and> gens_ok r
     \<and> mr_max_num_blocks_per_req r = ib_max_num_blocks_per_req (mr_batch r)
     \<and> ib_max_model_len (mr_batch r) \<le> mr_arange_len r"

definition runner_inv :: "model_runner \<Rightarrow> bool" where
  "runner_inv r \<longleftrightarrow> runner_mid r \<and> occupied (mr_batch r) = {..<num_reqs (mr_batch r)}"

lemma runner_midD:
  assumes "runner_mid r"
  shows "batch_ok (mr_batch r)" "entries_match r" "states_ok r" "gens_ok r"
    "mr_max_num_blocks_per_req r = ib_max_num_blocks_per_req (mr_batch r)"
    "ib_max_model_len (mr_batch r) \<le> mr_arange_len r"
  using assms by (simp_all add: runner_mid_def)

lemma entries_matchD:
  "entries_match r \<Longrightarrow> batch_view (mr_batch r) rid = Some v \<Longrightarrow> \<exists>c. mr_requests r rid = Some c \<and> holds v c"
  by (simp add: entries_match_def)

lemma init_runner_inv: "runner_inv (init_runner u v n m bs t w mm)"
proof -
  let ?r = "init_runner u v n m bs t w mm"
  obtain k where b: "mr_batch ?r = init_batch u v n m k w" and k: "mr_max_num_blocks_per_req ?r = k"
    by (simp add: init_runner_def Let_def)
  have "mr_requests ?r = Map.empty" "m \<le> mr_arange_len ?r" by (simp_all add: init_runner_def Let_def)
  moreover have "num_reqs (init_batch u v n m k w) = 0" "ib_max_num_blocks_per_req (init_batch u v n m k w) = k"
    "ib_max_model_len (init_batch u v n m k w) = m"
    by (simp_all add: num_reqs_def init_batch_def)
  ultimately show ?thesis
    by (simp add: runner_inv_def runner_mid_def entries_match_def states_ok_def gens_ok_def b k init_batch_ok)
qed

section \<open>The abstract step\<close>

text \<open>
  Abstractly the runner maps request ids to their state, random generators left out, and knows
  which requests are in the batch.
\<close>

definition core :: "cached_request_state \<Rightarrow> cached_request_state" where
  "core c = c\<lparr>crs_generator := None\<rparr>"

definition advance :: "running_request_data \<Rightarrow> cached_request_state \<Rightarrow> cached_request_state" where
  "advance d c = c\<lparr>crs_num_computed_tokens := rrd_num_computed_tokens d,
     crs_block_ids := crs_block_ids c @ rrd_new_block_ids d\<rparr>"

definition resume :: "resumed_request_data \<Rightarrow> cached_request_state \<Rightarrow> cached_request_state" where
  "resume d c = c\<lparr>crs_block_ids := rsd_block_ids d, crs_num_computed_tokens := rsd_num_computed_tokens d\<rparr>"

definition fresh_state :: "new_request_msg \<Rightarrow> cached_request_state" where
  "fresh_state d =
     \<lparr>crs_req_id = nrd_req_id d, crs_prompt_token_ids = nrd_prompt_token_ids d, crs_prompt = nrd_prompt d,
      crs_mm_inputs = nrd_mm_inputs d, crs_mm_positions = nrd_mm_positions d, crs_sampling_params = nm_params d,
      crs_generator = None, crs_block_ids = nrd_block_ids d,
      crs_num_computed_tokens = nrd_num_computed_tokens d, crs_output_token_ids = []\<rparr>"

definition map_at :: "'k \<Rightarrow> ('c \<Rightarrow> 'c) \<Rightarrow> ('k \<rightharpoonup> 'c) \<Rightarrow> ('k \<rightharpoonup> 'c)" where
  "map_at k f m = m(k := map_option f (m k))"

definition spec_requests :: "scheduler_msg \<Rightarrow> (req_id \<rightharpoonup> cached_request_state) \<Rightarrow> (req_id \<rightharpoonup> cached_request_state)" where
  "spec_requests so m =
     fold (\<lambda>d. map_at (rsd_req_id d) (resume d)) (msg_resumed so)
       (fold (\<lambda>d m. m(nrd_req_id d \<mapsto> fresh_state d)) (msg_new so)
         (fold (\<lambda>d. map_at (rrd_req_id d) (advance d)) (msg_running so)
           (m |` (- msg_finished so))))"

definition added_ids :: "scheduler_msg \<Rightarrow> req_id list" where
  "added_ids so = map nrd_req_id (msg_new so) @ map rsd_req_id (msg_resumed so)"

definition spec_ids :: "scheduler_msg \<Rightarrow> req_id set \<Rightarrow> req_id set" where
  "spec_ids so ids = (ids - (msg_preempted so \<union> msg_finished so)) \<union> set (added_ids so)"

definition abs_requests :: "model_runner \<Rightarrow> req_id \<rightharpoonup> cached_request_state" where
  "abs_requests r rid = map_option core (mr_requests r rid)"

text \<open>
  What the runner relies on: running requests are in the batch and not stopped, new and resumed ones
  are not, resumed ones are known, and everything fits the arrays.
\<close>

definition msg_ok :: "scheduler_msg \<Rightarrow> model_runner \<Rightarrow> bool" where
  "msg_ok so r \<longleftrightarrow>
     (let b = mr_batch r; kept = batch_ids b - (msg_preempted so \<union> msg_finished so) in
      distinct (map rrd_req_id (msg_running so)) \<and> rrd_req_id ` set (msg_running so) \<subseteq> kept
      \<and> distinct (added_ids so) \<and> set (added_ids so) \<inter> kept = {}
      \<and> (\<forall>d \<in> set (msg_resumed so). mr_requests r (rsd_req_id d) \<noteq> None \<and> rsd_req_id d \<notin> msg_finished so)
      \<and> card kept + length (added_ids so) \<le> ib_max_num_reqs b
      \<and> (\<forall>d \<in> set (msg_new so). length (nrd_prompt_token_ids d) \<le> ib_max_model_len b
           \<and> length (nrd_block_ids d) \<le> ib_max_num_blocks_per_req b)
      \<and> (\<forall>d \<in> set (msg_resumed so). length (rsd_block_ids d) \<le> ib_max_num_blocks_per_req b)
      \<and> (\<forall>d \<in> set (msg_running so). length (crs_block_ids (the (mr_requests r (rrd_req_id d))))
           + length (rrd_new_block_ids d) \<le> ib_max_num_blocks_per_req b))"

section \<open>Running requests\<close>

text \<open>The row of a running request after \<open>_update_states\<close>: \<open>bs\<close> is the new block row.\<close>

definition touch_row :: "nat \<Rightarrow> int \<Rightarrow> nat list \<Rightarrow> input_batch \<Rightarrow> input_batch" where
  "touch_row i n bs b = b\<lparr>num_computed_tokens_cpu := (num_computed_tokens_cpu b)[i := n],
     block_table_cpu := (block_table_cpu b)[i := bs]\<rparr>"

lemma touch_row_simps [simp]:
  "ib_req_ids (touch_row i n bs b) = ib_req_ids b" "ib_req_id_to_index (touch_row i n bs b) = ib_req_id_to_index b"
  "batch_ids (touch_row i n bs b) = batch_ids b" "occupied (touch_row i n bs b) = occupied b"
  "num_reqs (touch_row i n bs b) = num_reqs b" "same_limits b (touch_row i n bs b)"
  "ib_max_num_reqs (touch_row i n bs b) = ib_max_num_reqs b"
  "ib_max_model_len (touch_row i n bs b) = ib_max_model_len b"
  "ib_max_num_blocks_per_req (touch_row i n bs b) = ib_max_num_blocks_per_req b"
  by (simp_all add: touch_row_def batch_ids_def occupied_def num_reqs_def same_limits_def)

lemma batch_ok_touch_row:
  assumes "batch_ok b" "i < ib_max_num_reqs b" "length bs = ib_max_num_blocks_per_req b"
  shows "batch_ok (touch_row i n bs b)"
proof -
  have "batch_shape (touch_row i n bs b)"
    using batch_okD(1) [OF assms(1)] assms(2,3) unfolding batch_shape_def
    by (elim conjE, intro conjI allI impI) (simp_all add: touch_row_def nth_list_update)
  moreover have "indexed (touch_row i n bs b)"
    using batch_okD(2) [OF assms(1)] by (simp add: indexed_def)
  moreover have "no_leftovers (touch_row i n bs b)"
    using batch_okD(3) [OF assms(1)] unfolding no_leftovers_def touch_row_simps by (simp add: touch_row_def)
  ultimately show ?thesis by (simp add: batch_ok_def)
qed

lemma batch_view_touch_row:
  assumes "batch_ok b" "map_of (ib_req_id_to_index b) rid = Some i"
  shows "batch_view (touch_row i n bs b) = (batch_view b)(rid \<mapsto>
    (entry_at b rid i)\<lparr>e_num_computed := n, e_blocks := bs\<rparr>)"
proof
  fix r
  note ix = batch_okD(2) [OF assms(1)]
  have i: "i < ib_max_num_reqs b" using assms(2) indexedD(2) [OF ix] shape_length [OF batch_okD(1) [OF assms(1)]] by simp
  show "batch_view (touch_row i n bs b) r = ((batch_view b)(rid \<mapsto> (entry_at b rid i)\<lparr>e_num_computed := n, e_blocks := bs\<rparr>)) r"
  proof (cases "r = rid")
    case True
    then show ?thesis
      using assms(2) i shape_lengths [OF batch_okD(1) [OF assms(1)]]
      by (simp add: batch_view_def entry_at_def touch_row_def)
  next
    case False
    then have "j \<noteq> i" if "map_of (ib_req_id_to_index b) r = Some j" for j
      using that assms(2) by (auto simp: indexedD(2) [OF ix])
    moreover have "entry_at (touch_row i n bs b) r j = entry_at b r j" if "j \<noteq> i" for j
      using that by (simp add: entry_at_def touch_row_def)
    ultimately show ?thesis
      using False by (cases "map_of (ib_req_id_to_index b) r") (simp_all add: batch_view_def)
  qed
qed


lemma holds_advance:
  assumes "holds v c" "take (length (crs_block_ids c) + length (rrd_new_block_ids d)) bs = crs_block_ids c @ rrd_new_block_ids d"
  shows "holds (v\<lparr>e_num_computed := rrd_num_computed_tokens d, e_blocks := bs\<rparr>) (advance d c)"
  using assms by (simp add: holds_def Let_def advance_def)

text \<open>Changing the data of a known request, its sampling parameters and generator apart.\<close>

lemma gens_ok_update:
  assumes "gens_ok r" "mr_requests r rid = Some c" "crs_generator c' = crs_generator c"
    "crs_sampling_params c' = crs_sampling_params c"
  shows "gens_ok (r\<lparr>mr_requests := (mr_requests r)(rid \<mapsto> c'), mr_batch := b\<rparr>)"
proof (rule gens_okI)
  let ?r = "r\<lparr>mr_requests := (mr_requests r)(rid \<mapsto> c'), mr_batch := b\<rparr>"
  have old: "\<exists>e. mr_requests r k = Some e \<and> crs_generator d = crs_generator e
      \<and> crs_sampling_params d = crs_sampling_params e" if "mr_requests ?r k = Some d" for k d
    using that assms by (cases "k = rid") auto
  show "gen_ok ?r d" if "mr_requests ?r k = Some d" for k d
    using old [OF that] gens_okD(1) [OF assms(1)] by (fastforce simp: gen_ok_def split: option.splits)
  show "k = k'" if "mr_requests ?r k = Some d" "mr_requests ?r k' = Some d'"
    "crs_generator d = Some g" "crs_generator d' = Some g" for k k' d d' g
    using old [OF that(1)] old [OF that(2)] that(3,4) gens_okD(2) [OF assms(1)] by metis
qed

lemma runner_mid_update:
  assumes mid: "runner_mid r" and c: "mr_requests r rid = Some c"
    and b: "batch_ok b" "same_limits (mr_batch r) b" "\<And>k. k \<noteq> rid \<Longrightarrow> batch_view b k = batch_view (mr_batch r) k"
    and v: "\<And>v. batch_view b rid = Some v \<Longrightarrow> holds v c'"
    and c': "crs_req_id c' = rid" "crs_generator c' = crs_generator c" "crs_sampling_params c' = crs_sampling_params c"
      "length (crs_prompt_token_ids c') + length (crs_output_token_ids c') \<le> ib_max_model_len (mr_batch r)"
  shows "runner_mid (r\<lparr>mr_requests := (mr_requests r)(rid \<mapsto> c'), mr_batch := b\<rparr>)"
proof -
  note m = runner_midD [OF mid]
  have "entries_match (r\<lparr>mr_requests := (mr_requests r)(rid \<mapsto> c'), mr_batch := b\<rparr>)"
    unfolding entries_match_def using m(2) b(3) v by (auto simp: entries_match_def)
  moreover have "states_ok (r\<lparr>mr_requests := (mr_requests r)(rid \<mapsto> c'), mr_batch := b\<rparr>)"
    using m(3) b(2) c' by (simp add: states_ok_def same_limits_def)
  ultimately show ?thesis
    using m b(1,2) gens_ok_update [OF m(4) c c'(2,3)] by (simp add: runner_mid_def same_limits_def)
qed

lemma update_running_ok:
  assumes mid: "runner_mid r" and rid: "rrd_req_id d \<in> batch_ids (mr_batch r)"
    and len: "length (crs_block_ids (the (mr_requests r (rrd_req_id d)))) + length (rrd_new_block_ids d)
      \<le> ib_max_num_blocks_per_req (mr_batch r)"
  obtains b where "batch_ok b" "same_limits (mr_batch r) b" "batch_ids b = batch_ids (mr_batch r)"
    "occupied b = occupied (mr_batch r)"
    "update_running d r = Inr (r\<lparr>mr_requests := map_at (rrd_req_id d) (advance d) (mr_requests r), mr_batch := b\<rparr>)"
    "runner_mid (r\<lparr>mr_requests := map_at (rrd_req_id d) (advance d) (mr_requests r), mr_batch := b\<rparr>)"
proof -
  note m = runner_midD [OF mid]
  let ?rid = "rrd_req_id d" and ?b = "mr_batch r"
  obtain i where i: "map_of (ib_req_id_to_index ?b) ?rid = Some i" using rid not_in_batch by blast
  then obtain c where c: "mr_requests r ?rid = Some c" "holds (entry_at ?b ?rid i) c"
    using entries_matchD [OF m(2), of ?rid] by (auto simp: batch_view_def)
  have iN: "i < ib_max_num_reqs ?b"
    using i indexedD(2) [OF batch_okD(2) [OF m(1)]] shape_length [OF batch_okD(1) [OF m(1)]] by simp
  let ?k = "length (crs_block_ids c)"
  define bs where "bs = take ?k (block_table_cpu ?b ! i) @ rrd_new_block_ids d @ drop (?k + length (rrd_new_block_ids d)) (block_table_cpu ?b ! i)"
  note row = shape_lengths(15) [OF batch_okD(1) [OF m(1)] iN]
  have slice: "np_set_slice (block_table_cpu ?b ! i) ?k (rrd_new_block_ids d) = Inr bs"
    using len c(1) row by (simp add: np_set_slice_fits bs_def)
  have "length bs = ib_max_num_blocks_per_req ?b" using np_set_slice_length [OF slice] row by simp
  then have ok: "batch_ok (touch_row i (rrd_num_computed_tokens d) bs ?b)"
    by (rule batch_ok_touch_row [OF m(1) iN])
  have blocks: "take ?k (block_table_cpu ?b ! i) = crs_block_ids c"
    using c(2) by (simp add: holds_def Let_def entry_at_def)
  have "holds ((entry_at ?b ?rid i)\<lparr>e_num_computed := rrd_num_computed_tokens d, e_blocks := bs\<rparr>) (advance d c)"
    by (rule holds_advance [OF c(2)]) (simp add: bs_def blocks)
  moreover note batch_view_touch_row [OF m(1) i]
  moreover have "crs_req_id c = ?rid" "length (crs_prompt_token_ids c) + length (crs_output_token_ids c) \<le> ib_max_model_len ?b"
    using m(3) c(1) by (simp_all add: states_ok_def)
  ultimately have mid': "runner_mid (r\<lparr>mr_requests := (mr_requests r)(?rid \<mapsto> advance d c),
      mr_batch := touch_row i (rrd_num_computed_tokens d) bs ?b\<rparr>)"
    by (intro runner_mid_update [OF mid c(1) ok]) (simp_all add: advance_def)
  have upd: "update_running d r = Inr (r\<lparr>mr_requests := (mr_requests r)(?rid \<mapsto> advance d c),
      mr_batch := touch_row i (rrd_num_computed_tokens d) bs ?b\<rparr>)"
    using c(1) i slice by (simp add: update_running_def advance_def touch_row_def Let_def np_set_slice_fits bs_def)
  show ?thesis
    using that [OF ok] upd mid' c(1) by (simp add: map_at_def)
qed


definition runner_config :: "model_runner \<Rightarrow> int \<times> nat \<times> nat \<times> bool" where
  "runner_config r = (mr_block_size r, mr_max_num_tokens r, mr_arange_len r, mr_is_multimodal r)"

lemma core_simps [simp]:
  "core (advance d c) = advance d (core c)" "core (resume e c) = resume e (core c)"
  by (simp_all add: core_def advance_def resume_def)

lemma abs_requests_map_at:
  assumes "\<And>c. core (f c) = f (core c)"
  shows "abs_requests (r\<lparr>mr_requests := map_at k f (mr_requests r), mr_batch := b\<rparr>) = map_at k f (abs_requests r)"
  by (rule ext) (simp add: abs_requests_def map_at_def option.map_comp comp_def assms)

lemma update_running_all:
  assumes "runner_mid r" "distinct (map rrd_req_id ds)" "rrd_req_id ` set ds \<subseteq> batch_ids (mr_batch r)"
    "\<And>d. d \<in> set ds \<Longrightarrow> length (crs_block_ids (the (mr_requests r (rrd_req_id d)))) + length (rrd_new_block_ids d)
      \<le> ib_max_num_blocks_per_req (mr_batch r)"
  shows "\<exists>r'. fold_result update_running ds r = Inr r' \<and> runner_mid r' \<and> same_limits (mr_batch r) (mr_batch r')
    \<and> batch_ids (mr_batch r') = batch_ids (mr_batch r) \<and> occupied (mr_batch r') = occupied (mr_batch r)
    \<and> abs_requests r' = fold (\<lambda>d. map_at (rrd_req_id d) (advance d)) ds (abs_requests r)
    \<and> runner_config r' = runner_config r"
  using assms
proof (induction ds arbitrary: r)
  case (Cons d ds)
  obtain b where b: "batch_ok b" "same_limits (mr_batch r) b" "batch_ids b = batch_ids (mr_batch r)"
    "occupied b = occupied (mr_batch r)"
    "update_running d r = Inr (r\<lparr>mr_requests := map_at (rrd_req_id d) (advance d) (mr_requests r), mr_batch := b\<rparr>)"
    "runner_mid (r\<lparr>mr_requests := map_at (rrd_req_id d) (advance d) (mr_requests r), mr_batch := b\<rparr>)"
    by (rule update_running_ok [OF Cons.prems(1), of d]) (use Cons.prems(3,4) in auto)
  let ?r = "r\<lparr>mr_requests := map_at (rrd_req_id d) (advance d) (mr_requests r), mr_batch := b\<rparr>"
  have len: "length (crs_block_ids (the (mr_requests ?r (rrd_req_id e)))) + length (rrd_new_block_ids e)
      \<le> ib_max_num_blocks_per_req (mr_batch ?r)" if "e \<in> set ds" for e
  proof -
    have "rrd_req_id e \<noteq> rrd_req_id d" using Cons.prems(2) imageI [OF that, of rrd_req_id] by auto
    with Cons.prems(4) [of e] that b(2) show ?thesis by (simp add: map_at_def same_limits_def)
  qed
  have "distinct (map rrd_req_id ds)" "rrd_req_id ` set ds \<subseteq> batch_ids (mr_batch ?r)"
    using Cons.prems(2,3) b(3) by auto
  from Cons.IH [OF b(6) this len] obtain r' where
    "fold_result update_running ds ?r = Inr r'" "runner_mid r'" "same_limits b (mr_batch r')"
    "batch_ids (mr_batch r') = batch_ids b" "occupied (mr_batch r') = occupied b"
    "abs_requests r' = fold (\<lambda>d. map_at (rrd_req_id d) (advance d)) ds (abs_requests ?r)"
    "runner_config r' = runner_config ?r"
    by auto
  with b show ?case
    by (intro exI [of _ r']) (auto simp: abs_requests_map_at runner_config_def intro: same_limits_trans)
qed simp

section \<open>New and resumed requests\<close>

lemma add_new_state_simps [simp]:
  "mr_batch (add_new_state d r) = mr_batch r"
  "runner_config (add_new_state d r) = runner_config r"
  "mr_max_num_blocks_per_req (add_new_state d r) = mr_max_num_blocks_per_req r"
  "mr_arange_len (add_new_state d r) = mr_arange_len r"
  by (simp_all add: add_new_state_def Let_def runner_config_def)

lemma mr_requests_add_new_state:
  "mr_requests (add_new_state d r) = (mr_requests r)(nrd_req_id d \<mapsto> (fresh_state d)\<lparr>crs_generator :=
     (if sampling_type_of (nm_params d) = RANDOM_SEED then Some (mr_next_gen r) else None)\<rparr>)"
  by (simp add: add_new_state_def Let_def fresh_state_def)

lemma abs_requests_add_new_state:
  "abs_requests (add_new_state d r) = (abs_requests r)(nrd_req_id d \<mapsto> fresh_state d)"
  by (rule ext) (simp add: abs_requests_def mr_requests_add_new_state core_def fresh_state_def)

lemma add_new_state_gens:
  "mr_next_gen (add_new_state d r) = (if sampling_type_of (nm_params d) = RANDOM_SEED then Suc (mr_next_gen r) else mr_next_gen r)"
  "g < mr_next_gen r \<Longrightarrow> mr_gens (add_new_state d r) g = mr_gens r g"
  "sampling_type_of (nm_params d) = RANDOM_SEED \<Longrightarrow>
   p_seed (nm_params d) = Some (gen_seed (mr_gens (add_new_state d r) (mr_next_gen r)))"
  by (auto simp: add_new_state_def Let_def sampling_type_of_def split: if_splits)

lemma gens_ok_add_new_state:
  assumes "gens_ok r"
  shows "gens_ok (add_new_state d r)"
proof (rule gens_okI)
  let ?r = "add_new_state d r"
  have old: "gen_ok r c \<Longrightarrow> gen_ok ?r c" for c
    by (auto simp: gen_ok_def add_new_state_gens split: option.splits)
  show "gen_ok ?r c" if "mr_requests ?r k = Some c" for k c
  proof (cases "k = nrd_req_id d")
    case True
    with that show ?thesis
      by (auto simp: mr_requests_add_new_state gen_ok_def fresh_state_def add_new_state_gens)
  next
    case False
    with that old gens_okD(1) [OF assms] show ?thesis by (simp add: mr_requests_add_new_state)
  qed
  have below: "g < mr_next_gen r" if "mr_requests r k = Some c" "crs_generator c = Some g" for k c g
    using gens_okD(1) [OF assms that(1)] that(2) by (simp add: gen_ok_def)
  show "k = k'" if "mr_requests ?r k = Some c" "mr_requests ?r k' = Some c'"
    "crs_generator c = Some g" "crs_generator c' = Some g" for k k' c c' g
    using that below gens_okD(2) [OF assms] unfolding mr_requests_add_new_state
    by (cases "k = nrd_req_id d"; cases "k' = nrd_req_id d") (force split: if_splits)+
qed

lemma runner_mid_add_new_state:
  assumes "runner_mid r" "nrd_req_id d \<notin> batch_ids (mr_batch r)"
    "length (nrd_prompt_token_ids d) \<le> ib_max_model_len (mr_batch r)"
  shows "runner_mid (add_new_state d r)"
proof -
  note m = runner_midD [OF assms(1)]
  have "entries_match (add_new_state d r)"
    unfolding entries_match_def
  proof (intro allI impI)
    fix k v assume v: "batch_view (mr_batch (add_new_state d r)) k = Some v"
    then have "k \<in> batch_ids (mr_batch r)" by (metis add_new_state_simps(1) dom_batch_view domI)
    with assms(2) have "k \<noteq> nrd_req_id d" by blast
    with v entries_matchD [OF m(2)] show "\<exists>c. mr_requests (add_new_state d r) k = Some c \<and> holds v c"
      by (simp add: mr_requests_add_new_state)
  qed
  moreover have "states_ok (add_new_state d r)"
    using m(3) assms(3) by (simp add: states_ok_def mr_requests_add_new_state fresh_state_def)
  ultimately show ?thesis
    using m gens_ok_add_new_state by (simp add: runner_mid_def)
qed

lemma add_new_states_all:
  assumes "runner_mid r" "nrd_req_id ` set ds \<inter> batch_ids (mr_batch r) = {}"
    "\<And>d. d \<in> set ds \<Longrightarrow> length (nrd_prompt_token_ids d) \<le> ib_max_model_len (mr_batch r)"
  shows "runner_mid (fold add_new_state ds r) \<and> mr_batch (fold add_new_state ds r) = mr_batch r
    \<and> abs_requests (fold add_new_state ds r) = fold (\<lambda>d m. m(nrd_req_id d \<mapsto> fresh_state d)) ds (abs_requests r)
    \<and> runner_config (fold add_new_state ds r) = runner_config r"
  using assms
proof (induction ds arbitrary: r)
  case (Cons d ds)
  then show ?case
    using Cons.IH [of "add_new_state d r"] runner_mid_add_new_state [of r d]
    by (simp add: abs_requests_add_new_state)
qed simp

lemma update_resumed_all:
  assumes "runner_mid r" "rsd_req_id ` set ds \<inter> batch_ids (mr_batch r) = {}" "rsd_req_id ` set ds \<subseteq> dom (mr_requests r)"
  shows "\<exists>r'. fold_result update_resumed ds r = Inr r' \<and> runner_mid r' \<and> mr_batch r' = mr_batch r
    \<and> abs_requests r' = fold (\<lambda>d. map_at (rsd_req_id d) (resume d)) ds (abs_requests r)
    \<and> runner_config r' = runner_config r"
  using assms
proof (induction ds arbitrary: r)
  case (Cons d ds)
  note m = runner_midD [OF Cons.prems(1)]
  let ?r = "r\<lparr>mr_requests := map_at (rsd_req_id d) (resume d) (mr_requests r), mr_batch := mr_batch r\<rparr>"
  obtain c where c: "mr_requests r (rsd_req_id d) = Some c" using Cons.prems(3) by auto
  then have upd: "update_resumed d r = Inr ?r"
    by (simp add: update_resumed_def map_at_def resume_def)
  have "batch_view (mr_batch r) (rsd_req_id d) = None"
    using Cons.prems(2) by (metis Int_iff domIff dom_batch_view empty_iff image_eqI list.set_intros(1))
  then have mid: "runner_mid ?r"
    using runner_mid_update [OF Cons.prems(1) c m(1), of "resume d c"] m(3) c
    by (simp add: map_at_def resume_def states_ok_def)
  have "rsd_req_id ` set ds \<inter> batch_ids (mr_batch ?r) = {}" "rsd_req_id ` set ds \<subseteq> dom (mr_requests ?r)"
    using Cons.prems(2,3) by (auto simp: map_at_def)
  from Cons.IH [OF mid this] obtain r' where "fold_result update_resumed ds ?r = Inr r'" "runner_mid r'"
    "mr_batch r' = mr_batch ?r" "abs_requests r' = fold (\<lambda>d. map_at (rsd_req_id d) (resume d)) ds (abs_requests ?r)"
    "runner_config r' = runner_config ?r" by blast
  moreover have "abs_requests ?r = map_at (rsd_req_id d) (resume d) (abs_requests r)"
    by (rule abs_requests_map_at) simp
  ultimately show ?case using upd by (simp add: runner_config_def)
qed simp


section \<open>The whole update\<close>

lemma fold_map_at_other:
  "k \<notin> key ` set ds \<Longrightarrow> fold (\<lambda>d. map_at (key d) (f d)) ds m k = m k"
  by (induction ds arbitrary: m) (auto simp: map_at_def)

lemma fold_map_at_hit:
  "distinct (map key ds) \<Longrightarrow> d \<in> set ds \<Longrightarrow>
   fold (\<lambda>d. map_at (key d) (f d)) ds m (key d) = map_option (f d) (m (key d))"
proof (induction ds arbitrary: m)
  case (Cons e ds)
  show ?case
  proof (cases "d = e")
    case True
    with Cons.prems fold_map_at_other [of "key e" key ds f "map_at (key e) (f e) m"]
    show ?thesis by (simp add: map_at_def [of "key e"])
  next
    case False
    then have "d \<in> set ds" "key e \<notin> key ` set ds" using Cons.prems by simp_all
    then have "key d \<noteq> key e" by (metis image_eqI)
    with False Cons show ?thesis by (simp add: map_at_def [of "key e"])
  qed
qed simp

lemma fold_upd_other: "k \<notin> key ` set ds \<Longrightarrow> fold (\<lambda>d m. m(key d \<mapsto> f d)) ds m k = m k"
  by (induction ds arbitrary: m) auto

lemma fold_upd_hit:
  "distinct (map key ds) \<Longrightarrow> d \<in> set ds \<Longrightarrow> fold (\<lambda>d m. m(key d \<mapsto> f d)) ds m (key d) = Some (f d)"
proof (induction ds arbitrary: m)
  case (Cons e ds)
  then show ?case
    using fold_upd_other [of "key e" key ds f "m(key e \<mapsto> f e)"]
    by (cases "d = e") (simp_all del: fun_upd_apply, simp)
qed simp

lemma dom_abs_requests [simp]: "dom (abs_requests r) = dom (mr_requests r)"
  by (auto simp: abs_requests_def)

lemma dom_fold_map_at [simp]: "dom (fold (\<lambda>d. map_at (key d) (f d)) ds m) = dom m"
proof (induction ds arbitrary: m)
  case (Cons d ds)
  have "dom (map_at (key d) (f d) m) = dom m" by (auto simp: map_at_def)
  with Cons show ?case by simp
qed simp

lemma dom_fold_upd: "dom (fold (\<lambda>d m. m(key d \<mapsto> f d)) ds m) = dom m \<union> key ` set ds"
  by (induction ds arbitrary: m) auto

text \<open>A request that joins the batch is new or was known.\<close>

lemma spec_requests_added:
  assumes "distinct (added_ids so)" "k \<in> set (added_ids so)" "spec_requests so m k = Some c"
  shows "(\<exists>d \<in> set (msg_new so). crs_block_ids c = nrd_block_ids d) \<or> (\<exists>d \<in> set (msg_resumed so). crs_block_ids c = rsd_block_ids d)"
proof -
  have dist: "distinct (map nrd_req_id (msg_new so))" "distinct (map rsd_req_id (msg_resumed so))"
    "nrd_req_id ` set (msg_new so) \<inter> rsd_req_id ` set (msg_resumed so) = {}"
    using assms(1) by (simp_all add: added_ids_def)
  show ?thesis
  proof (cases "k \<in> rsd_req_id ` set (msg_resumed so)")
    case True
    then obtain d where d: "d \<in> set (msg_resumed so)" "k = rsd_req_id d" by blast
    with assms(3) have "crs_block_ids c = rsd_block_ids d"
      unfolding spec_requests_def d(2) fold_map_at_hit [OF dist(2) d(1), where f = resume] by (auto simp: resume_def)
    with d(1) show ?thesis by blast
  next
    case False
    with assms(2) obtain d where d: "d \<in> set (msg_new so)" "k = nrd_req_id d" by (auto simp: added_ids_def)
    have "spec_requests so m k = Some (fresh_state d)"
      unfolding d(2) spec_requests_def fold_map_at_other [OF False [unfolded d(2)]] by (rule fold_upd_hit [OF dist(1) d(1)])
    with assms(3) d(1) show ?thesis by (auto simp: fresh_state_def)
  qed
qed

lemma gens_ok_restrict:
  assumes "gens_ok r" "mr_gens r' = mr_gens r" "mr_next_gen r' = mr_next_gen r" "mr_requests r' \<subseteq>\<^sub>m mr_requests r"
  shows "gens_ok r'"
proof (rule gens_okI)
  have sub: "mr_requests r k = Some c" if "mr_requests r' k = Some c" for k c
    using that assms(4) by (metis domI map_le_def)
  show "gen_ok r' c" if "mr_requests r' k = Some c" for k c
    using gens_okD(1) [OF assms(1) sub [OF that]] assms(2,3) by (simp add: gen_ok_def split: option.splits)
  show "k = k'" if "mr_requests r' k = Some c" "mr_requests r' k' = Some c'"
    "crs_generator c = Some g" "crs_generator c' = Some g" for k k' c c' g
    using gens_okD(2) [OF assms(1) sub [OF that(1)] sub [OF that(2)] that(3,4)] .
qed

lemma runner_mid_removed:
  assumes "runner_mid r" "batch_ok b" "same_limits (mr_batch r) b"
    "batch_view b = batch_view (mr_batch r) |` (- stopped)" "fin \<subseteq> stopped"
  shows "runner_mid ((drop_finished fin r)\<lparr>mr_encoder_cache := ec, mr_batch := b\<rparr>)" (is "runner_mid ?r")
proof -
  note m = runner_midD [OF assms(1)]
  have req: "mr_requests ?r = mr_requests r |` (- fin)"
    by (auto simp: drop_finished_def restrict_map_def fun_eq_iff)
  have "entries_match ?r"
    unfolding entries_match_def req using assms(4,5) entries_matchD [OF m(2)]
    by (auto simp: restrict_map_def split: if_splits)
  moreover have "states_ok ?r"
    using m(3) assms(3) unfolding states_ok_def req by (auto simp: restrict_map_def same_limits_def split: if_splits)
  moreover have "gens_ok ?r"
    using m(4) by (rule gens_ok_restrict) (auto simp: drop_finished_def map_le_def split: if_splits)
  ultimately show ?thesis
    using m assms(2,3) by (simp add: runner_mid_def drop_finished_def same_limits_def)
qed


lemma refill_batch_ok:
  assumes mid: "runner_mid r" and gaps: "distinct removed"
      "occupied (mr_batch r) = {..<num_reqs (mr_batch r) + length removed} - set removed"
      "num_reqs (mr_batch r) + length removed \<le> ib_max_num_reqs (mr_batch r)"
    and ks: "distinct ks" "set ks \<inter> batch_ids (mr_batch r) = {}" "num_reqs (mr_batch r) + length ks \<le> ib_max_num_reqs (mr_batch r)"
      "\<And>k. k \<in> set ks \<Longrightarrow> \<exists>c. mr_requests r k = Some c \<and> length (crs_block_ids c) \<le> ib_max_num_blocks_per_req (mr_batch r)"
  obtains r' where "refill_batch ks removed r = Inr r'" "runner_inv r'" "mr_requests r' = mr_requests r"
    "batch_ids (mr_batch r') = batch_ids (mr_batch r) \<union> set ks" "same_limits (mr_batch r) (mr_batch r')"
    "runner_config r' = runner_config r"
proof -
  note m = runner_midD [OF mid]
  let ?b = "mr_batch r"
  have card: "card (occupied ?b) = num_reqs ?b" using batch_okD(2) [OF m(1)] by (rule card_occupied)
  have st: "\<exists>c. mr_requests r k = Some c \<and> crs_req_id c = k \<and> fits_row ?b c" if "k \<in> set ks" for k
    using ks(4) [OF that] m(3) by (force simp: states_ok_def fits_row_def)
  from bt.refill_spec [OF m(1) gaps(1), of ks "mr_requests r", unfolded card dom_batch_view, OF gaps(2,3) ks(3,1,2) st]
  obtain es t u where u: "add_loop batch_add_request (mr_requests r) ks (rev (sort removed)) ?b = Inr (es, t)"
    "(if es \<noteq> [] then condense es t else Inr t) = Inr u" "batch_ok u" "same_limits ?b u"
    "occupied u = {..<card (occupied u)}"
    "\<forall>k \<in> set ks. \<exists>v. batch_view u k = Some v \<and> holds v (the (mr_requests r k))"
    "\<forall>k. k \<notin> set ks \<longrightarrow> batch_view u k = batch_view ?b k"
    by blast
  let ?r = "r\<lparr>mr_batch := u\<rparr>"
  have "entries_match ?r"
    unfolding entries_match_def
  proof (intro allI impI)
    fix k v assume "batch_view (mr_batch ?r) k = Some v"
    then show "\<exists>c. mr_requests ?r k = Some c \<and> holds v c"
      using u(6,7) entries_matchD [OF m(2), of k v] st [of k] by (cases "k \<in> set ks") force+
  qed
  moreover have "gens_ok ?r" using m(4) by (rule gens_ok_restrict) simp_all
  ultimately have "runner_inv ?r"
    using m u(3-5) card_occupied [OF batch_okD(2) [OF u(3)]]
    by (simp add: runner_inv_def runner_mid_def states_ok_def same_limits_def)
  moreover have "refill_batch ks removed r = Inr ?r" using u(1,2) by (simp add: refill_batch_def)
  moreover have "batch_ids u = batch_ids ?b \<union> set ks"
  proof (rule set_eqI)
    fix k
    have "(\<exists>v. batch_view u k = Some v) \<longleftrightarrow> k \<in> set ks \<or> (\<exists>v. batch_view ?b k = Some v)"
      using u(6,7) by (cases "k \<in> set ks") auto
    then show "k \<in> batch_ids u \<longleftrightarrow> k \<in> batch_ids ?b \<union> set ks"
      unfolding dom_batch_view [symmetric] dom_def by auto
  qed
  ultimately show ?thesis using that u(4) by (simp add: runner_config_def)
qed

definition after_removal :: "scheduler_msg \<Rightarrow> input_batch \<Rightarrow> model_runner \<Rightarrow> model_runner" where
  "after_removal so b r = (drop_finished (msg_finished so) r)\<lparr>mr_encoder_cache :=
     fold free_encoder_output (msg_free_encoder so) (mr_encoder_cache (drop_finished (msg_finished so) r)), mr_batch := b\<rparr>"

lemma after_removal_simps [simp]:
  "mr_batch (after_removal so b r) = b" "runner_config (after_removal so b r) = runner_config r"
  "mr_requests (after_removal so b r) = mr_requests r |` (- msg_finished so)"
  by (auto simp: after_removal_def drop_finished_def runner_config_def restrict_map_def fun_eq_iff)

lemma num_reqs_bound:
  assumes "batch_ok b" "occupied b = {..<num_reqs b}"
  shows "num_reqs b \<le> ib_max_num_reqs b"
proof (rule ccontr)
  assume "\<not> num_reqs b \<le> ib_max_num_reqs b"
  then have "ib_max_num_reqs b \<in> occupied b" using assms(2) by simp
  then show False using occupied_bound shape_length [OF batch_okD(1) [OF assms(1)]] by fastforce
qed

lemma removal_phase:
  assumes "runner_inv r" "set ks = msg_preempted so \<union> msg_finished so"
  obtains removed b where "remove_loop batch_remove_request ks [] (mr_batch r) = (removed, b)"
    "runner_mid (after_removal so b r)" "same_limits (mr_batch r) b" "distinct removed"
    "batch_ids b = batch_ids (mr_batch r) - (msg_preempted so \<union> msg_finished so)"
    "occupied b = {..<num_reqs b + length removed} - set removed" "num_reqs b + length removed \<le> ib_max_num_reqs b"
proof -
  let ?b = "mr_batch r"
  have mid: "runner_mid r" and occ: "occupied ?b = {..<num_reqs ?b}" using assms(1) by (simp_all add: runner_inv_def)
  note ok = runner_midD(1) [OF mid]
  from bt.remove_loop_spec [OF ok, of ks "[]"] obtain removed b where
    b: "remove_loop batch_remove_request ks [] ?b = (removed, b)" "batch_ok b" "same_limits ?b b"
      "batch_view b = batch_view ?b |` (- (msg_preempted so \<union> msg_finished so))" "distinct removed"
      "set removed \<subseteq> occupied ?b" "occupied b = occupied ?b - set removed"
    unfolding assms(2) by auto
  have "runner_mid (after_removal so b r)"
    unfolding after_removal_def by (rule runner_mid_removed [OF mid b(2-4)]) simp
  moreover have "batch_ids b = batch_ids ?b - (msg_preempted so \<union> msg_finished so)"
    unfolding dom_batch_view [symmetric] b(4) by auto
  moreover have n: "num_reqs b + length removed = num_reqs ?b"
  proof -
    have "num_reqs b = num_reqs ?b - length removed"
      using card_occupied [OF batch_okD(2) [OF b(2)]] b(5-7) occ by (simp add: card_Diff_subset distinct_card)
    moreover have "length removed \<le> num_reqs ?b"
      using b(5,6) occ by (metis distinct_length_le_card)
    ultimately show ?thesis by simp
  qed
  moreover have "num_reqs ?b \<le> ib_max_num_reqs b"
    using num_reqs_bound [OF ok occ] b(3) by (simp add: same_limits_def)
  ultimately show ?thesis using that [OF b(1)] b(3,5,7) occ by simp
qed

lemma states_phase:
  assumes mid: "runner_mid r" and run: "distinct (map rrd_req_id (msg_running so))"
      "rrd_req_id ` set (msg_running so) \<subseteq> batch_ids (mr_batch r)"
      "\<And>d. d \<in> set (msg_running so) \<Longrightarrow> length (crs_block_ids (the (mr_requests r (rrd_req_id d))))
         + length (rrd_new_block_ids d) \<le> ib_max_num_blocks_per_req (mr_batch r)"
    and added: "set (added_ids so) \<inter> batch_ids (mr_batch r) = {}"
    and new: "\<And>d. d \<in> set (msg_new so) \<Longrightarrow> length (nrd_prompt_token_ids d) \<le> ib_max_model_len (mr_batch r)"
    and res: "rsd_req_id ` set (msg_resumed so) \<subseteq> dom (mr_requests r)"
  obtains r2 r4 where "fold_result update_running (msg_running so) r = Inr r2"
    "fold_result update_resumed (msg_resumed so) (fold add_new_state (msg_new so) r2) = Inr r4" "runner_mid r4"
    "same_limits (mr_batch r) (mr_batch r4)" "batch_ids (mr_batch r4) = batch_ids (mr_batch r)"
    "occupied (mr_batch r4) = occupied (mr_batch r)" "runner_config r4 = runner_config r"
    "abs_requests r4 = fold (\<lambda>d. map_at (rsd_req_id d) (resume d)) (msg_resumed so)
       (fold (\<lambda>d m. m(nrd_req_id d \<mapsto> fresh_state d)) (msg_new so)
         (fold (\<lambda>d. map_at (rrd_req_id d) (advance d)) (msg_running so) (abs_requests r)))"
proof -
  from update_running_all [OF mid run] obtain r2 where r2: "fold_result update_running (msg_running so) r = Inr r2"
    "runner_mid r2" "same_limits (mr_batch r) (mr_batch r2)" "batch_ids (mr_batch r2) = batch_ids (mr_batch r)"
    "occupied (mr_batch r2) = occupied (mr_batch r)" "runner_config r2 = runner_config r"
    "abs_requests r2 = fold (\<lambda>d. map_at (rrd_req_id d) (advance d)) (msg_running so) (abs_requests r)"
    by blast
  have disj: "nrd_req_id ` set (msg_new so) \<inter> batch_ids (mr_batch r2) = {}"
    "rsd_req_id ` set (msg_resumed so) \<inter> batch_ids (mr_batch r2) = {}"
    using added unfolding r2(4) added_ids_def by auto
  define r3 where "r3 = fold add_new_state (msg_new so) r2"
  have "length (nrd_prompt_token_ids d) \<le> ib_max_model_len (mr_batch r2)" if "d \<in> set (msg_new so)" for d
    using new [OF that] r2(3) by (simp add: same_limits_def)
  from add_new_states_all [OF r2(2) disj(1) this]
  have r3: "runner_mid r3" "mr_batch r3 = mr_batch r2" "runner_config r3 = runner_config r2"
    "abs_requests r3 = fold (\<lambda>d m. m(nrd_req_id d \<mapsto> fresh_state d)) (msg_new so) (abs_requests r2)"
    by (simp_all add: r3_def)
  have "rsd_req_id ` set (msg_resumed so) \<subseteq> dom (mr_requests r3)"
    using res unfolding dom_abs_requests [symmetric] r3(4) dom_fold_upd r2(7) dom_fold_map_at by blast
  from update_resumed_all [OF r3(1) _ this, unfolded r3(2), OF disj(2)] obtain r4 where
    "fold_result update_resumed (msg_resumed so) r3 = Inr r4" "runner_mid r4" "mr_batch r4 = mr_batch r2"
    "runner_config r4 = runner_config r3"
    "abs_requests r4 = fold (\<lambda>d. map_at (rsd_req_id d) (resume d)) (msg_resumed so) (abs_requests r3)"
    by blast
  then show ?thesis using that [of r2 r4] r2 r3(3,4) by (simp add: r3_def)
qed

lemma added_states_known:
  assumes "abs_requests r = spec_requests so m" "rsd_req_id ` set (msg_resumed so) \<subseteq> dom m - msg_finished so"
    "distinct (added_ids so)" "k \<in> set (added_ids so)"
    "\<forall>d \<in> set (msg_new so). length (nrd_block_ids d) \<le> K" "\<forall>d \<in> set (msg_resumed so). length (rsd_block_ids d) \<le> K"
  shows "\<exists>c. mr_requests r k = Some c \<and> length (crs_block_ids c) \<le> K"
proof -
  have "dom (spec_requests so m) = (dom m - msg_finished so) \<union> nrd_req_id ` set (msg_new so)"
    by (auto simp: spec_requests_def dom_fold_upd)
  with assms(2,4) have "k \<in> dom (mr_requests r)"
    unfolding dom_abs_requests [symmetric] assms(1) by (auto simp: added_ids_def)
  then obtain c where c: "mr_requests r k = Some c" by blast
  then have "spec_requests so m k = Some (core c)" by (simp add: assms(1) [symmetric] abs_requests_def)
  from spec_requests_added [OF assms(3,4) this] assms(5,6) have "length (crs_block_ids (core c)) \<le> K" by auto
  with c show ?thesis by (simp add: core_def)
qed

lemma update_states_ok:
  assumes inv: "runner_inv r" and msg: "msg_ok so r"
    and listed: "set (listed (msg_preempted so \<union> msg_finished so)) = msg_preempted so \<union> msg_finished so"
  obtains r' where "update_states listed so r = Inr r'" "runner_inv r'"
    "abs_requests r' = spec_requests so (abs_requests r)"
    "batch_ids (mr_batch r') = spec_ids so (batch_ids (mr_batch r))"
    "same_limits (mr_batch r) (mr_batch r')" "runner_config r' = runner_config r"
proof -
  let ?b = "mr_batch r"
  obtain removed b where
    b: "remove_loop batch_remove_request (listed (msg_preempted so \<union> msg_finished so)) [] ?b = (removed, b)"
      "runner_mid (after_removal so b r)" "same_limits ?b b" "distinct removed"
      "batch_ids b = batch_ids ?b - (msg_preempted so \<union> msg_finished so)"
      "occupied b = {..<num_reqs b + length removed} - set removed" "num_reqs b + length removed \<le> ib_max_num_reqs b"
    by (rule removal_phase [OF inv listed])
  note ok = msg [unfolded msg_ok_def Let_def, folded b(5)]
  have conf: "ib_max_num_reqs b = ib_max_num_reqs ?b" "ib_max_model_len b = ib_max_model_len ?b"
    "ib_max_num_blocks_per_req b = ib_max_num_blocks_per_req ?b"
    using b(3) by (simp_all add: same_limits_def)
  have len: "length (crs_block_ids (the (mr_requests (after_removal so b r) (rrd_req_id d)))) + length (rrd_new_block_ids d)
      \<le> ib_max_num_blocks_per_req b" if "d \<in> set (msg_running so)" for d
  proof -
    have "rrd_req_id d \<in> batch_ids b" using ok that by blast
    then show ?thesis using ok that conf by (simp add: b(5) restrict_map_def)
  qed
  have known: "rsd_req_id ` set (msg_resumed so) \<subseteq> dom (abs_requests r) - msg_finished so"
    using ok by auto
  then have res: "rsd_req_id ` set (msg_resumed so) \<subseteq> dom (mr_requests r |` (- msg_finished so))"
    by (simp add: Diff_eq)
  obtain r2 r4 where r4: "fold_result update_running (msg_running so) (after_removal so b r) = Inr r2"
    "fold_result update_resumed (msg_resumed so) (fold add_new_state (msg_new so) r2) = Inr r4" "runner_mid r4"
    "same_limits b (mr_batch r4)" "batch_ids (mr_batch r4) = batch_ids b" "occupied (mr_batch r4) = occupied b"
    "runner_config r4 = runner_config r"
    "abs_requests r4 = fold (\<lambda>d. map_at (rsd_req_id d) (resume d)) (msg_resumed so)
       (fold (\<lambda>d m. m(nrd_req_id d \<mapsto> fresh_state d)) (msg_new so)
         (fold (\<lambda>d. map_at (rrd_req_id d) (advance d)) (msg_running so) (abs_requests (after_removal so b r))))"
    by (rule states_phase [OF b(2), of so]) (use ok conf len res in simp_all)
  have "abs_requests (after_removal so b r) = abs_requests r |` (- msg_finished so)"
    by (rule ext) (simp add: abs_requests_def restrict_map_def)
  then have abs: "abs_requests r4 = spec_requests so (abs_requests r)" by (simp add: spec_requests_def r4(8))
  have n: "num_reqs (mr_batch r4) = num_reqs b" "num_reqs b = card (batch_ids b)"
    using r4(5) card_batch_ids [OF batch_okD(2) [OF runner_midD(1) [OF r4(3)]]]
      card_batch_ids [OF batch_okD(2) [OF runner_midD(1) [OF b(2)]]] by simp_all
  obtain r' where r': "refill_batch (added_ids so) removed r4 = Inr r'" "runner_inv r'" "mr_requests r' = mr_requests r4"
    "batch_ids (mr_batch r') = batch_ids (mr_batch r4) \<union> set (added_ids so)" "same_limits (mr_batch r4) (mr_batch r')"
    "runner_config r' = runner_config r4"
  proof (rule refill_batch_ok [OF r4(3) b(4), of "added_ids so"])
    show "occupied (mr_batch r4) = {..<num_reqs (mr_batch r4) + length removed} - set removed"
      "num_reqs (mr_batch r4) + length removed \<le> ib_max_num_reqs (mr_batch r4)"
      using b(6,7) r4(4) unfolding n(1) r4(6) by (simp_all add: same_limits_def)
    show "distinct (added_ids so)" "set (added_ids so) \<inter> batch_ids (mr_batch r4) = {}"
      "num_reqs (mr_batch r4) + length (added_ids so) \<le> ib_max_num_reqs (mr_batch r4)"
      using ok r4(4) conf unfolding n r4(5) by (simp_all add: same_limits_def)
    show "\<exists>c. mr_requests r4 k = Some c \<and> length (crs_block_ids c) \<le> ib_max_num_blocks_per_req (mr_batch r4)"
      if "k \<in> set (added_ids so)" for k
      by (rule added_states_known [OF abs known _ that]) (use ok r4(4) conf in \<open>simp_all add: same_limits_def\<close>)
  qed
  have "update_states listed so r = Inr r'"
    using b(1) r4(1,2) r'(1) by (simp add: update_states_def Let_def after_removal_def added_ids_def drop_finished_def)
  moreover have "abs_requests r' = spec_requests so (abs_requests r)"
    using abs r'(3) by (simp add: abs_requests_def fun_eq_iff)
  ultimately show ?thesis
    using that r' r4(4,5,7) b(3,5) by (metis same_limits_trans spec_ids_def)
qed

end
