(* ===== verification/RunnerSteps.thy ===== *)
theory RunnerSteps
  imports RunnerInv
begin

text \<open>
  What the runner computes from its state in a step: the flattened inputs of the model, the sampling
  metadata and the bookkeeping of sampled tokens, each against a description per request.
\<close>

section \<open>Flattened arrays\<close>

lemma zip_concat_map:
  "(\<And>x. x \<in> set xs \<Longrightarrow> length (f x) = length (g x)) \<Longrightarrow>
   zip (concat (map f xs)) (concat (map g xs)) = concat (map (\<lambda>x. zip (f x) (g x)) xs)"
  by (induction xs) simp_all

lemma nth_concat_uniform:
  "(\<And>r. r \<in> set rows \<Longrightarrow> length r = m) \<Longrightarrow> i < length rows \<Longrightarrow> p < m \<Longrightarrow> concat rows ! (i * m + p) = rows ! i ! p"
proof (induction rows arbitrary: i)
  case (Cons r rows)
  then show ?case by (cases i) (simp_all add: nth_append)
qed simp

lemma length_concat_uniform: "(\<And>r. r \<in> set rows \<Longrightarrow> length r = m) \<Longrightarrow> length (concat rows) = length rows * m"
  by (induction rows) simp_all

lemma flat_index_bound: "i < n \<Longrightarrow> p < m \<Longrightarrow> i * m + p < n * (m :: nat)"
proof -
  assume "i < n" "p < m"
  then have "Suc i * m \<le> n * m" by (intro mult_le_mono1) simp
  with \<open>p < m\<close> show ?thesis by simp
qed

lemma flat_nth:
  assumes "\<And>r. r \<in> set rows \<Longrightarrow> length r = m" "\<And>x. x \<in> set xs \<Longrightarrow> fst x < length rows \<and> snd x < m" "(i, p) \<in> set xs"
  shows "i * m + p < length (concat rows)" "concat rows ! (i * m + p) = rows ! i ! p"
  using assms(2) [OF assms(3)] flat_index_bound [of i "length rows" p m] nth_concat_uniform [OF assms(1), of rows i p]
    length_concat_uniform [OF assms(1), of rows] by simp_all

lemma index_select_concat:
  assumes "\<And>r. r \<in> set rows \<Longrightarrow> length r = m" "\<And>x. x \<in> set xs \<Longrightarrow> fst x < length rows \<and> snd x < m"
  shows "index_select (concat rows) (map (\<lambda>(i, p). int p + int i * int m) xs) = Inr (map (\<lambda>(i, p). rows ! i ! p) xs)"
proof -
  have idx: "int p + int i * int m = int (i * m + p)" for i p by simp
  show ?thesis
    using flat_nth [OF assms, of xs] unfolding index_select_def idx
    by (auto simp del: of_nat_add of_nat_mult split: prod.splits)
qed

lemma fancy_index_concat:
  assumes "\<And>r. r \<in> set rows \<Longrightarrow> length r = m" "\<And>x. x \<in> set xs \<Longrightarrow> fst x < length rows \<and> snd x < m"
  shows "fancy_index (concat rows) (map (\<lambda>(i, p). int i * int m + int p) xs) = Inr (map (\<lambda>(i, p). rows ! i ! p) xs)"
proof -
  have idx: "int i * int m + int p = int (i * m + p)" for i p by simp
  have "- int (length (concat rows)) \<le> int k" for k by simp
  then show ?thesis
    using flat_nth [OF assms, of xs] unfolding fancy_index_def idx
    by (auto simp del: of_nat_add of_nat_mult length_concat split: prod.splits)
qed

lemma int_sum_list: "int (sum_list (map f xs)) = sum_list (map (\<lambda>x. int (f x)) xs)"
  by (induction xs) simp_all

lemma int_div_less:
  assumes "0 < b" "a < c * b"
  shows "a div b < (c :: int)"
proof (rule ccontr)
  assume "\<not> a div b < c"
  then have "c * b \<le> a div b * b" using assms(1) by (simp add: mult_right_mono)
  also have "\<dots> \<le> a" using assms(1) by (simp add: minus_mod_eq_div_mult [symmetric])
  finally show False using assms(2) by simp
qed

section \<open>The requests of the batch in row order\<close>

definition batch_list :: "input_batch \<Rightarrow> req_id list" where
  "batch_list b = map the (take (num_reqs b) (ib_req_ids b))"

lemma batch_list_rows:
  assumes "batch_ok b" "occupied b = {..<num_reqs b}"
  shows "take (num_reqs b) (ib_req_ids b) = map Some (batch_list b)" "length (batch_list b) = num_reqs b"
    "num_reqs b \<le> ib_max_num_reqs b"
    "\<And>i. i < num_reqs b \<Longrightarrow> map_of (ib_req_id_to_index b) (batch_list b ! i) = Some i"
proof -
  show le: "num_reqs b \<le> ib_max_num_reqs b" by (rule num_reqs_bound [OF assms])
  have some: "ib_req_ids b ! i \<noteq> None" if "i < num_reqs b" for i
    using that assms(2) by (auto simp: occupied_def set_eq_iff)
  have len: "length (ib_req_ids b) = ib_max_num_reqs b" by (rule shape_length [OF batch_okD(1) [OF assms(1)]])
  then show "length (batch_list b) = num_reqs b" using le by (simp add: batch_list_def)
  show "take (num_reqs b) (ib_req_ids b) = map Some (batch_list b)"
    using some le len by (intro nth_equalityI) (auto simp: batch_list_def)
  show "map_of (ib_req_id_to_index b) (batch_list b ! i) = Some i" if "i < num_reqs b" for i
    using that some [OF that] le len by (intro index_of_row [OF batch_okD(2) [OF assms(1)]]) (auto simp: batch_list_def)
qed

lemma batch_list_ids:
  assumes "batch_ok b" "occupied b = {..<num_reqs b}"
  shows "distinct (batch_list b)" "set (batch_list b) = batch_ids b"
proof -
  note rows = batch_list_rows [OF assms]
  show dist: "distinct (batch_list b)"
    unfolding distinct_conv_nth using rows(2,4) by (metis option.inject)
  have "set (batch_list b) \<subseteq> batch_ids b"
    using rows(2,4) by (auto simp: in_set_conv_nth) (metis not_in_batch option.distinct(1))
  moreover have "finite (batch_ids b)" by (simp add: batch_ids_def)
  ultimately show "set (batch_list b) = batch_ids b"
    using distinct_card [OF dist] rows(2) card_batch_ids [OF batch_okD(2) [OF assms(1)]]
    by (simp add: card_subset_eq)
qed


section \<open>The inputs of a step, per request\<close>

definition token_count :: "scheduler_msg \<Rightarrow> req_id \<Rightarrow> int" where
  "token_count so rid = (case map_of (msg_num_scheduled so) rid of None \<Rightarrow> 0 | Some n \<Rightarrow> n)"

definition state_of :: "model_runner \<Rightarrow> req_id \<Rightarrow> cached_request_state" where
  "state_of r rid = the (mr_requests r rid)"

definition all_tokens :: "cached_request_state \<Rightarrow> token list" where
  "all_tokens c = crs_prompt_token_ids c @ crs_output_token_ids c"

text \<open>The token positions of a request that the step computes, and the KV slot of a position.\<close>

definition step_positions :: "scheduler_msg \<Rightarrow> model_runner \<Rightarrow> req_id \<Rightarrow> nat list" where
  "step_positions so r rid =
     (let n = crs_num_computed_tokens (state_of r rid) in [nat n..<nat (n + token_count so rid)])"

definition slot_of :: "int \<Rightarrow> cached_request_state \<Rightarrow> nat \<Rightarrow> int" where
  "slot_of bs c p = int (crs_block_ids c ! nat (int p div bs)) * bs + int p mod bs"

definition expected_inputs :: "scheduler_msg \<Rightarrow> model_runner \<Rightarrow> model_inputs" where
  "expected_inputs so r =
     (let ids = batch_list (mr_batch r); pos = step_positions so r;
          seq_len = (\<lambda>rid. crs_num_computed_tokens (state_of r rid) + token_count so rid) in
      \<lparr>mi_input_ids = concat (map (\<lambda>rid. map ((!) (all_tokens (state_of r rid))) (pos rid)) ids),
       mi_positions = concat (map (\<lambda>rid. map int (pos rid)) ids),
       mi_slot_mapping = concat (map (\<lambda>rid. map (slot_of (mr_block_size r) (state_of r rid)) (pos rid)) ids),
       mi_query_start_loc = map (\<lambda>k. sum_list (map (token_count so) (take k ids))) [0..<Suc (length ids)],
       mi_seq_start_loc = map (\<lambda>k. sum_list (map seq_len (take k ids))) [0..<Suc (length ids)],
       mi_max_query_len = Max (token_count so ` set ids), mi_max_seq_len = Max (seq_len ` set ids),
       mi_block_table = take (length ids) (block_table_cpu (mr_batch r)),
       mi_logits_indices = map (\<lambda>k. sum_list (map (token_count so) (take (Suc k) ids)) - 1) [0..<length ids]\<rparr>)"

text \<open>
  What the scheduler promises of a step: every request of the batch has some tokens scheduled, all
  of them known and covered by its blocks, and the total is their sum and within the buffers.
\<close>

definition step_ok :: "scheduler_msg \<Rightarrow> model_runner \<Rightarrow> bool" where
  "step_ok so r \<longleftrightarrow> 0 < mr_block_size r \<and> batch_list (mr_batch r) \<noteq> []
     \<and> (\<forall>rid \<in> set (batch_list (mr_batch r)). let c = state_of r rid in
          map_of (msg_num_scheduled so) rid \<noteq> None \<and> 0 < token_count so rid \<and> 0 \<le> crs_num_computed_tokens c
          \<and> crs_num_computed_tokens c + token_count so rid \<le> int (length (all_tokens c))
          \<and> crs_num_computed_tokens c + token_count so rid \<le> int (length (crs_block_ids c)) * mr_block_size r)
     \<and> msg_total so = sum_list (map (token_count so) (batch_list (mr_batch r)))
     \<and> msg_total so \<le> int (mr_max_num_tokens r)"

lemma scheduled_counts_ok:
  "(\<And>rid. rid \<in> set ids \<Longrightarrow> map_of (msg_num_scheduled so) rid \<noteq> None) \<Longrightarrow>
   scheduled_counts (msg_num_scheduled so) (map Some ids) = Inr (map (token_count so) ids)"
proof (induction ids)
  case (Cons rid ids)
  from Cons.prems [of rid] obtain n where "map_of (msg_num_scheduled so) rid = Some n" by auto
  with Cons show ?case by (simp add: token_count_def [of so rid])
qed simp

lemma cumsum_from_sums: "cumsum_from a xs = map (\<lambda>k. a + sum_list (take (Suc k) xs)) [0..<length xs]"
proof (induction xs arbitrary: a)
  case (Cons x xs)
  show ?case unfolding length_Cons map_upt_Suc by (simp add: Cons.IH add.assoc del: upt_Suc)
qed simp

lemma cumsum_starts: "0 # cumsum_from 0 xs = map (\<lambda>k. sum_list (take k xs)) [0..<Suc (length xs)]"
  by (simp add: cumsum_from_sums map_upt_Suc del: upt_Suc)


text \<open>The rows and positions of the step's tokens, in the order of the flattened arrays.\<close>

definition token_rows :: "scheduler_msg \<Rightarrow> model_runner \<Rightarrow> (nat \<times> nat) list" where
  "token_rows so r = concat (map (\<lambda>i. map (Pair i) (step_positions so r (batch_list (mr_batch r) ! i)))
     [0..<length (batch_list (mr_batch r))])"

lemma map_token_rows:
  "map (\<lambda>(i, p). f (batch_list (mr_batch r) ! i) p) (token_rows so r)
   = concat (map (\<lambda>rid. map (f rid) (step_positions so r rid)) (batch_list (mr_batch r)))"
proof -
  let ?ids = "batch_list (mr_batch r)"
  have "map (\<lambda>(i, p). f (?ids ! i) p) (token_rows so r)
    = concat (map ((\<lambda>rid. map (f rid) (step_positions so r rid)) \<circ> (!) ?ids) [0..<length ?ids])"
    by (simp add: token_rows_def map_concat comp_def)
  also have "\<dots> = concat (map (\<lambda>rid. map (f rid) (step_positions so r rid)) ?ids)"
    unfolding map_map [symmetric] map_nth ..
  finally show ?thesis .
qed

lemma flat_pairs:
  assumes "\<And>i. i < length cs \<Longrightarrow> 0 \<le> cs ! i \<and> nat (cs ! i) \<le> len"
  shows "np_repeat cs = Inr (map fst (concat (map (\<lambda>i. map (Pair i) [P i..<P i + nat (cs ! i)]) [0..<length cs])))"
    "batched_arange len cs = concat (map (\<lambda>i. [0..<nat (cs ! i)]) [0..<length cs])"
proof -
  have "\<not> (\<exists>c \<in> set cs. c < 0)" using assms by (force simp: in_set_conv_nth)
  then show "np_repeat cs = Inr (map fst (concat (map (\<lambda>i. map (Pair i) [P i..<P i + nat (cs ! i)]) [0..<length cs])))"
    by (simp add: np_repeat_def map_concat comp_def map_replicate_const)
  have "map (\<lambda>c. take (nat c) [0..<len]) cs = map (\<lambda>i. [0..<nat (cs ! i)]) [0..<length cs]"
    using assms by (intro nth_equalityI) (simp_all add: take_upt)
  then show "batched_arange len cs = concat (map (\<lambda>i. [0..<nat (cs ! i)]) [0..<length cs])"
    by (simp add: batched_arange_def)
qed

lemma flat_positions:
  "map (\<lambda>(i, j). P i + j) (zip (concat (map (\<lambda>i. replicate (m i) i) xs)) (concat (map (\<lambda>i. [0..<m i]) xs)))
   = map snd (concat (map (\<lambda>i. map (Pair i) [P i..<P i + m i]) xs))"
proof -
  have "[P i..<P i + m i] = map ((+) (P i)) [0..<m i]" for i
    by (rule nth_equalityI) simp_all
  then show ?thesis
    by (simp add: zip_concat_map zip_replicate1 map_concat comp_def)
qed


section \<open>Preparing the inputs\<close>

lemma step_okD:
  assumes "step_ok so r" "rid \<in> set (batch_list (mr_batch r))"
  shows "map_of (msg_num_scheduled so) rid \<noteq> None" "0 < token_count so rid"
    "0 \<le> crs_num_computed_tokens (state_of r rid)"
    "crs_num_computed_tokens (state_of r rid) + token_count so rid \<le> int (length (all_tokens (state_of r rid)))"
    "crs_num_computed_tokens (state_of r rid) + token_count so rid
       \<le> int (length (crs_block_ids (state_of r rid))) * mr_block_size r"
  using assms by (auto simp: step_ok_def Let_def)

lemma row_holds:
  assumes "runner_inv r" "i < num_reqs (mr_batch r)"
  shows "mr_requests r (batch_list (mr_batch r) ! i) = Some (state_of r (batch_list (mr_batch r) ! i))"
    "holds (entry_at (mr_batch r) (batch_list (mr_batch r) ! i) i) (state_of r (batch_list (mr_batch r) ! i))"
proof -
  let ?rid = "batch_list (mr_batch r) ! i"
  have mid: "runner_mid r" and occ: "occupied (mr_batch r) = {..<num_reqs (mr_batch r)}"
    using assms(1) by (simp_all add: runner_inv_def)
  note m = runner_midD [OF mid]
  have "batch_view (mr_batch r) ?rid = Some (entry_at (mr_batch r) ?rid i)"
    using batch_list_rows(4) [OF m(1) occ assms(2)] by (simp add: batch_view_def)
  from entries_matchD [OF m(2) this]
  show "mr_requests r ?rid = Some (state_of r ?rid)" "holds (entry_at (mr_batch r) ?rid i) (state_of r ?rid)"
    by (auto simp: state_of_def)
qed

lemma row_data:
  assumes "runner_inv r" "i < num_reqs (mr_batch r)"
  defines "c \<equiv> state_of r (batch_list (mr_batch r) ! i)"
  shows "num_computed_tokens_cpu (mr_batch r) ! i = crs_num_computed_tokens c"
    "p < length (all_tokens c) \<Longrightarrow> token_ids_cpu (mr_batch r) ! i ! p = all_tokens c ! p"
    "k < length (crs_block_ids c) \<Longrightarrow> block_table_cpu (mr_batch r) ! i ! k = crs_block_ids c ! k"
proof -
  have h: "take (length (all_tokens c)) (token_ids_cpu (mr_batch r) ! i) = all_tokens c"
    "take (length (crs_block_ids c)) (block_table_cpu (mr_batch r) ! i) = crs_block_ids c"
    "num_computed_tokens_cpu (mr_batch r) ! i = crs_num_computed_tokens c"
    using row_holds(2) [OF assms(1,2)] by (simp_all add: holds_def Let_def entry_at_def c_def all_tokens_def)
  then show "num_computed_tokens_cpu (mr_batch r) ! i = crs_num_computed_tokens c" by simp
  show "p < length (all_tokens c) \<Longrightarrow> token_ids_cpu (mr_batch r) ! i ! p = all_tokens c ! p"
    "k < length (crs_block_ids c) \<Longrightarrow> block_table_cpu (mr_batch r) ! i ! k = crs_block_ids c ! k"
    using h by (metis nth_take)+
qed

lemma row_limits:
  assumes "runner_inv r" "i < num_reqs (mr_batch r)"
  shows "length (all_tokens (state_of r (batch_list (mr_batch r) ! i))) \<le> ib_max_model_len (mr_batch r)"
    "length (crs_block_ids (state_of r (batch_list (mr_batch r) ! i))) \<le> ib_max_num_blocks_per_req (mr_batch r)"
proof -
  have mid: "runner_mid r" and occ: "occupied (mr_batch r) = {..<num_reqs (mr_batch r)}"
    using assms(1) by (simp_all add: runner_inv_def)
  note m = runner_midD [OF mid]
  have "i < ib_max_num_reqs (mr_batch r)" using assms(2) num_reqs_bound [OF m(1) occ] by simp
  note len = shape_lengths(14,15) [OF batch_okD(1) [OF m(1)] this]
  have h: "take (length (all_tokens (state_of r (batch_list (mr_batch r) ! i)))) (token_ids_cpu (mr_batch r) ! i)
      = all_tokens (state_of r (batch_list (mr_batch r) ! i))"
    "take (length (crs_block_ids (state_of r (batch_list (mr_batch r) ! i)))) (block_table_cpu (mr_batch r) ! i)
      = crs_block_ids (state_of r (batch_list (mr_batch r) ! i))"
    using row_holds(2) [OF assms] by (simp_all add: holds_def Let_def entry_at_def all_tokens_def)
  show "length (all_tokens (state_of r (batch_list (mr_batch r) ! i))) \<le> ib_max_model_len (mr_batch r)"
    "length (crs_block_ids (state_of r (batch_list (mr_batch r) ! i))) \<le> ib_max_num_blocks_per_req (mr_batch r)"
    using arg_cong [OF h(1), of length] arg_cong [OF h(2), of length] len by simp_all
qed


lemma token_rows_bounds:
  assumes inv: "runner_inv r" and step: "step_ok so r" and ip: "(i, p) \<in> set (token_rows so r)"
  defines "c \<equiv> state_of r (batch_list (mr_batch r) ! i)"
  shows "i < num_reqs (mr_batch r)" "p < length (all_tokens c)" "nat (int p div mr_block_size r) < length (crs_block_ids c)"
proof -
  have len: "length (batch_list (mr_batch r)) = num_reqs (mr_batch r)"
    using inv by (simp add: runner_inv_def runner_midD batch_list_rows)
  with ip show i: "i < num_reqs (mr_batch r)" by (auto simp: token_rows_def)
  then have mem: "batch_list (mr_batch r) ! i \<in> set (batch_list (mr_batch r))" by (simp add: len)
  note ok = step_okD [OF step mem, folded c_def]
  have "int p < crs_num_computed_tokens c + token_count so (batch_list (mr_batch r) ! i)"
    using ip by (auto simp: token_rows_def step_positions_def Let_def c_def)
  with ok(4,5) have p: "int p < int (length (all_tokens c))" "int p < int (length (crs_block_ids c)) * mr_block_size r"
    by simp_all
  then show "p < length (all_tokens c)" by simp
  have bs: "0 < mr_block_size r" using step by (simp add: step_ok_def)
  have "int p div mr_block_size r < int (length (crs_block_ids c))"
    using bs p(2) by (rule int_div_less)
  moreover have "0 \<le> int p div mr_block_size r" using bs by (simp add: pos_imp_zdiv_nonneg_iff)
  ultimately show "nat (int p div mr_block_size r) < length (crs_block_ids c)" by (simp add: nat_less_iff)
qed

lemma take_copy_prefix: "n \<le> length src \<Longrightarrow> take n (copy_prefix n src dst) = take n src"
  by (simp add: copy_prefix_def)

lemma zip_map_same: "zip (map f xs) (map g xs) = map (\<lambda>x. (f x, g x)) xs"
  by (induction xs) simp_all

text \<open>The flattened row numbers and positions are those of \<open>token_rows\<close>.\<close>

lemma flattened_rows:
  assumes inv: "runner_inv r" and step: "step_ok so r"
  defines "ids \<equiv> batch_list (mr_batch r)"
  defines "cs \<equiv> map (token_count so) ids"
  shows "np_repeat cs = Inr (map fst (token_rows so r))"
    "length (batched_arange (mr_arange_len r) cs) = length (token_rows so r)"
    "map (\<lambda>(i, j). num_computed_tokens_cpu (mr_batch r) ! i + int j)
       (zip (map fst (token_rows so r)) (batched_arange (mr_arange_len r) cs)) = map (int \<circ> snd) (token_rows so r)"
    "int (length (token_rows so r)) = sum_list cs"
proof -
  define P where "P i = nat (crs_num_computed_tokens (state_of r (ids ! i)))" for i
  let ?m = "\<lambda>i. nat (cs ! i)"
  have len: "length ids = num_reqs (mr_batch r)"
    using inv by (simp add: runner_inv_def runner_midD batch_list_rows ids_def)
  have n: "length cs = length ids" by (simp add: cs_def)
  have c: "0 \<le> cs ! i \<and> ?m i \<le> mr_arange_len r \<and> [P i..<P i + ?m i] = step_positions so r (ids ! i)
      \<and> num_computed_tokens_cpu (mr_batch r) ! i = int (P i)" if i: "i < length ids" for i
  proof -
    have mem: "ids ! i \<in> set (batch_list (mr_batch r))" using i by (simp add: ids_def)
    note ok = step_okD [OF step mem]
    have "length (all_tokens (state_of r (ids ! i))) \<le> mr_arange_len r"
      using row_limits(1) [OF inv, of i] i len inv by (simp add: ids_def runner_inv_def runner_mid_def)
    with ok row_data(1) [OF inv, of i] i len show ?thesis
      by (simp add: cs_def P_def step_positions_def Let_def nat_add_distrib ids_def)
  qed
  have rows: "token_rows so r = concat (map (\<lambda>i. map (Pair i) [P i..<P i + ?m i]) [0..<length cs])"
    unfolding token_rows_def ids_def [symmetric] n
    by (intro arg_cong [of _ _ concat] map_cong refl) (simp add: c)
  show rep: "np_repeat cs = Inr (map fst (token_rows so r))"
    unfolding rows by (rule flat_pairs(1) [where len = "mr_arange_len r"]) (use c n in simp)
  have arange: "batched_arange (mr_arange_len r) cs = concat (map (\<lambda>i. [0..<?m i]) [0..<length cs])"
    by (rule flat_pairs(2)) (use c n in simp)
  show "length (batched_arange (mr_arange_len r) cs) = length (token_rows so r)"
    unfolding arange rows by (simp add: length_concat comp_def)
  have fst_rows: "map fst (token_rows so r) = concat (map (\<lambda>i. replicate (?m i) i) [0..<length cs])"
    unfolding rows by (simp add: map_concat comp_def map_replicate_const)
  have "map (\<lambda>(i, j). num_computed_tokens_cpu (mr_batch r) ! i + int j) (zip (map fst (token_rows so r)) (batched_arange (mr_arange_len r) cs))
    = map (int \<circ> (\<lambda>(i, j). P i + j)) (zip (map fst (token_rows so r)) (batched_arange (mr_arange_len r) cs))"
    using c n unfolding fst_rows arange by (auto dest: set_zip_leftD)
  also have "\<dots> = map int (map snd (token_rows so r))"
    unfolding map_map [symmetric] fst_rows arange flat_positions unfolding rows ..
  finally show "map (\<lambda>(i, j). num_computed_tokens_cpu (mr_batch r) ! i + int j)
       (zip (map fst (token_rows so r)) (batched_arange (mr_arange_len r) cs)) = map (int \<circ> snd) (token_rows so r)"
    by simp
  have "int (length (token_rows so r)) = sum_list (map (\<lambda>i. int (?m i)) [0..<length cs])"
    unfolding rows length_concat map_map comp_def int_sum_list by simp
  also have "\<dots> = sum_list (map ((!) cs) [0..<length cs])"
    using c n by (intro arg_cong [of _ _ sum_list] map_cong) auto
  finally show "int (length (token_rows so r)) = sum_list cs" by (simp add: map_nth)
qed


text \<open>The gathered tokens and slots.\<close>

lemma gathered_tokens:
  assumes inv: "runner_inv r" and step: "step_ok so r"
  defines "b \<equiv> mr_batch r" and "ts \<equiv> token_rows so r" and "ids \<equiv> batch_list (mr_batch r)"
  shows "index_select (concat (token_ids_cpu b)) (map (\<lambda>(i, p). int p + int i * int (ib_max_model_len b)) ts)
    = Inr (concat (map (\<lambda>rid. map ((!) (all_tokens (state_of r rid))) (step_positions so r rid)) ids))"
proof -
  have ok: "batch_ok b" "num_reqs b \<le> ib_max_num_reqs b"
    using inv by (auto simp: b_def runner_inv_def runner_midD num_reqs_bound)
  note len = shape_lengths [OF batch_okD(1) [OF ok(1)]]
  have uniform: "length row = ib_max_model_len b" if "row \<in> set (token_ids_cpu b)" for row
    using that len(2,14) by (auto simp: in_set_conv_nth)
  have bounds: "fst x < length (token_ids_cpu b) \<and> snd x < ib_max_model_len b" if "x \<in> set ts" for x
    using token_rows_bounds(1,2) [OF inv step, of "fst x" "snd x"] row_limits(1) [OF inv, of "fst x"] that ok(2) len(2)
    by (simp add: ts_def b_def)
  have "map (\<lambda>(i, p). token_ids_cpu b ! i ! p) ts = map (\<lambda>(i, p). all_tokens (state_of r (ids ! i)) ! p) ts"
    using token_rows_bounds(1,2) [OF inv step] row_data(2) [OF inv] by (auto simp: ts_def b_def ids_def)
  then show ?thesis
    using index_select_concat [OF uniform bounds, of ts] map_token_rows [of "\<lambda>rid p. all_tokens (state_of r rid) ! p" r so]
    by (simp add: ts_def ids_def)
qed

lemma gathered_blocks:
  assumes inv: "runner_inv r" and step: "step_ok so r"
  defines "b \<equiv> mr_batch r" and "ts \<equiv> token_rows so r" and "bs \<equiv> mr_block_size r"
  shows "fancy_index (concat (block_table_cpu b)) (map (\<lambda>(i, p). int i * int (mr_max_num_blocks_per_req r) + int p div bs) ts)
    = Inr (map (\<lambda>(i, p). crs_block_ids (state_of r (batch_list b ! i)) ! nat (int p div bs)) ts)"
proof -
  have ok: "batch_ok b" "num_reqs b \<le> ib_max_num_reqs b" "mr_max_num_blocks_per_req r = ib_max_num_blocks_per_req b"
    using inv by (auto simp: b_def runner_inv_def runner_midD num_reqs_bound)
  note len = shape_lengths [OF batch_okD(1) [OF ok(1)]]
  have uniform: "length row = ib_max_num_blocks_per_req b" if "row \<in> set (block_table_cpu b)" for row
    using that len(5,15) by (auto simp: in_set_conv_nth)
  let ?ks = "map (\<lambda>(i, p). (i, nat (int p div bs))) ts"
  have bounds: "fst x < length (block_table_cpu b) \<and> snd x < ib_max_num_blocks_per_req b" if "x \<in> set ?ks" for x
    using token_rows_bounds(1,3) [OF inv step] row_limits(2) [OF inv] that ok(2) len(5)
    by (fastforce simp: ts_def b_def bs_def)
  have "0 < bs" using step by (simp add: step_ok_def bs_def)
  then have idx: "map (\<lambda>(i, p). int i * int (mr_max_num_blocks_per_req r) + int p div bs) ts
      = map (\<lambda>(i, k). int i * int (ib_max_num_blocks_per_req b) + int k) ?ks"
    by (auto simp: ok(3) pos_imp_zdiv_nonneg_iff)
  have val: "map (\<lambda>(i, k). block_table_cpu b ! i ! k) ?ks
      = map (\<lambda>(i, p). crs_block_ids (state_of r (batch_list b ! i)) ! nat (int p div bs)) ts"
    using token_rows_bounds(1,3) [OF inv step] row_data(3) [OF inv] by (auto simp: ts_def b_def bs_def)
  show ?thesis unfolding idx val [symmetric] by (rule fancy_index_concat [OF uniform bounds])
qed

lemma sum_list_pos: "xs \<noteq> [] \<Longrightarrow> (\<And>x. x \<in> set xs \<Longrightarrow> 0 < f x) \<Longrightarrow> 0 < sum_list (map f xs :: int list)"
proof (induction xs)
  case (Cons x xs)
  then show ?case by (cases "xs = []") (simp_all add: add_pos_pos)
qed simp

lemma prepare_inputs_ok:
  assumes inv: "runner_inv r" and step: "step_ok so r"
  shows "prepare_inputs so r = Inr (expected_inputs so r,
    r\<lparr>mr_batch := (mr_batch r)\<lparr>block_table := copy_prefix (num_reqs (mr_batch r)) (block_table_cpu (mr_batch r)) (block_table (mr_batch r))\<rparr>\<rparr>)"
proof -
  let ?b = "mr_batch r" and ?ids = "batch_list (mr_batch r)" and ?ts = "token_rows so r"
  let ?cs = "map (token_count so) ?ids"
  have ok: "batch_ok ?b" "occupied ?b = {..<num_reqs ?b}" using inv by (simp_all add: runner_inv_def runner_midD)
  note rows = batch_list_rows [OF ok] and flat = flattened_rows [OF inv step]
  have ne: "?ids \<noteq> []" and total: "msg_total so = sum_list ?cs" "msg_total so \<le> int (mr_max_num_tokens r)"
    using step by (simp_all add: step_ok_def)
  have n: "0 < num_reqs ?b" using ne rows(2) by (metis length_greater_0_conv)
  have T: "min (nat (msg_total so)) (mr_max_num_tokens r) = length ?ts" and pos: "0 < msg_total so"
    using total flat(4) sum_list_pos [OF ne step_okD(2) [OF step]] by auto
  have counts: "scheduled_counts (msg_num_scheduled so) (take (num_reqs ?b) (ib_req_ids ?b)) = Inr ?cs"
    unfolding rows(1) by (rule scheduled_counts_ok) (use step_okD(1) [OF step] in blast)
  have max: "Max (insert 0 (set ?cs)) = Max (token_count so ` set ?ids)" "0 < Max (token_count so ` set ?ids)"
  proof -
    have "0 < token_count so (hd ?ids)" using step_okD(2) [OF step] ne by simp
    then show gt: "0 < Max (token_count so ` set ?ids)"
      using ne by (subst Max_gr_iff) (auto intro!: bexI [of _ "hd ?ids"])
    show "Max (insert 0 (set ?cs)) = Max (token_count so ` set ?ids)"
      using ne gt by (simp add: Max_insert)
  qed
  have seq: "map2 (+) (take (num_reqs ?b) (num_computed_tokens_cpu ?b)) ?cs
      = map (\<lambda>rid. crs_num_computed_tokens (state_of r rid) + token_count so rid) ?ids"
    using rows(2,3) row_data(1) [OF inv] shape_lengths(4) [OF batch_okD(1) [OF ok(1)]]
    by (intro nth_equalityI) simp_all
  have sums: "0 # cumsum_from 0 (map f ?ids) = map (\<lambda>k. sum_list (map f (take k ?ids))) [0..<Suc (length ?ids)]" for f
    unfolding cumsum_starts by (simp add: take_map)
  have logits: "map (\<lambda>x. x - 1) (cumsum_from 0 ?cs) = map (\<lambda>k. sum_list (map (token_count so) (take (Suc k) ?ids)) - 1) [0..<length ?ids]"
    unfolding cumsum_from_sums by (simp add: take_map)
  have seq_max: "(\<lambda>p. fst p + snd p) ` set (zip (take (num_reqs ?b) (num_computed_tokens_cpu ?b)) ?cs)
      = (\<lambda>rid. crs_num_computed_tokens (state_of r rid) + token_count so rid) ` set ?ids"
    using arg_cong [OF seq, of set] by (simp add: case_prod_unfold)
  have slots: "map (\<lambda>x. int (crs_block_ids (state_of r (?ids ! fst x)) ! nat (int (snd x) div mr_block_size r)) * mr_block_size r
        + int (snd x) mod mr_block_size r) ?ts
      = concat (map (\<lambda>rid. map (slot_of (mr_block_size r) (state_of r rid)) (step_positions so r rid)) ?ids)"
    unfolding map_token_rows [symmetric] by (simp add: slot_of_def case_prod_unfold)
  have positions: "map (\<lambda>x. int (snd x)) ?ts = concat (map (\<lambda>rid. map int (step_positions so r rid)) ?ids)"
    using map_token_rows [of "\<lambda>_. int" r so] by (simp add: case_prod_unfold comp_def)
  show ?thesis
    using pos n T counts max flat seq_max gathered_tokens [OF inv step] gathered_blocks [OF inv step] seq rows(2,3)
      shape_lengths(5) [OF batch_okD(1) [OF ok(1)]]
    unfolding prepare_inputs_def Let_def
    by (simp add: np_broadcast_def zip_map_same comp_def case_prod_unfold cong: if_cong)
      (simp add: take_copy_prefix positions slots sums logits expected_inputs_def Let_def del: upt_Suc)
qed


section \<open>Slots\<close>

lemma slot_eqD:
  assumes "0 < bs" "int k * bs + a mod bs = int k' * bs + a' mod bs"
  shows "k = k'" "a mod bs = a' mod bs"
proof -
  have "(int k * bs + a mod bs) div bs = int k" for k a using assms(1) by simp
  with assms(2) have "int k = int k'" by metis
  then show "k = k'" by simp
  with assms(2) show "a mod bs = a' mod bs" by simp
qed

text \<open>The block a position of a request is stored in.\<close>

definition block_at :: "model_runner \<Rightarrow> req_id \<Rightarrow> nat \<Rightarrow> nat" where
  "block_at r rid p = crs_block_ids (state_of r rid) ! nat (int p div mr_block_size r)"

definition writes_separate :: "scheduler_msg \<Rightarrow> model_runner \<Rightarrow> bool" where
  "writes_separate so r \<longleftrightarrow>
     (\<forall>rid \<in> set (batch_list (mr_batch r)). distinct (crs_block_ids (state_of r rid)))
     \<and> (\<forall>rid \<in> set (batch_list (mr_batch r)). \<forall>rid' \<in> set (batch_list (mr_batch r)). rid \<noteq> rid' \<longrightarrow>
          block_at r rid ` set (step_positions so r rid) \<inter> block_at r rid' ` set (step_positions so r rid') = {})"

lemma block_index_bound:
  assumes "step_ok so r" "rid \<in> set (batch_list (mr_batch r))" "p \<in> set (step_positions so r rid)"
  shows "nat (int p div mr_block_size r) < length (crs_block_ids (state_of r rid))" "0 \<le> int p div mr_block_size r"
proof -
  have bs: "0 < mr_block_size r" using assms(1) by (simp add: step_ok_def)
  then show nonneg: "0 \<le> int p div mr_block_size r" by (simp add: pos_imp_zdiv_nonneg_iff)
  have "int p < int (length (crs_block_ids (state_of r rid))) * mr_block_size r"
    using step_okD(5) [OF assms(1,2)] assms(3) by (auto simp: step_positions_def Let_def)
  from int_div_less [OF bs this] nonneg
  show "nat (int p div mr_block_size r) < length (crs_block_ids (state_of r rid))" by (simp add: nat_less_iff)
qed

lemma distinct_pairs:
  "distinct xs \<Longrightarrow> (\<And>x. distinct (f x)) \<Longrightarrow> distinct (concat (map (\<lambda>x. map (Pair x) (f x)) xs))"
  by (induction xs) (auto simp: distinct_map inj_on_def)

lemma slots_distinct:
  assumes step: "step_ok so r" and sep: "writes_separate so r" and ids: "distinct (batch_list (mr_batch r))"
  shows "distinct (mi_slot_mapping (expected_inputs so r))"
proof -
  let ?ids = "batch_list (mr_batch r)" and ?bs = "mr_block_size r"
  let ?pairs = "concat (map (\<lambda>rid. map (Pair rid) (step_positions so r rid)) ?ids)"
  have bs: "0 < ?bs" using step by (simp add: step_ok_def)
  have slots: "mi_slot_mapping (expected_inputs so r) = map (\<lambda>(rid, p). slot_of ?bs (state_of r rid) p) ?pairs"
    by (simp add: expected_inputs_def Let_def map_concat comp_def)
  have "distinct ?pairs"
    using ids by (rule distinct_pairs) (simp add: step_positions_def Let_def)
  moreover have "inj_on (\<lambda>(rid, p). slot_of ?bs (state_of r rid) p) (set ?pairs)"
  proof (rule inj_onI, clarify)
    fix rid p rid' p'
    assume "(rid, p) \<in> set ?pairs" "(rid', p') \<in> set ?pairs"
      and eq: "slot_of ?bs (state_of r rid) p = slot_of ?bs (state_of r rid') p'"
    then have mem: "rid \<in> set ?ids" "p \<in> set (step_positions so r rid)" "rid' \<in> set ?ids" "p' \<in> set (step_positions so r rid')"
      by auto
    from slot_eqD [OF bs eq [unfolded slot_of_def]]
    have same: "block_at r rid p = block_at r rid' p'" "int p mod ?bs = int p' mod ?bs" by (simp_all add: block_at_def)
    with sep mem have rid: "rid = rid'" unfolding writes_separate_def by blast
    have "distinct (crs_block_ids (state_of r rid))" using sep mem(1) by (simp add: writes_separate_def)
    then have "nat (int p div ?bs) = nat (int p' div ?bs)"
      using same(1) rid block_index_bound(1) [OF step mem(1,2)] block_index_bound(1) [OF step mem(3,4)]
      by (simp add: block_at_def nth_eq_iff_index_eq)
    then have "int p div ?bs = int p' div ?bs"
      using block_index_bound(2) [OF step mem(1,2)] block_index_bound(2) [OF step mem(3,4)] by simp
    with same(2) have "int p = int p'" by (metis div_mult_mod_eq)
    with rid show "rid = rid' \<and> p = p'" by simp
  qed
  ultimately show ?thesis unfolding slots by (simp add: distinct_map)
qed

end
