(* ===== verification/RunnerSampling.thy ===== *)
theory RunnerSampling
  imports RunnerSteps
begin

text \<open>
  The sampling metadata of a step and the copies of the sampling parameters on the device, which are
  refreshed only when the batch changes: they always are those of the requests in row order.
\<close>

section \<open>Device and host\<close>

text \<open>The part of the batch that is not a copy on the device.\<close>

definition host :: "input_batch \<Rightarrow> input_batch" where
  "host b = b\<lparr>block_table := [], temperature := [], top_p := [], top_k := [], frequency_penalties := [],
     presence_penalties := [], repetition_penalties := [], ib_prompt_token_ids := None\<rparr>"

text \<open>The prompts of the batch, padded to the longest with a token id outside the vocabulary.\<close>

definition padded_prompts :: "input_batch \<Rightarrow> token list list" where
  "padded_prompts b = (let n = num_reqs b; m = Max (set (take n (ib_num_prompt_tokens b))) in
     map (\<lambda>i. take (ib_num_prompt_tokens b ! i) (take m (token_ids_cpu b ! i))
              @ replicate (m - ib_num_prompt_tokens b ! i) (ib_vocab_size b)) [0..<n])"

lemma host_fields:
  "ib_max_num_reqs (host b) = ib_max_num_reqs b"
  "ib_max_model_len (host b) = ib_max_model_len b"
  "ib_max_num_blocks_per_req (host b) = ib_max_num_blocks_per_req b"
  "ib_vocab_size (host b) = ib_vocab_size b"
  "ib_req_ids (host b) = ib_req_ids b"
  "ib_req_id_to_index (host b) = ib_req_id_to_index b"
  "token_ids_cpu (host b) = token_ids_cpu b"
  "num_computed_tokens_cpu (host b) = num_computed_tokens_cpu b"
  "ib_num_prompt_tokens (host b) = ib_num_prompt_tokens b"
  "block_table_cpu (host b) = block_table_cpu b"
  "temperature_cpu (host b) = temperature_cpu b"
  "greedy_reqs (host b) = greedy_reqs b"
  "random_reqs (host b) = random_reqs b"
  "top_p_cpu (host b) = top_p_cpu b"
  "top_p_reqs (host b) = top_p_reqs b"
  "top_k_cpu (host b) = top_k_cpu b"
  "top_k_reqs (host b) = top_k_reqs b"
  "frequency_penalties_cpu (host b) = frequency_penalties_cpu b"
  "frequency_penalties_reqs (host b) = frequency_penalties_reqs b"
  "presence_penalties_cpu (host b) = presence_penalties_cpu b"
  "presence_penalties_reqs (host b) = presence_penalties_reqs b"
  "repetition_penalties_cpu (host b) = repetition_penalties_cpu b"
  "repetition_penalties_reqs (host b) = repetition_penalties_reqs b"
  "ib_min_tokens (host b) = ib_min_tokens b"
  "ib_stop_token_ids (host b) = ib_stop_token_ids b"
  "generators (host b) = generators b"
  "num_logprobs (host b) = num_logprobs b"
  "prompt_logprob_reqs (host b) = prompt_logprob_reqs b"
  by (simp_all add: host_def)

lemma host_derived:
  "num_reqs (host b) = num_reqs b" "batch_ids (host b) = batch_ids b" "occupied (host b) = occupied b"
  "batch_view (host b) = batch_view b" "indexed (host b) = indexed b" "no_leftovers (host b) = no_leftovers b"
  "batch_list (host b) = batch_list b" "no_penalties (host b) = no_penalties b" "padded_prompts (host b) = padded_prompts b" "same_limits (host b) b"
proof -
  show ids: "num_reqs (host b) = num_reqs b" "batch_ids (host b) = batch_ids b" "occupied (host b) = occupied b"
    by (simp_all add: num_reqs_def batch_ids_def occupied_def host_fields)
  have "entry_at (host b) = entry_at b" by (intro ext) (simp add: entry_at_def host_fields)
  then show "batch_view (host b) = batch_view b" by (intro ext) (simp add: batch_view_def host_fields)
  show "indexed (host b) = indexed b" "no_leftovers (host b) = no_leftovers b" "batch_list (host b) = batch_list b"
    "no_penalties (host b) = no_penalties b" "padded_prompts (host b) = padded_prompts b" "same_limits (host b) b"
    unfolding indexed_def no_leftovers_def batch_list_def no_penalties_def padded_prompts_def same_limits_def ids host_fields by simp_all
qed

lemma host_cong:
  assumes "host b' = host b"
  shows "num_reqs b' = num_reqs b" "batch_ids b' = batch_ids b" "occupied b' = occupied b"
    "batch_view b' = batch_view b" "indexed b' = indexed b" "no_leftovers b' = no_leftovers b"
    "batch_list b' = batch_list b" "no_penalties b' = no_penalties b" "padded_prompts b' = padded_prompts b" "same_limits b b'"
proof -
  note h = host_derived [of b, folded assms] host_derived [of b']
  show "num_reqs b' = num_reqs b" "batch_ids b' = batch_ids b" "occupied b' = occupied b"
    "batch_view b' = batch_view b" "indexed b' = indexed b" "no_leftovers b' = no_leftovers b"
    "batch_list b' = batch_list b" "no_penalties b' = no_penalties b" "padded_prompts b' = padded_prompts b"
    using h by metis+
  show "same_limits b b'" using h(10,20) by (simp add: same_limits_def)
qed

lemma runner_inv_host:
  assumes "runner_inv r" "host b = host (mr_batch r)" "batch_shape b"
  shows "runner_inv (r\<lparr>mr_batch := b\<rparr>)"
proof -
  note h = host_cong [OF assms(2)]
  have "gens_ok (r\<lparr>mr_batch := b\<rparr>)"
    by (rule gens_ok_restrict [of r]) (use assms(1) in \<open>simp_all add: runner_inv_def runner_midD\<close>)
  with assms(1,3) h show ?thesis
    by (simp add: runner_inv_def runner_mid_def batch_ok_def entries_match_def states_ok_def same_limits_def)
qed

section \<open>Synchronised copies\<close>

definition sampling_synced :: "input_batch \<Rightarrow> bool" where
  "sampling_synced b \<longleftrightarrow> (let n = num_reqs b in
     take n (temperature b) = take n (temperature_cpu b) \<and> take n (top_p b) = take n (top_p_cpu b)
     \<and> take n (top_k b) = take n (top_k_cpu b)
     \<and> (no_penalties b \<or> take n (frequency_penalties b) = take n (frequency_penalties_cpu b)
          \<and> take n (presence_penalties b) = take n (presence_penalties_cpu b)
          \<and> take n (repetition_penalties b) = take n (repetition_penalties_cpu b)
          \<and> ib_prompt_token_ids b = Some (padded_prompts b)))"

lemma make_prompt_ok:
  assumes "0 < num_reqs b" "num_reqs b \<le> length (ib_num_prompt_tokens b)"
    "\<And>i. i < num_reqs b \<Longrightarrow> ib_num_prompt_tokens b ! i \<le> ib_max_model_len b"
  shows "make_prompt_token_ids_tensor b = Inr (padded_prompts b)"
proof -
  let ?lens = "take (num_reqs b) (ib_num_prompt_tokens b)"
  have "?lens \<noteq> []" using assms(1,2) by auto
  moreover have "Max (set ?lens) \<le> ib_max_model_len b"
    using calculation assms(2,3) by (subst Max_le_iff) (auto simp: in_set_conv_nth)
  then have "\<not> ib_max_model_len b < Max (set ?lens)" by simp
  ultimately show ?thesis unfolding make_prompt_token_ids_tensor_def padded_prompts_def Let_def by simp
qed

lemma sync_sampling_ok:
  assumes ok: "batch_ok b" "num_reqs b \<le> ib_max_num_reqs b"
    and len: "\<And>i. i < num_reqs b \<Longrightarrow> ib_num_prompt_tokens b ! i \<le> ib_max_model_len b"
  obtains b' where "sync_sampling b = Inr b'" "sampling_synced b'" "host b' = host b" "batch_shape b'"
proof -
  let ?n = "num_reqs b"
  define b1 where "b1 = b\<lparr>temperature := copy_prefix ?n (temperature_cpu b) (temperature b),
    top_p := copy_prefix ?n (top_p_cpu b) (top_p b), top_k := copy_prefix ?n (top_k_cpu b) (top_k b)\<rparr>"
  define b2 where "b2 = b1\<lparr>frequency_penalties := copy_prefix ?n (frequency_penalties_cpu b) (frequency_penalties b),
    presence_penalties := copy_prefix ?n (presence_penalties_cpu b) (presence_penalties b),
    repetition_penalties := copy_prefix ?n (repetition_penalties_cpu b) (repetition_penalties b)\<rparr>"
  have h: "host b1 = host b" "host b2 = host b" by (simp_all add: b1_def b2_def host_def)
  have n: "num_reqs b1 = ?n" "num_reqs b2 = ?n" "no_penalties b1 = no_penalties b" "no_penalties b2 = no_penalties b"
    using host_cong [OF h(1)] host_cong [OF h(2)] by simp_all
  have lens: "length (copy_prefix ?n xs ys) = length ys" if "length xs = length ys" for xs ys :: "'x list"
    using that by (simp add: copy_prefix_def)
  have shape: "batch_shape b1" "batch_shape b2"
    using batch_okD(1) [OF ok(1)] unfolding batch_shape_def b2_def b1_def
    by (elim conjE, intro conjI; simp add: lens)+
  show ?thesis
  proof (cases "no_penalties b")
    case True
    have "sync_sampling b = Inr b1"
      using True n by (simp add: sync_sampling_def Let_def b1_def)
    moreover have "sampling_synced b1"
      using True n shape_lengths [OF batch_okD(1) [OF ok(1)]] ok(2)
      by (simp add: sampling_synced_def Let_def) (simp add: b1_def take_copy_prefix)
    ultimately show ?thesis using that h(1) shape(1) by blast
  next
    case False
    then have "batch_ids b \<noteq> {}"
      using batch_okD(3) [OF ok(1)] by (auto simp: no_penalties_def no_leftovers_def)
    then have pos: "0 < ?n" using card_batch_ids [OF batch_okD(2) [OF ok(1)]]
      by (metis batch_ids_def card_gt_0_iff finite_imageI finite_set)
    have lens2: "ib_num_prompt_tokens b2 = ib_num_prompt_tokens b" "ib_max_model_len b2 = ib_max_model_len b"
      by (simp_all add: b2_def b1_def)
    have prompt: "make_prompt_token_ids_tensor b2 = Inr (padded_prompts b2)"
      using pos ok(2) len shape_lengths(3) [OF batch_okD(1) [OF ok(1)]] by (intro make_prompt_ok) (simp_all add: n lens2)
    let ?b3 = "b2\<lparr>ib_prompt_token_ids := Some (padded_prompts b2)\<rparr>"
    have "sync_sampling b = Inr ?b3"
      using False n prompt by (simp add: sync_sampling_def Let_def) (simp add: b2_def b1_def)
    moreover have h3: "host ?b3 = host b2" by (simp add: host_def)
    moreover have "sampling_synced ?b3"
      using n host_cong(1,9) [OF h3] shape_lengths [OF batch_okD(1) [OF ok(1)]] ok(2)
      by (simp add: sampling_synced_def Let_def) (simp add: b2_def b1_def take_copy_prefix)
    moreover have "batch_shape ?b3" using shape(2) by (simp add: batch_shape_def)
    ultimately show ?thesis using that h(2) by simp
  qed
qed


section \<open>Metadata per request\<close>

definition params_of :: "model_runner \<Rightarrow> req_id \<Rightarrow> sampling_params_args" where
  "params_of r rid = crs_sampling_params (state_of r rid)"

definition logprobs_of :: "model_runner \<Rightarrow> req_id \<Rightarrow> int" where
  "logprobs_of r rid = (case p_logprobs (params_of r rid) of None \<Rightarrow> 0 | Some l \<Rightarrow> max 0 (logprobs_value l))"

definition metadata_ok :: "sampling_metadata \<Rightarrow> model_runner \<Rightarrow> bool" where
  "metadata_ok m r \<longleftrightarrow> (let ids = batch_list (mr_batch r); P = params_of r; c = state_of r in
     sm_temperature m = map (\<lambda>rid. p_temperature (P rid)) ids
     \<and> sm_top_p m = map (\<lambda>rid. p_top_p (P rid)) ids \<and> sm_top_k m = map (\<lambda>rid. p_top_k (P rid)) ids
     \<and> sm_all_greedy m = (\<forall>rid \<in> set ids. sampling_type_of (P rid) = GREEDY)
     \<and> sm_all_random m = (\<forall>rid \<in> set ids. sampling_type_of (P rid) \<noteq> GREEDY)
     \<and> sm_no_top_p m = (\<forall>rid \<in> set ids. 1 \<le> p_top_p (P rid))
     \<and> sm_no_top_k m = (\<forall>rid \<in> set ids. p_top_k (P rid) \<le> 0)
     \<and> sm_generators m = (\<lambda>i. if i < length ids then crs_generator (c (ids ! i)) else None)
     \<and> sm_max_num_logprobs m = Max (insert 0 (logprobs_of r ` set ids))
     \<and> sm_no_penalties m = (\<forall>rid \<in> set ids. p_frequency_penalty (P rid) = 0 \<and> p_presence_penalty (P rid) = 0
          \<and> p_repetition_penalty (P rid) = 1)
     \<and> (sm_no_penalties m \<or>
          sm_frequency_penalties m = map (\<lambda>rid. p_frequency_penalty (P rid)) ids
          \<and> sm_presence_penalties m = map (\<lambda>rid. p_presence_penalty (P rid)) ids
          \<and> sm_repetition_penalties m = map (\<lambda>rid. p_repetition_penalty (P rid)) ids
          \<and> sm_prompt_token_ids m = Some (map (\<lambda>rid. crs_prompt_token_ids (c rid)
              @ replicate (Max ((\<lambda>rid. length (crs_prompt_token_ids (c rid))) ` set ids) - length (crs_prompt_token_ids (c rid)))
                  (ib_vocab_size (mr_batch r))) ids))
     \<and> sm_output_token_ids m = map (\<lambda>rid. crs_output_token_ids (c rid)) ids
     \<and> sm_min_tokens m = map (\<lambda>rid. p_min_tokens (P rid)) ids
     \<and> sm_stop_token_ids m = map (\<lambda>rid. p_all_stop_token_ids (P rid)) ids)"

text \<open>A column of the batch lists one datum per request.\<close>

lemma take_column:
  assumes "runner_inv r" "length col = ib_max_num_reqs (mr_batch r)"
    "\<And>i. i < num_reqs (mr_batch r) \<Longrightarrow> col ! i = f (batch_list (mr_batch r) ! i)"
  shows "take (num_reqs (mr_batch r)) col = map f (batch_list (mr_batch r))"
proof -
  have "batch_ok (mr_batch r)" "occupied (mr_batch r) = {..<num_reqs (mr_batch r)}"
    using assms(1) by (simp_all add: runner_inv_def runner_midD)
  note rows = batch_list_rows [OF this]
  show ?thesis using assms(2,3) rows(2,3) by (intro nth_equalityI) simp_all
qed

lemma row_params:
  assumes "runner_inv r" "i < num_reqs (mr_batch r)"
  defines "b \<equiv> mr_batch r" and "rid \<equiv> batch_list (mr_batch r) ! i"
  defines "p \<equiv> params_of r rid"
  shows "temperature_cpu b ! i = p_temperature p" "top_p_cpu b ! i = p_top_p p" "top_k_cpu b ! i = p_top_k p"
    "frequency_penalties_cpu b ! i = p_frequency_penalty p" "presence_penalties_cpu b ! i = p_presence_penalty p"
    "repetition_penalties_cpu b ! i = p_repetition_penalty p" "ib_min_tokens b ! i = p_min_tokens p"
    "ib_stop_token_ids b ! i = p_all_stop_token_ids p" "generators b i = crs_generator (state_of r rid)"
    "ib_num_prompt_tokens b ! i = length (crs_prompt_token_ids (state_of r rid))"
  using row_holds(2) [OF assms(1,2)]
  by (simp_all add: holds_def Let_def entry_at_def b_def rid_def p_def params_of_def)

lemma request_flags:
  assumes "runner_inv r" "rid \<in> set (batch_list (mr_batch r))"
  defines "b \<equiv> mr_batch r" and "p \<equiv> params_of r rid"
  shows "rid \<in> greedy_reqs b \<longleftrightarrow> sampling_type_of p = GREEDY" "rid \<in> random_reqs b \<longleftrightarrow> sampling_type_of p \<noteq> GREEDY"
    "rid \<in> top_p_reqs b \<longleftrightarrow> p_top_p p < 1" "rid \<in> top_k_reqs b \<longleftrightarrow> 0 < p_top_k p"
    "rid \<in> frequency_penalties_reqs b \<longleftrightarrow> p_frequency_penalty p \<noteq> 0"
    "rid \<in> presence_penalties_reqs b \<longleftrightarrow> p_presence_penalty p \<noteq> 0"
    "rid \<in> repetition_penalties_reqs b \<longleftrightarrow> p_repetition_penalty p \<noteq> 1"
    "map_of (num_logprobs b) rid = (case p_logprobs p of None \<Rightarrow> None
       | Some l \<Rightarrow> if 0 < logprobs_value l then Some (logprobs_value l) else None)"
proof -
  have ok: "batch_ok (mr_batch r)" "occupied (mr_batch r) = {..<num_reqs (mr_batch r)}"
    using assms(1) by (simp_all add: runner_inv_def runner_midD)
  obtain i where i: "i < num_reqs (mr_batch r)" "rid = batch_list (mr_batch r) ! i"
    using assms(2) batch_list_rows(2) [OF ok] by (auto simp: in_set_conv_nth)
  show "rid \<in> greedy_reqs b \<longleftrightarrow> sampling_type_of p = GREEDY" "rid \<in> random_reqs b \<longleftrightarrow> sampling_type_of p \<noteq> GREEDY"
    "rid \<in> top_p_reqs b \<longleftrightarrow> p_top_p p < 1" "rid \<in> top_k_reqs b \<longleftrightarrow> 0 < p_top_k p"
    "rid \<in> frequency_penalties_reqs b \<longleftrightarrow> p_frequency_penalty p \<noteq> 0"
    "rid \<in> presence_penalties_reqs b \<longleftrightarrow> p_presence_penalty p \<noteq> 0"
    "rid \<in> repetition_penalties_reqs b \<longleftrightarrow> p_repetition_penalty p \<noteq> 1"
    "map_of (num_logprobs b) rid = (case p_logprobs p of None \<Rightarrow> None
       | Some l \<Rightarrow> if 0 < logprobs_value l then Some (logprobs_value l) else None)"
    using row_holds(2) [OF assms(1) i(1)] unfolding b_def p_def i(2)
    by (simp_all add: holds_def Let_def entry_at_def params_of_def)
qed

text \<open>A set beside the arrays is empty when no request of the batch is in it.\<close>

lemma flag_empty:
  assumes "runner_inv r" "A \<subseteq> batch_ids (mr_batch r)" "\<And>rid. rid \<in> set (batch_list (mr_batch r)) \<Longrightarrow> rid \<in> A \<longleftrightarrow> P rid"
  shows "A = {} \<longleftrightarrow> (\<forall>rid \<in> set (batch_list (mr_batch r)). \<not> P rid)"
proof -
  have "batch_ok (mr_batch r)" "occupied (mr_batch r) = {..<num_reqs (mr_batch r)}"
    using assms(1) by (simp_all add: runner_inv_def runner_midD)
  note ids = batch_list_ids(2) [OF this]
  show ?thesis using assms(2,3) unfolding ids by blast
qed

lemma batch_flags:
  assumes inv: "runner_inv r"
  defines "b \<equiv> mr_batch r" and "ids \<equiv> batch_list (mr_batch r)"
  shows "all_greedy b \<longleftrightarrow> (\<forall>rid \<in> set ids. sampling_type_of (params_of r rid) = GREEDY)"
    "all_random b \<longleftrightarrow> (\<forall>rid \<in> set ids. sampling_type_of (params_of r rid) \<noteq> GREEDY)"
    "no_top_p b \<longleftrightarrow> (\<forall>rid \<in> set ids. 1 \<le> p_top_p (params_of r rid))"
    "no_top_k b \<longleftrightarrow> (\<forall>rid \<in> set ids. p_top_k (params_of r rid) \<le> 0)"
    "no_penalties b \<longleftrightarrow> (\<forall>rid \<in> set ids. p_frequency_penalty (params_of r rid) = 0
       \<and> p_presence_penalty (params_of r rid) = 0 \<and> p_repetition_penalty (params_of r rid) = 1)"
proof -
  have "no_leftovers b" using inv by (simp add: b_def runner_inv_def runner_midD batch_okD)
  then have sub: "greedy_reqs b \<subseteq> batch_ids b" "random_reqs b \<subseteq> batch_ids b" "top_p_reqs b \<subseteq> batch_ids b"
    "top_k_reqs b \<subseteq> batch_ids b" "frequency_penalties_reqs b \<subseteq> batch_ids b"
    "presence_penalties_reqs b \<subseteq> batch_ids b" "repetition_penalties_reqs b \<subseteq> batch_ids b"
    by (simp_all add: no_leftovers_def)
  note fl = request_flags [OF inv]
  note e = flag_empty [OF inv, folded b_def]
  show "all_greedy b \<longleftrightarrow> (\<forall>rid \<in> set ids. sampling_type_of (params_of r rid) = GREEDY)"
    unfolding all_greedy_def ids_def using e [OF sub(2), OF fl(2) [folded b_def]] by (simp add: b_def)
  show "all_random b \<longleftrightarrow> (\<forall>rid \<in> set ids. sampling_type_of (params_of r rid) \<noteq> GREEDY)"
    unfolding all_random_def ids_def using e [OF sub(1), OF fl(1) [folded b_def]] by (simp add: b_def)
  show "no_top_p b \<longleftrightarrow> (\<forall>rid \<in> set ids. 1 \<le> p_top_p (params_of r rid))"
    unfolding no_top_p_def ids_def using e [OF sub(3), OF fl(3) [folded b_def]] by (simp add: not_less b_def)
  show "no_top_k b \<longleftrightarrow> (\<forall>rid \<in> set ids. p_top_k (params_of r rid) \<le> 0)"
    unfolding no_top_k_def ids_def using e [OF sub(4), OF fl(4) [folded b_def]] by (simp add: not_less b_def)
  show "no_penalties b \<longleftrightarrow> (\<forall>rid \<in> set ids. p_frequency_penalty (params_of r rid) = 0
       \<and> p_presence_penalty (params_of r rid) = 0 \<and> p_repetition_penalty (params_of r rid) = 1)"
    unfolding no_penalties_def ids_def using e [OF sub(5), OF fl(5) [folded b_def]] e [OF sub(6), OF fl(6) [folded b_def]]
      e [OF sub(7), OF fl(7) [folded b_def]] by (auto simp: b_def)
qed


lemma logprobs_exact:
  assumes inv: "runner_inv r"
  shows "max_num_logprobs (mr_batch r) = Max (insert 0 (logprobs_of r ` set (batch_list (mr_batch r))))"
proof -
  let ?b = "mr_batch r" and ?ids = "batch_list (mr_batch r)"
  have ok: "batch_ok ?b" "occupied ?b = {..<num_reqs ?b}" using inv by (simp_all add: runner_inv_def runner_midD)
  have nl: "fst ` set (num_logprobs ?b) \<subseteq> set ?ids" "distinct (map fst (num_logprobs ?b))"
    using batch_okD(3) [OF ok(1)] batch_list_ids(2) [OF ok] by (simp_all add: no_leftovers_def)
  note fl = request_flags(8) [OF inv]
  have val: "x \<in> snd ` set (num_logprobs ?b) \<longleftrightarrow> 0 < x \<and> (\<exists>rid \<in> set ?ids. logprobs_of r rid = x)" for x
  proof
    assume "x \<in> snd ` set (num_logprobs ?b)"
    then obtain rid where "(rid, x) \<in> set (num_logprobs ?b)" by force
    moreover from this have "map_of (num_logprobs ?b) rid = Some x" "rid \<in> set ?ids" using nl by force+
    ultimately show "0 < x \<and> (\<exists>rid \<in> set ?ids. logprobs_of r rid = x)"
      using fl [of rid] by (intro conjI bexI [of _ rid]) (auto simp: logprobs_of_def split: option.splits if_splits)
  next
    assume "0 < x \<and> (\<exists>rid \<in> set ?ids. logprobs_of r rid = x)"
    then obtain rid where "0 < x" "rid \<in> set ?ids" "logprobs_of r rid = x" by blast
    then have "map_of (num_logprobs ?b) rid = Some x"
      using fl [of rid] by (auto simp: logprobs_of_def max_def split: option.splits if_splits)
    then show "x \<in> snd ` set (num_logprobs ?b)" by (force dest: map_of_SomeD)
  qed
  have nonneg: "0 \<le> logprobs_of r rid" for rid by (simp add: logprobs_of_def split: option.split)
  have "insert 0 (snd ` set (num_logprobs ?b)) = insert 0 (logprobs_of r ` set ?ids)"
  proof (rule set_eqI)
    fix x
    show "x \<in> insert 0 (snd ` set (num_logprobs ?b)) \<longleftrightarrow> x \<in> insert 0 (logprobs_of r ` set ?ids)"
      using val [of x] nonneg by (cases "x = 0") (auto simp: order_le_less)
  qed
  moreover have "max_num_logprobs ?b = Max (insert 0 (snd ` set (num_logprobs ?b)))"
  proof (cases "num_logprobs ?b = []")
    case False
    then have mem: "snd (hd (num_logprobs ?b)) \<in> snd ` set (num_logprobs ?b)" by simp
    then have "0 < snd (hd (num_logprobs ?b))" using val by blast
    also have "\<dots> \<le> Max (snd ` set (num_logprobs ?b))" using mem by simp
    finally have "0 < Max (snd ` set (num_logprobs ?b))" .
    with False show ?thesis by (simp add: max_num_logprobs_def Max_insert)
  qed (simp add: max_num_logprobs_def)
  ultimately show ?thesis by simp
qed

lemma gather_outputs_ok:
  "(\<And>rid. rid \<in> set ids \<Longrightarrow> outs rid = Some (f rid)) \<Longrightarrow> gather_outputs outs (map Some ids) = Inr (map f ids)"
  by (induction ids) simp_all

lemma padded_prompts_exact:
  assumes inv: "runner_inv r"
  shows "padded_prompts (mr_batch r) = map (\<lambda>rid. crs_prompt_token_ids (state_of r rid)
    @ replicate (Max ((\<lambda>rid. length (crs_prompt_token_ids (state_of r rid))) ` set (batch_list (mr_batch r)))
                 - length (crs_prompt_token_ids (state_of r rid))) (ib_vocab_size (mr_batch r))) (batch_list (mr_batch r))"
proof -
  let ?b = "mr_batch r" and ?ids = "batch_list (mr_batch r)"
  let ?len = "\<lambda>rid. length (crs_prompt_token_ids (state_of r rid))"
  have ok: "batch_ok ?b" "occupied ?b = {..<num_reqs ?b}" using inv by (simp_all add: runner_inv_def runner_midD)
  note rows = batch_list_rows [OF ok]
  have lens: "take (num_reqs ?b) (ib_num_prompt_tokens ?b) = map ?len ?ids"
    by (rule take_column [OF inv]) (simp_all add: shape_lengths [OF batch_okD(1) [OF ok(1)]] row_params(10) [OF inv])
  define m where "m = Max (?len ` set ?ids)"
  have "take (ib_num_prompt_tokens ?b ! i) (take m (token_ids_cpu ?b ! i)) = crs_prompt_token_ids (state_of r (?ids ! i))"
    if i: "i < num_reqs ?b" for i
  proof -
    have "take (length (all_tokens (state_of r (?ids ! i)))) (token_ids_cpu ?b ! i) = all_tokens (state_of r (?ids ! i))"
      using row_holds(2) [OF inv i] by (simp add: holds_def Let_def entry_at_def all_tokens_def)
    then have "take (?len (?ids ! i)) (token_ids_cpu ?b ! i) = crs_prompt_token_ids (state_of r (?ids ! i))"
      by (metis all_tokens_def append_eq_conv_conj length_append min.absorb1 le_add1 take_take)
    moreover have "?len (?ids ! i) \<le> m" unfolding m_def using i rows(2) by (intro Max_ge) auto
    ultimately show ?thesis by (simp add: row_params(10) [OF inv i] min_absorb1)
  qed
  then show ?thesis
    unfolding padded_prompts_def Let_def lens set_map m_def [symmetric]
    using rows(2) row_params(10) [OF inv] by (intro nth_equalityI) simp_all
qed

lemma metadata_exact:
  assumes inv: "runner_inv r" and sync: "sampling_synced (mr_batch r)"
  shows "gather_outputs (\<lambda>rid. map_option crs_output_token_ids (mr_requests r rid))
      (take (num_reqs (mr_batch r)) (ib_req_ids (mr_batch r)))
    = Inr (map (\<lambda>rid. crs_output_token_ids (state_of r rid)) (batch_list (mr_batch r)))"
    "metadata_ok (metadata_of (mr_batch r) (map (\<lambda>rid. crs_output_token_ids (state_of r rid)) (batch_list (mr_batch r)))) r"
proof -
  let ?b = "mr_batch r" and ?ids = "batch_list (mr_batch r)"
  have ok: "batch_ok ?b" "occupied ?b = {..<num_reqs ?b}" using inv by (simp_all add: runner_inv_def runner_midD)
  note rows = batch_list_rows [OF ok] and len = shape_lengths [OF batch_okD(1) [OF ok(1)]]
  have "mr_requests r rid = Some (state_of r rid)" if "rid \<in> set ?ids" for rid
    using that row_holds(1) [OF inv] rows(2) by (auto simp: in_set_conv_nth)
  then show "gather_outputs (\<lambda>rid. map_option crs_output_token_ids (mr_requests r rid)) (take (num_reqs ?b) (ib_req_ids ?b))
    = Inr (map (\<lambda>rid. crs_output_token_ids (state_of r rid)) ?ids)"
    unfolding rows(1) by (intro gather_outputs_ok) simp
  note col = take_column [OF inv] and par = row_params [OF inv]
  have cols: "take (num_reqs ?b) (temperature_cpu ?b) = map (\<lambda>rid. p_temperature (params_of r rid)) ?ids"
    "take (num_reqs ?b) (top_p_cpu ?b) = map (\<lambda>rid. p_top_p (params_of r rid)) ?ids"
    "take (num_reqs ?b) (top_k_cpu ?b) = map (\<lambda>rid. p_top_k (params_of r rid)) ?ids"
    "take (num_reqs ?b) (frequency_penalties_cpu ?b) = map (\<lambda>rid. p_frequency_penalty (params_of r rid)) ?ids"
    "take (num_reqs ?b) (presence_penalties_cpu ?b) = map (\<lambda>rid. p_presence_penalty (params_of r rid)) ?ids"
    "take (num_reqs ?b) (repetition_penalties_cpu ?b) = map (\<lambda>rid. p_repetition_penalty (params_of r rid)) ?ids"
    "take (num_reqs ?b) (ib_min_tokens ?b) = map (\<lambda>rid. p_min_tokens (params_of r rid)) ?ids"
    "take (num_reqs ?b) (ib_stop_token_ids ?b) = map (\<lambda>rid. p_all_stop_token_ids (params_of r rid)) ?ids"
    by (rule col; simp add: len par)+
  have gens: "generators ?b = (\<lambda>i. if i < length ?ids then crs_generator (state_of r (?ids ! i)) else None)"
    using batch_okD(3) [OF ok(1)] ok(2) rows(2) par(9) by (auto simp: no_leftovers_def fun_eq_iff)
  show "metadata_ok (metadata_of ?b (map (\<lambda>rid. crs_output_token_ids (state_of r rid)) ?ids)) r"
    using sync cols unfolding metadata_ok_def metadata_of_def sampling_synced_def Let_def
    by (simp add: batch_flags [OF inv] gens logprobs_exact [OF inv] padded_prompts_exact [OF inv])
qed


section \<open>Keeping the copies current\<close>

definition quiet :: "scheduler_msg \<Rightarrow> bool" where
  "quiet so \<longleftrightarrow> msg_finished so = {} \<and> msg_preempted so = {} \<and> msg_new so = [] \<and> msg_resumed so = []"

lemma prepare_sampling_ok:
  assumes inv: "runner_inv r" and sync: "quiet so \<Longrightarrow> sampling_synced (mr_batch r)"
  obtains m b where "prepare_sampling so r = Inr (m, r\<lparr>mr_batch := b\<rparr>)" "host b = host (mr_batch r)" "batch_shape b"
    "sampling_synced b" "metadata_ok m (r\<lparr>mr_batch := b\<rparr>)" "runner_inv (r\<lparr>mr_batch := b\<rparr>)"
proof -
  let ?b = "mr_batch r"
  have mid: "runner_mid r" and occ: "occupied ?b = {..<num_reqs ?b}" using inv by (simp_all add: runner_inv_def)
  note ok = runner_midD(1) [OF mid]
  have len: "ib_num_prompt_tokens ?b ! i \<le> ib_max_model_len ?b" if "i < num_reqs ?b" for i
    using row_params(10) [OF inv that] row_limits(1) [OF inv that] by (simp add: all_tokens_def)
  obtain b where b: "(if quiet so then Inr ?b else sync_sampling ?b) = Inr b" "host b = host ?b" "batch_shape b" "sampling_synced b"
  proof (cases "quiet so")
    case True
    with sync batch_okD(1) [OF ok] show ?thesis by (intro that [of ?b]) simp_all
  next
    case False
    with sync_sampling_ok [OF ok num_reqs_bound [OF ok occ] len] that show ?thesis by auto
  qed
  have inv': "runner_inv (r\<lparr>mr_batch := b\<rparr>)" by (rule runner_inv_host [OF inv b(2,3)])
  note meta = metadata_exact [OF inv', simplified, OF b(4)]
  show ?thesis
    using that [OF _ b(2-4)] inv' meta b(1) by (simp add: prepare_sampling_def make_sampling_metadata_def quiet_def state_of_def)
qed

lemma padded_prompts_upd [simp]:
  "padded_prompts (b\<lparr>num_computed_tokens_cpu := x\<rparr>) = padded_prompts b"
  "padded_prompts (b\<lparr>block_table_cpu := y\<rparr>) = padded_prompts b"
  "padded_prompts (b\<lparr>block_table := y\<rparr>) = padded_prompts b"
  by (simp_all add: padded_prompts_def num_reqs_def)

lemma sampling_synced_upd [simp]:
  "sampling_synced (b\<lparr>num_computed_tokens_cpu := x\<rparr>) = sampling_synced b"
  "sampling_synced (b\<lparr>block_table_cpu := y\<rparr>) = sampling_synced b"
  "sampling_synced (b\<lparr>block_table := y\<rparr>) = sampling_synced b"
  by (simp_all add: sampling_synced_def num_reqs_def no_penalties_def)

lemma update_running_synced:
  "update_running d r = Inr r' \<Longrightarrow> sampling_synced (mr_batch r) \<Longrightarrow> sampling_synced (mr_batch r')"
  by (auto simp: update_running_def Let_def split: option.splits if_splits)

text \<open>When no request stops, starts or resumes, the rows and parameters stay as they are.\<close>

lemma update_states_quiet:
  assumes "quiet so" "set (listed {}) = {}" "update_states listed so r = Inr r'" "sampling_synced (mr_batch r)"
  shows "sampling_synced (mr_batch r')"
proof -
  from assms(1-3) obtain r1 where "fold_result update_running (msg_running so)
      ((drop_finished {} r)\<lparr>mr_encoder_cache := fold free_encoder_output (msg_free_encoder so) (mr_encoder_cache (drop_finished {} r)),
         mr_batch := mr_batch (drop_finished {} r)\<rparr>) = Inr r1" and "refill_batch [] [] r1 = Inr r'"
    by (auto simp: quiet_def update_states_def Let_def)
  moreover from this(1) have "sampling_synced (mr_batch r1)"
    by (rule fold_result_invariant [where P = "\<lambda>r. sampling_synced (mr_batch r)"])
      (use assms(4) in \<open>auto simp: drop_finished_def intro: update_running_synced\<close>)
  ultimately show ?thesis by (auto simp: refill_batch_def)
qed

end
