(* ===== verification/RunnerEncoder.thy ===== *)
theory RunnerEncoder
  imports RunnerSampling
begin

text \<open>
  The multi-modal encoder in a step: the outputs the scheduler asks for are computed and cached, and
  the rows of cached outputs that overlap the tokens of the step are gathered in order.
\<close>

section \<open>The cache of encoder outputs\<close>

definition cached_output :: "(req_id \<rightharpoonup> (nat \<times> embedding list) list) \<Rightarrow> req_id \<Rightarrow> nat \<Rightarrow> embedding list option" where
  "cached_output cache rid i = (case cache rid of None \<Rightarrow> None | Some outs \<Rightarrow> map_of outs i)"

lemma cached_output_store:
  "cached_output (store_encoder_output ((rid, i), out) cache) rid' j =
     (if rid' = rid \<and> j = i then Some out else cached_output cache rid' j)"
  by (simp add: cached_output_def store_encoder_output_def split: option.split)

lemma cached_output_fold_store:
  "cached_output (fold store_encoder_output xs cache) rid i =
     (case map_of (rev xs) (rid, i) of Some out \<Rightarrow> Some out | None \<Rightarrow> cached_output cache rid i)"
proof (induction xs arbitrary: cache)
  case (Cons x xs)
  obtain k j out where "x = ((k, j), out)" by (metis surj_pair)
  with Cons.IH show ?case
    by (auto simp: cached_output_store map_add_def split: option.splits)
qed simp

definition encoder_ids :: "scheduler_msg \<Rightarrow> (req_id \<times> nat) list" where
  "encoder_ids so = concat (map (\<lambda>(rid, is). map (Pair rid) is) (msg_encoder_inputs so))"

definition mm_input :: "model_runner \<Rightarrow> req_id \<times> nat \<Rightarrow> mm_kwargs option" where
  "mm_input r = (\<lambda>(rid, i). crs_mm_inputs (state_of r rid) ! i)"

lemma collect_mm_inputs_ok:
  "(\<And>rid i. (rid, i) \<in> set ids \<Longrightarrow> mr_requests r rid \<noteq> None \<and> i < length (crs_mm_inputs (state_of r rid))) \<Longrightarrow>
   collect_mm_inputs (mr_requests r) ids = Inr (map (mm_input r) ids)"
proof (induction ids)
  case (Cons x ids)
  obtain rid i where x: "x = (rid, i)" by fastforce
  with Cons.prems [of rid i] obtain c where "mr_requests r rid = Some c" "i < length (crs_mm_inputs c)"
    by (auto simp: state_of_def)
  moreover have "collect_mm_inputs (mr_requests r) ids = Inr (map (mm_input r) ids)"
    by (rule Cons.IH) (use Cons.prems in auto)
  ultimately show ?case using x by (simp add: mm_input_def state_of_def)
qed simp

section \<open>Gathering\<close>

text \<open>The inputs whose tokens overlap the step, up to the first one that starts behind it.\<close>

definition needed_inputs :: "int \<Rightarrow> int \<Rightarrow> nat \<Rightarrow> placeholder_range list \<Rightarrow> (nat \<times> placeholder_range) list" where
  "needed_inputs computed sched i ps = filter (\<lambda>(_, p). computed < offset p + range_length p)
     (takeWhile (\<lambda>(_, p). offset p < computed + sched) (zip [i..<i + length ps] ps))"

definition overlap_rows :: "int \<Rightarrow> int \<Rightarrow> placeholder_range \<Rightarrow> embedding list \<Rightarrow> embedding list" where
  "overlap_rows computed sched p out =
     py_slice out (max (computed - offset p) 0) (min (computed - offset p + sched) (range_length p))"

lemma needed_inputs_Cons:
  "needed_inputs computed sched i (p # ps) =
     (if computed + sched \<le> offset p then []
      else if offset p + range_length p \<le> computed then needed_inputs computed sched (Suc i) ps
      else (i, p) # needed_inputs computed sched (Suc i) ps)"
proof -
  have "[i..<i + length (p # ps)] = i # [Suc i..<Suc i + length ps]" by (simp add: upt_conv_Cons del: upt_Suc)
  then show ?thesis by (simp add: needed_inputs_def not_le)
qed

lemma gather_from_ok:
  assumes "0 < sched"
    and "\<And>j p. (j, p) \<in> set (needed_inputs computed sched i ps) \<Longrightarrow> 0 < range_length p \<and> (\<exists>outs. outputs = Some outs \<and> map_of outs j = Some (f j))"
  shows "gather_from outputs computed sched i ps = Inr (map (\<lambda>(j, p). overlap_rows computed sched p (f j)) (needed_inputs computed sched i ps))"
  using assms(2)
proof (induction ps arbitrary: i)
  case Nil
  then show ?case by (simp add: needed_inputs_def)
next
  case (Cons p ps)
  consider "computed + sched \<le> offset p" | "offset p < computed + sched" "offset p + range_length p \<le> computed"
    | "offset p < computed + sched" "computed < offset p + range_length p" by linarith
  then show ?case
  proof cases
    case 3
    from Cons.prems [of i p] 3 obtain outs where "0 < range_length p" "outputs = Some outs" "map_of outs i = Some (f i)"
      by (auto simp: needed_inputs_Cons)
    moreover have "max (computed - offset p) 0 < min (computed - offset p + sched) (range_length p)"
      using 3 \<open>0 < range_length p\<close> assms(1) by simp
    moreover have "gather_from outputs computed sched (Suc i) ps
        = Inr (map (\<lambda>(j, p). overlap_rows computed sched p (f j)) (needed_inputs computed sched (Suc i) ps))"
      using Cons.prems 3 by (intro Cons.IH) (auto simp: needed_inputs_Cons)
    ultimately show ?thesis using 3 by (simp add: needed_inputs_Cons Let_def overlap_rows_def)
  next
    case 2
    then show ?thesis using Cons.prems Cons.IH [of "Suc i"] by (simp add: needed_inputs_Cons Let_def)
  qed (simp add: needed_inputs_Cons Let_def)
qed


section \<open>The encoder phase\<close>

definition cache_after :: "(mm_kwargs option list \<Rightarrow> embedding list list) \<Rightarrow> scheduler_msg \<Rightarrow> model_runner \<Rightarrow>
    req_id \<rightharpoonup> (nat \<times> embedding list) list" where
  "cache_after encode so r = (if msg_encoder_inputs so = [] then mr_encoder_cache r
     else fold store_encoder_output (zip (encoder_ids so) (encode (map (mm_input r) (encoder_ids so)))) (mr_encoder_cache r))"

definition needed_by :: "scheduler_msg \<Rightarrow> model_runner \<Rightarrow> req_id \<Rightarrow> (nat \<times> placeholder_range) list" where
  "needed_by so r rid = needed_inputs (crs_num_computed_tokens (state_of r rid)) (token_count so rid) 0 (crs_mm_positions (state_of r rid))"

text \<open>What is needed is cached, or encoded in this step; what is encoded belongs to a known request.\<close>

definition encoder_ready :: "scheduler_msg \<Rightarrow> model_runner \<Rightarrow> bool" where
  "encoder_ready so r \<longleftrightarrow>
     (\<forall>(rid, i) \<in> set (encoder_ids so). mr_requests r rid \<noteq> None \<and> i < length (crs_mm_inputs (state_of r rid)))
     \<and> (\<forall>rid \<in> set (batch_list (mr_batch r)). \<forall>(j, p) \<in> set (needed_by so r rid). 0 < range_length p
          \<and> (cached_output (mr_encoder_cache r) rid j \<noteq> None \<or> (rid, j) \<in> set (encoder_ids so)))"

definition gathered :: "(mm_kwargs option list \<Rightarrow> embedding list list) \<Rightarrow> scheduler_msg \<Rightarrow> model_runner \<Rightarrow> embedding list list" where
  "gathered encode so r = concat (map (\<lambda>rid. map (\<lambda>(j, p).
     overlap_rows (crs_num_computed_tokens (state_of r rid)) (token_count so rid) p
       (the (cached_output (cache_after encode so r) rid j))) (needed_by so r rid)) (batch_list (mr_batch r)))"

lemma cache_after_ready:
  assumes "length (encode (map (mm_input r) (encoder_ids so))) = length (encoder_ids so)"
    "cached_output (mr_encoder_cache r) rid j \<noteq> None \<or> (rid, j) \<in> set (encoder_ids so)"
  shows "cached_output (cache_after encode so r) rid j \<noteq> None"
proof (cases "msg_encoder_inputs so = []")
  case True
  with assms(2) show ?thesis by (simp add: cache_after_def encoder_ids_def)
next
  case False
  let ?xs = "zip (encoder_ids so) (encode (map (mm_input r) (encoder_ids so)))"
  have "map fst ?xs = encoder_ids so" using assms(1) by simp
  then have "fst ` set ?xs = set (encoder_ids so)" by (metis list.set_map)
  then have "(rid, j) \<in> set (encoder_ids so) \<Longrightarrow> map_of (rev ?xs) (rid, j) \<noteq> None"
    by (simp add: map_of_eq_None_iff)
  with False assms(2) show ?thesis
    by (auto simp: cache_after_def cached_output_fold_store split: option.splits)
qed

lemma gather_encoder_outputs_ok:
  assumes "\<And>rid. rid \<in> set ids \<Longrightarrow> map_of ns rid = Some (n rid) \<and> mr_requests r rid = Some (c rid)
      \<and> gather_from (mr_encoder_cache r rid) (crs_num_computed_tokens (c rid)) (n rid) 0 (crs_mm_positions (c rid)) = Inr (g rid)"
  shows "gather_encoder_outputs r ns (map Some ids) = Inr (concat (map g ids))"
  using assms by (induction ids) simp_all

lemma run_encoder_ok:
  assumes inv: "runner_inv r" and step: "step_ok so r" and ready: "encoder_ready so r"
    and enc: "\<And>xs. length (encode xs) = length xs" and mm: "mr_is_multimodal r"
  shows "run_encoder encode so r = Inr (gathered encode so r, r\<lparr>mr_encoder_cache := cache_after encode so r\<rparr>)"
proof -
  let ?r = "r\<lparr>mr_encoder_cache := cache_after encode so r\<rparr>" and ?ids = "batch_list (mr_batch r)"
  have b: "batch_ok (mr_batch r)" "occupied (mr_batch r) = {..<num_reqs (mr_batch r)}"
    using inv by (simp_all add: runner_inv_def runner_midD)
  note rows = batch_list_rows [OF b]
  have "collect_mm_inputs (mr_requests r) (encoder_ids so) = Inr (map (mm_input r) (encoder_ids so))"
    by (rule collect_mm_inputs_ok) (use ready in \<open>auto simp: encoder_ready_def\<close>)
  then have exec: "execute_encoder encode so r = Inr ?r"
    by (simp add: execute_encoder_def cache_after_def encoder_ids_def Let_def)
  have "gather_encoder_outputs ?r (msg_num_scheduled so) (map Some ?ids) = Inr (gathered encode so r)"
    unfolding gathered_def
  proof (rule gather_encoder_outputs_ok [where c = "state_of r" and n = "token_count so"])
    fix rid assume rid: "rid \<in> set ?ids"
    have "gather_from (cache_after encode so r rid) (crs_num_computed_tokens (state_of r rid)) (token_count so rid) 0 (crs_mm_positions (state_of r rid))
      = Inr (map (\<lambda>(j, p). overlap_rows (crs_num_computed_tokens (state_of r rid)) (token_count so rid) p
          (the (cached_output (cache_after encode so r) rid j))) (needed_by so r rid))"
      unfolding needed_by_def
    proof (rule gather_from_ok)
      show "0 < token_count so rid" by (rule step_okD(2) [OF step rid])
      fix j p assume jp: "(j, p) \<in> set (needed_inputs (crs_num_computed_tokens (state_of r rid)) (token_count so rid) 0 (crs_mm_positions (state_of r rid)))"
      then have "0 < range_length p \<and> (cached_output (mr_encoder_cache r) rid j \<noteq> None \<or> (rid, j) \<in> set (encoder_ids so))"
        using ready rid unfolding encoder_ready_def needed_by_def by blast
      with cache_after_ready [of encode r so rid j] enc
      show "0 < range_length p \<and> (\<exists>outs. cache_after encode so r rid = Some outs
          \<and> map_of outs j = Some (the (cached_output (cache_after encode so r) rid j)))"
        by (auto simp: cached_output_def split: option.splits)
    qed
    moreover have "mr_requests r rid = Some (state_of r rid)"
      using rid row_holds(1) [OF inv] rows(2) by (auto simp: in_set_conv_nth)
    moreover have "map_of (msg_num_scheduled so) rid = Some (token_count so rid)"
      using step_okD(1) [OF step rid] by (auto simp: token_count_def)
    ultimately show "map_of (msg_num_scheduled so) rid = Some (token_count so rid) \<and> mr_requests ?r rid = Some (state_of r rid)
      \<and> gather_from (mr_encoder_cache ?r rid) (crs_num_computed_tokens (state_of r rid)) (token_count so rid) 0 (crs_mm_positions (state_of r rid))
        = Inr (map (\<lambda>(j, p). overlap_rows (crs_num_computed_tokens (state_of r rid)) (token_count so rid) p
            (the (cached_output (cache_after encode so r) rid j))) (needed_by so r rid))"
      by simp
  qed
  then show ?thesis using mm exec rows(1) by (simp add: run_encoder_def)
qed

end
