(* ===== verification/RunnerTokens.thy ===== *)
theory RunnerTokens
  imports RunnerEncoder
begin

text \<open>
  The sampled tokens are taken over, and the step as a whole: a request whose tokens are all computed
  gets its next token, in its state, in its row and in the output; the random generator of any other
  is rewound.
\<close>

section \<open>Writing a token\<close>

definition put_token :: "nat \<Rightarrow> nat \<Rightarrow> token \<Rightarrow> input_batch \<Rightarrow> input_batch" where
  "put_token i k t b = b\<lparr>token_ids_cpu := (token_ids_cpu b)[i := (token_ids_cpu b ! i)[k := t]]\<rparr>"

definition extend_output :: "token \<Rightarrow> cached_request_state \<Rightarrow> cached_request_state" where
  "extend_output t c = c\<lparr>crs_output_token_ids := crs_output_token_ids c @ [t]\<rparr>"

lemma put_token_simps [simp]:
  "ib_req_ids (put_token i k t b) = ib_req_ids b" "ib_req_id_to_index (put_token i k t b) = ib_req_id_to_index b"
  "batch_ids (put_token i k t b) = batch_ids b" "occupied (put_token i k t b) = occupied b"
  "num_reqs (put_token i k t b) = num_reqs b" "same_limits b (put_token i k t b)"
  "batch_list (put_token i k t b) = batch_list b" "generators (put_token i k t b) = generators b"
  "ib_max_num_reqs (put_token i k t b) = ib_max_num_reqs b"
  "ib_max_model_len (put_token i k t b) = ib_max_model_len b"
  "ib_max_num_blocks_per_req (put_token i k t b) = ib_max_num_blocks_per_req b"
  "ib_vocab_size (put_token i k t b) = ib_vocab_size b"
  by (simp_all add: put_token_def batch_ids_def occupied_def num_reqs_def same_limits_def batch_list_def)

lemma batch_ok_put_token:
  assumes "batch_ok b"
  shows "batch_ok (put_token i k t b)"
proof -
  have "length ((token_ids_cpu b)[i := (token_ids_cpu b ! i)[k := t]] ! j) = ib_max_model_len b"
    if "j < ib_max_num_reqs b" for j
    using that shape_lengths(2,14) [OF batch_okD(1) [OF assms]] by (cases "j = i") simp_all
  then have "batch_shape (put_token i k t b)"
    using batch_okD(1) [OF assms] unfolding batch_shape_def
    by (elim conjE, intro conjI allI impI) (simp_all add: put_token_def)
  moreover have "indexed (put_token i k t b)"
    using batch_okD(2) [OF assms] by (simp add: indexed_def)
  moreover have "no_leftovers (put_token i k t b)"
    using batch_okD(3) [OF assms] unfolding no_leftovers_def put_token_simps by (simp add: put_token_def)
  ultimately show ?thesis by (simp add: batch_ok_def)
qed

lemma batch_view_put_token:
  assumes "batch_ok b" "map_of (ib_req_id_to_index b) rid = Some i"
  shows "batch_view (put_token i k t b) = (batch_view b)(rid \<mapsto>
    (entry_at b rid i)\<lparr>e_tokens := (token_ids_cpu b ! i)[k := t]\<rparr>)"
proof
  fix r
  note ix = batch_okD(2) [OF assms(1)]
  have i: "i < ib_max_num_reqs b" using assms(2) indexedD(2) [OF ix] shape_length [OF batch_okD(1) [OF assms(1)]] by simp
  show "batch_view (put_token i k t b) r = ((batch_view b)(rid \<mapsto> (entry_at b rid i)\<lparr>e_tokens := (token_ids_cpu b ! i)[k := t]\<rparr>)) r"
  proof (cases "r = rid")
    case True
    then show ?thesis
      using assms(2) i shape_lengths [OF batch_okD(1) [OF assms(1)]]
      by (simp add: batch_view_def entry_at_def put_token_def)
  next
    case False
    then have "j \<noteq> i" if "map_of (ib_req_id_to_index b) r = Some j" for j
      using that assms(2) by (auto simp: indexedD(2) [OF ix])
    moreover have "entry_at (put_token i k t b) r j = entry_at b r j" if "j \<noteq> i" for j
      using that by (simp add: entry_at_def put_token_def)
    ultimately show ?thesis
      using False by (cases "map_of (ib_req_id_to_index b) r") (simp_all add: batch_view_def)
  qed
qed

lemma holds_extend:
  assumes "holds v c" "length (all_tokens c) < length (e_tokens v)"
  shows "holds (v\<lparr>e_tokens := (e_tokens v)[length (all_tokens c) := t]\<rparr>) (extend_output t c)"
proof -
  have "take (length (all_tokens c)) (e_tokens v) = all_tokens c"
    using assms(1) by (simp add: holds_def Let_def all_tokens_def)
  then have "take (Suc (length (all_tokens c))) ((e_tokens v)[length (all_tokens c) := t]) = all_tokens c @ [t]"
    using assms(2) by (simp add: take_Suc_conv_app_nth)
  with assms(1) show ?thesis by (simp add: holds_def Let_def extend_output_def all_tokens_def)
qed

lemma sampling_synced_put_token:
  assumes "sampling_synced b" "ib_num_prompt_tokens b ! i \<le> k"
  shows "sampling_synced (put_token i k t b)"
proof -
  have "take (ib_num_prompt_tokens b ! j) (take m ((token_ids_cpu b)[i := (token_ids_cpu b ! i)[k := t]] ! j))
      = take (ib_num_prompt_tokens b ! j) (take m (token_ids_cpu b ! j))" for j m
    using assms(2) by (cases "j = i"; cases "i < length (token_ids_cpu b)") (simp_all add: min_def take_update_cancel not_less list_update_beyond)
  then have "padded_prompts (put_token i k t b) = padded_prompts b"
    by (simp add: padded_prompts_def put_token_def num_reqs_def)
  with assms(1) show ?thesis
    by (simp add: sampling_synced_def) (simp add: put_token_def no_penalties_def)
qed

lemma runner_inv_put_token:
  assumes inv: "runner_inv r" and i: "i < num_reqs (mr_batch r)" "rid = batch_list (mr_batch r) ! i"
    and room: "length (all_tokens (state_of r rid)) < ib_max_model_len (mr_batch r)"
  shows "runner_inv (r\<lparr>mr_requests := (mr_requests r)(rid \<mapsto> extend_output t (state_of r rid)),
    mr_batch := put_token i (length (all_tokens (state_of r rid))) t (mr_batch r)\<rparr>)"
proof -
  have mid: "runner_mid r" and occ: "occupied (mr_batch r) = {..<num_reqs (mr_batch r)}"
    using inv by (simp_all add: runner_inv_def)
  note m = runner_midD [OF mid] and row = row_holds [OF inv i(1), folded i(2)]
  let ?b = "put_token i (length (all_tokens (state_of r rid))) t (mr_batch r)"
  have idx: "map_of (ib_req_id_to_index (mr_batch r)) rid = Some i"
    using batch_list_rows(4) [OF m(1) occ i(1)] i(2) by simp
  have "i < ib_max_num_reqs (mr_batch r)" using i(1) num_reqs_bound [OF m(1) occ] by simp
  then have len: "length (token_ids_cpu (mr_batch r) ! i) = ib_max_model_len (mr_batch r)"
    by (rule shape_lengths(14) [OF batch_okD(1) [OF m(1)]])
  have "holds ((entry_at (mr_batch r) rid i)\<lparr>e_tokens := (token_ids_cpu (mr_batch r) ! i)[length (all_tokens (state_of r rid)) := t]\<rparr>)
      (extend_output t (state_of r rid))"
    using holds_extend [OF row(2), of t] room len by (simp add: entry_at_def)
  with batch_view_put_token [OF m(1) idx] m(3) row(1) room
  have "runner_mid (r\<lparr>mr_requests := (mr_requests r)(rid \<mapsto> extend_output t (state_of r rid)), mr_batch := ?b\<rparr>)"
    by (intro runner_mid_update [OF mid row(1) batch_ok_put_token [OF m(1)]])
      (simp_all add: extend_output_def states_ok_def all_tokens_def)
  with occ show ?thesis by (simp add: runner_inv_def)
qed


section \<open>Taking the sampled tokens over\<close>

definition completes :: "scheduler_msg \<Rightarrow> model_runner \<Rightarrow> req_id \<Rightarrow> bool" where
  "completes so r rid \<longleftrightarrow> crs_num_computed_tokens (state_of r rid) + token_count so rid = int (length (all_tokens (state_of r rid)))"

text \<open>The scheduler reports the number of tokens of each request, and a new one fits the row.\<close>

definition tokens_ok :: "scheduler_msg \<Rightarrow> model_runner \<Rightarrow> bool" where
  "tokens_ok so r \<longleftrightarrow> (\<forall>rid \<in> set (batch_list (mr_batch r)).
     scheduled_num_tokens so rid = Some (int (length (all_tokens (state_of r rid))))
     \<and> map_of (msg_num_scheduled so) rid = Some (token_count so rid)
     \<and> crs_num_computed_tokens (state_of r rid) + token_count so rid \<le> int (length (all_tokens (state_of r rid)))
     \<and> (completes so r rid \<longrightarrow> length (all_tokens (state_of r rid)) < ib_max_model_len (mr_batch r)))"

definition rewind :: "generator \<Rightarrow> generator" where
  "rewind g = g\<lparr>gen_offset := gen_offset g - 4\<rparr>"

text \<open>The runner after the first \<open>k\<close> rows.\<close>

definition taken :: "scheduler_msg \<Rightarrow> token list \<Rightarrow> model_runner \<Rightarrow> nat \<Rightarrow> model_runner \<times> step_outcome \<Rightarrow> bool" where
  "taken so sampled r k = (\<lambda>(r', out).
     let ids = batch_list (mr_batch r) in
     runner_inv r' \<and> batch_list (mr_batch r') = ids \<and> same_limits (mr_batch r) (mr_batch r')
     \<and> runner_config r' = runner_config r \<and> generators (mr_batch r') = generators (mr_batch r)
     \<and> ib_req_ids (mr_batch r') = ib_req_ids (mr_batch r)
     \<and> ib_req_id_to_index (mr_batch r') = ib_req_id_to_index (mr_batch r)
     \<and> (sampling_synced (mr_batch r) \<longrightarrow> sampling_synced (mr_batch r'))
     \<and> (\<forall>i < length ids. mr_requests r' (ids ! i) = Some (if i < k \<and> completes so r (ids ! i)
          then extend_output (sampled ! i) (state_of r (ids ! i)) else state_of r (ids ! i)))
     \<and> (\<forall>rid. rid \<notin> set ids \<longrightarrow> mr_requests r' rid = mr_requests r rid \<and> so_new_tokens out rid = None)
     \<and> (\<forall>i < length ids. so_new_tokens out (ids ! i) = (if i < k \<and> completes so r (ids ! i) then Some (sampled ! i) else None))
     \<and> so_bad_ids out = filter (\<lambda>rid. \<not> completes so r rid) (take k ids)
     \<and> (\<forall>g. mr_gens r' g = (if \<exists>i < length ids. i < k \<and> \<not> completes so r (ids ! i) \<and> crs_generator (state_of r (ids ! i)) = Some g
          then rewind (mr_gens r g) else mr_gens r g)))"

lemma runner_inv_gens:
  assumes "runner_inv r" "\<And>g. gen_seed (gs g) = gen_seed (mr_gens r g)"
  shows "runner_inv (r\<lparr>mr_gens := gs\<rparr>)"
proof -
  note m = runner_midD [OF conjunct1 [OF assms(1) [unfolded runner_inv_def]]]
  have "gens_ok (r\<lparr>mr_gens := gs\<rparr>)"
  proof (rule gens_okI)
    fix rid c assume "mr_requests (r\<lparr>mr_gens := gs\<rparr>) rid = Some c"
    with gens_okD(1) [OF m(4), of rid c] show "gen_ok (r\<lparr>mr_gens := gs\<rparr>) c"
      using assms(2) by (auto simp: gen_ok_def split: option.splits)
  qed (use gens_okD(2) [OF m(4)] in simp)
  with assms(1) show ?thesis
    by (simp add: runner_inv_def runner_mid_def entries_match_def states_ok_def)
qed


lemma taken_complete:
  assumes inv: "runner_inv r" and T: "taken so sampled r k (r', out)" and k: "k < length (batch_list (mr_batch r))"
    and ok: "tokens_ok so r" and len: "k < length sampled"
    and cmp: "completes so r (batch_list (mr_batch r) ! k)"
  shows "\<exists>s. take_sampled so sampled (k, Some (batch_list (mr_batch r) ! k)) (r', out) = Inr s \<and> taken so sampled r (Suc k) s"
proof -
  let ?ids = "batch_list (mr_batch r)" and ?rid = "batch_list (mr_batch r) ! k"
  let ?c = "state_of r ?rid" and ?t = "sampled ! k" and ?n = "length (all_tokens (state_of r ?rid))"
  note T' = T [unfolded taken_def Let_def prod.case]
  have b: "batch_ok (mr_batch r)" "occupied (mr_batch r) = {..<num_reqs (mr_batch r)}"
    using inv by (simp_all add: runner_inv_def runner_midD)
  have dist: "distinct ?ids" by (rule batch_list_ids(1) [OF b])
  have inv': "runner_inv r'" and ids': "batch_list (mr_batch r') = ?ids" using T' by simp_all
  have b': "batch_ok (mr_batch r')" "occupied (mr_batch r') = {..<num_reqs (mr_batch r')}"
    using inv' by (simp_all add: runner_inv_def runner_midD)
  have k': "k < num_reqs (mr_batch r')" using k batch_list_rows(2) [OF b'] ids' by simp
  have req: "mr_requests r' ?rid = Some ?c" using T' k by simp
  then have st: "state_of r' ?rid = ?c" by (simp add: state_of_def)
  have M: "ib_max_model_len (mr_batch r') = ib_max_model_len (mr_batch r)" using T' by (simp add: same_limits_def)
  have tok: "scheduled_num_tokens so ?rid = Some (int ?n)" "map_of (msg_num_scheduled so) ?rid = Some (token_count so ?rid)"
    "?n < ib_max_model_len (mr_batch r')" "crs_num_computed_tokens ?c + token_count so ?rid = int ?n"
    using ok k cmp M by (simp_all add: tokens_ok_def completes_def)
  let ?r = "r'\<lparr>mr_requests := (mr_requests r')(?rid \<mapsto> extend_output ?t ?c), mr_batch := put_token k ?n ?t (mr_batch r')\<rparr>"
  let ?out = "out\<lparr>so_new_tokens := (so_new_tokens out)(?rid \<mapsto> ?t)\<rparr>"
  have eval: "take_sampled so sampled (k, Some ?rid) (r', out) = Inr (?r, ?out)"
    using req tok len by (simp add: take_sampled_def Let_def put_token_def extend_output_def)
  have "runner_inv ?r"
    using runner_inv_put_token [OF inv' k', of ?rid ?t] ids' st tok(3) by simp
  moreover have "sampling_synced (mr_batch r) \<longrightarrow> sampling_synced (put_token k ?n ?t (mr_batch r'))"
  proof
    assume "sampling_synced (mr_batch r)"
    moreover have "ib_num_prompt_tokens (mr_batch r') ! k \<le> ?n"
      using row_params(10) [OF inv' k'] st ids' by (simp add: all_tokens_def)
    ultimately show "sampling_synced (put_token k ?n ?t (mr_batch r'))"
      using T' by (intro sampling_synced_put_token) simp_all
  qed
  moreover have "mr_requests ?r (?ids ! i) = Some (if i < Suc k \<and> completes so r (?ids ! i)
        then extend_output (sampled ! i) (state_of r (?ids ! i)) else state_of r (?ids ! i))"
      "so_new_tokens ?out (?ids ! i) = (if i < Suc k \<and> completes so r (?ids ! i) then Some (sampled ! i) else None)"
    if "i < length ?ids" for i
    using T' dist k that cmp by (cases "i = k"; simp add: nth_eq_iff_index_eq less_Suc_eq)+
  moreover have "(\<exists>i < length ?ids. i < Suc k \<and> \<not> completes so r (?ids ! i) \<and> crs_generator (state_of r (?ids ! i)) = Some g)
      \<longleftrightarrow> (\<exists>i < length ?ids. i < k \<and> \<not> completes so r (?ids ! i) \<and> crs_generator (state_of r (?ids ! i)) = Some g)" for g
    using cmp by (metis less_Suc_eq)
  moreover have "rid \<noteq> ?rid" if "rid \<notin> set ?ids" for rid using k that by auto
  ultimately have "taken so sampled r (Suc k) (?r, ?out)"
    unfolding taken_def Let_def prod.case using T' cmp k
    by (elim conjE, intro conjI allI impI) (simp_all add: take_Suc_conv_app_nth runner_config_def same_limits_def)
  with eval show ?thesis by blast
qed

lemma taken_partial:
  assumes inv: "runner_inv r" and T: "taken so sampled r k (r', out)" and k: "k < length (batch_list (mr_batch r))"
    and ok: "tokens_ok so r" and cmp: "\<not> completes so r (batch_list (mr_batch r) ! k)"
  shows "\<exists>s. take_sampled so sampled (k, Some (batch_list (mr_batch r) ! k)) (r', out) = Inr s \<and> taken so sampled r (Suc k) s"
proof -
  let ?ids = "batch_list (mr_batch r)" and ?rid = "batch_list (mr_batch r) ! k"
  let ?c = "state_of r ?rid"
  note T' = T [unfolded taken_def Let_def prod.case]
  have b: "batch_ok (mr_batch r)" "occupied (mr_batch r) = {..<num_reqs (mr_batch r)}" "gens_ok r"
    using inv by (simp_all add: runner_inv_def runner_midD)
  have dist: "distinct ?ids" and n: "length ?ids = num_reqs (mr_batch r)"
    by (rule batch_list_ids(1) [OF b(1,2)], rule batch_list_rows(2) [OF b(1,2)])
  have req: "mr_requests r' ?rid = Some ?c" and inv': "runner_inv r'" using T' k by simp_all
  have gen: "generators (mr_batch r') k = crs_generator ?c"
    using T' row_params(9) [OF inv, of k] k n by simp
  have tok: "scheduled_num_tokens so ?rid = Some (int (length (all_tokens ?c)))"
    "map_of (msg_num_scheduled so) ?rid = Some (token_count so ?rid)"
    "crs_num_computed_tokens ?c + token_count so ?rid < int (length (all_tokens ?c))"
    using ok k cmp by (auto simp: tokens_ok_def completes_def order_less_le)
  let ?out = "out\<lparr>so_bad_ids := so_bad_ids out @ [?rid]\<rparr>"
  define gs where "gs = (case crs_generator ?c of None \<Rightarrow> mr_gens r' | Some g \<Rightarrow> (mr_gens r')(g := rewind (mr_gens r' g)))"
  have eval: "take_sampled so sampled (k, Some ?rid) (r', out) = Inr (r'\<lparr>mr_gens := gs\<rparr>, ?out)"
    using req tok gen by (auto simp: take_sampled_def Let_def gs_def rewind_def split: option.split)
  let ?E = "\<lambda>k g. \<exists>i < length ?ids. i < k \<and> \<not> completes so r (?ids ! i) \<and> crs_generator (state_of r (?ids ! i)) = Some g"
  have gens': "mr_gens r' g = (if ?E k g then rewind (mr_gens r g) else mr_gens r g)" for g using T' by blast
  have "gs g = (if ?E (Suc k) g then rewind (mr_gens r g) else mr_gens r g)" for g
  proof (cases "crs_generator ?c = Some g")
    case True
    have "i = k" if "i < length ?ids" "crs_generator (state_of r (?ids ! i)) = Some g" for i
      using gens_okD(2) [OF b(3) row_holds(1) [OF inv, of i] row_holds(1) [OF inv, of k] that(2) True] that(1) k n dist
      by (simp add: nth_eq_iff_index_eq)
    then have "\<not> ?E k g" by blast
    then have "mr_gens r' g = mr_gens r g" unfolding gens' by (rule if_not_P)
    moreover have "?E (Suc k) g" using True cmp k by blast
    ultimately show ?thesis using True by (simp add: gs_def)
  next
    case False
    then have "gs g = mr_gens r' g" by (simp add: gs_def split: option.split)
    moreover have "?E (Suc k) g \<longleftrightarrow> ?E k g" using False by (metis less_Suc_eq)
    ultimately show ?thesis by (simp only: gens')
  qed
  moreover have "runner_inv (r'\<lparr>mr_gens := gs\<rparr>)"
    by (rule runner_inv_gens [OF inv']) (simp add: gs_def rewind_def split: option.split)
  moreover have "i < Suc k \<and> completes so r (?ids ! i) \<longleftrightarrow> i < k \<and> completes so r (?ids ! i)" for i
    using cmp by (metis less_Suc_eq)
  ultimately have "taken so sampled r (Suc k) (r'\<lparr>mr_gens := gs\<rparr>, ?out)"
    unfolding taken_def Let_def prod.case using T' cmp k
    by (simp add: take_Suc_conv_app_nth runner_config_def)
  with eval show ?thesis by blast
qed

lemma take_all_sampled_ok:
  assumes inv: "runner_inv r" and ok: "tokens_ok so r" and len: "num_reqs (mr_batch r) \<le> length sampled"
  obtains r' out where "take_all_sampled so sampled r = Inr (r', out)" "taken so sampled r (num_reqs (mr_batch r)) (r', out)"
proof -
  let ?ids = "batch_list (mr_batch r)"
  have "batch_ok (mr_batch r)" "occupied (mr_batch r) = {..<num_reqs (mr_batch r)}"
    using inv by (simp_all add: runner_inv_def runner_midD)
  note rows = batch_list_rows [OF this]
  have start: "taken so sampled r 0 (r, \<lparr>so_new_tokens = Map.empty, so_bad_ids = []\<rparr>)"
    using inv row_holds(1) [OF inv] rows(2) by (simp add: taken_def Let_def)
  have "\<exists>t. fold_result (take_sampled so sampled) (zip [0..<length ?ids] (map Some ?ids)) (r, \<lparr>so_new_tokens = Map.empty, so_bad_ids = []\<rparr>)
      = Inr t \<and> taken so sampled r (length (zip [0..<length ?ids] (map Some ?ids))) t"
  proof (rule fold_result_rounds [where J = "taken so sampled r", OF start])
    fix k s assume "k < length (zip [0..<length ?ids] (map Some ?ids))" and T: "taken so sampled r k s"
    then have k: "k < length ?ids" by simp
    obtain r' out where s: "s = (r', out)" by fastforce
    from taken_complete [OF inv T [unfolded s] k ok] taken_partial [OF inv T [unfolded s] k ok] len rows(2) k
    show "\<exists>t. take_sampled so sampled (zip [0..<length ?ids] (map Some ?ids) ! k) s = Inr t \<and> taken so sampled r (Suc k) t"
      unfolding s by (cases "completes so r (?ids ! k)") simp_all
  qed
  then show ?thesis
    using that rows(1,2) by (auto simp: take_all_sampled_def Let_def)
qed


section \<open>The step\<close>

text \<open>
  The scheduler's promise on the abstract state after the update: it gives \<open>step_ok\<close> and \<open>tokens_ok\<close>.
\<close>

definition schedule_ok :: "scheduler_msg \<Rightarrow> model_runner \<Rightarrow> bool" where
  "schedule_ok so r \<longleftrightarrow>
     (let ids = spec_ids so (batch_ids (mr_batch r)); m = spec_requests so (abs_requests r) in
      0 < mr_block_size r \<and> ids \<noteq> {}
      \<and> (\<forall>rid \<in> ids. let c = the (m rid); n = crs_num_computed_tokens c + token_count so rid in
           map_of (msg_num_scheduled so) rid \<noteq> None \<and> 0 < token_count so rid \<and> 0 \<le> crs_num_computed_tokens c
           \<and> n \<le> int (length (all_tokens c)) \<and> n \<le> int (length (crs_block_ids c)) * mr_block_size r
           \<and> scheduled_num_tokens so rid = Some (int (length (all_tokens c)))
           \<and> (n = int (length (all_tokens c)) \<longrightarrow> length (all_tokens c) < ib_max_model_len (mr_batch r)))
      \<and> msg_total so = (\<Sum>rid \<in> ids. token_count so rid) \<and> msg_total so \<le> int (mr_max_num_tokens r))"

lemma state_of_core:
  assumes "abs_requests r = m" "mr_requests r rid \<noteq> None"
  shows "the (m rid) = core (state_of r rid)"
  using assms by (auto simp: abs_requests_def state_of_def)

lemma core_fields [simp]:
  "crs_num_computed_tokens (core c) = crs_num_computed_tokens c" "all_tokens (core c) = all_tokens c"
  "crs_block_ids (core c) = crs_block_ids c"
  by (simp_all add: core_def all_tokens_def)

lemma schedule_ok_step:
  assumes sched: "schedule_ok so r" and inv: "runner_inv r1" and abs: "abs_requests r1 = spec_requests so (abs_requests r)"
    and ids: "batch_ids (mr_batch r1) = spec_ids so (batch_ids (mr_batch r))"
    and conf: "same_limits (mr_batch r) (mr_batch r1)" "runner_config r1 = runner_config r"
  shows "step_ok so r1" "tokens_ok so r1"
proof -
  have b: "batch_ok (mr_batch r1)" "occupied (mr_batch r1) = {..<num_reqs (mr_batch r1)}"
    using inv by (simp_all add: runner_inv_def runner_midD)
  note list = batch_list_ids [OF b] and rows = batch_list_rows [OF b]
  have c: "the (spec_requests so (abs_requests r) rid) = core (state_of r1 rid)" if "rid \<in> set (batch_list (mr_batch r1))" for rid
  proof (rule state_of_core [OF abs])
    show "mr_requests r1 rid \<noteq> None" using that row_holds(1) [OF inv] rows(2) by (auto simp: in_set_conv_nth)
  qed
  have same: "mr_block_size r1 = mr_block_size r" "mr_max_num_tokens r1 = mr_max_num_tokens r"
    "ib_max_model_len (mr_batch r1) = ib_max_model_len (mr_batch r)"
    using conf by (simp_all add: runner_config_def same_limits_def)
  note sch = sched [unfolded schedule_ok_def Let_def, folded ids, folded list(2)]
  have sum: "sum_list (map (token_count so) (batch_list (mr_batch r1))) = (\<Sum>rid \<in> set (batch_list (mr_batch r1)). token_count so rid)"
    using list(1) by (simp add: sum_list_distinct_conv_sum_set)
  have per: "map_of (msg_num_scheduled so) rid \<noteq> None" "0 < token_count so rid" "0 \<le> crs_num_computed_tokens (state_of r1 rid)"
    "crs_num_computed_tokens (state_of r1 rid) + token_count so rid \<le> int (length (all_tokens (state_of r1 rid)))"
    "crs_num_computed_tokens (state_of r1 rid) + token_count so rid \<le> int (length (crs_block_ids (state_of r1 rid))) * mr_block_size r"
    "scheduled_num_tokens so rid = Some (int (length (all_tokens (state_of r1 rid))))"
    "crs_num_computed_tokens (state_of r1 rid) + token_count so rid = int (length (all_tokens (state_of r1 rid)))
       \<longrightarrow> length (all_tokens (state_of r1 rid)) < ib_max_model_len (mr_batch r)"
    if "rid \<in> set (batch_list (mr_batch r1))" for rid
    using bspec [OF conjunct1 [OF conjunct2 [OF conjunct2 [OF sch]]] that] unfolding c [OF that] core_fields by blast+
  show "step_ok so r1"
    unfolding step_ok_def Let_def same sum using sch per by simp
  have "map_of (msg_num_scheduled so) rid = Some (token_count so rid)" if "rid \<in> set (batch_list (mr_batch r1))" for rid
    using per(1) [OF that] by (auto simp: token_count_def)
  then show "tokens_ok so r1"
    unfolding tokens_ok_def completes_def same using per by simp
qed


text \<open>The phases after the update only touch device copies, the encoder cache and the generators.\<close>

definition same_requests :: "model_runner \<Rightarrow> model_runner \<Rightarrow> bool" where
  "same_requests r r' \<longleftrightarrow> mr_requests r' = mr_requests r \<and> host (mr_batch r') = host (mr_batch r)
     \<and> runner_config r' = runner_config r \<and> mr_max_num_blocks_per_req r' = mr_max_num_blocks_per_req r"

lemma same_requests_trans: "same_requests r s \<Longrightarrow> same_requests s t \<Longrightarrow> same_requests r t"
  by (simp add: same_requests_def)

lemma same_requestsD:
  assumes "same_requests r r'"
  shows "state_of r' = state_of r" "batch_list (mr_batch r') = batch_list (mr_batch r)"
    "completes so r' = completes so r" "tokens_ok so r' = tokens_ok so r" "step_ok so r' = step_ok so r"
    "expected_inputs so r' = expected_inputs so r" "metadata_ok m r' = metadata_ok m r"
    "num_reqs (mr_batch r') = num_reqs (mr_batch r)" "ib_req_ids (mr_batch r') = ib_req_ids (mr_batch r)"
    "ib_req_id_to_index (mr_batch r') = ib_req_id_to_index (mr_batch r)" "mr_requests r' = mr_requests r"
proof -
  have h: "host (mr_batch r') = host (mr_batch r)" and req: "mr_requests r' = mr_requests r"
    and conf: "runner_config r' = runner_config r"
    using assms by (simp_all add: same_requests_def)
  note hc = host_cong [OF h]
  have cfg: "mr_block_size r' = mr_block_size r" "mr_max_num_tokens r' = mr_max_num_tokens r"
    "ib_max_model_len (mr_batch r') = ib_max_model_len (mr_batch r)" "ib_vocab_size (mr_batch r') = ib_vocab_size (mr_batch r)"
    "block_table_cpu (mr_batch r') = block_table_cpu (mr_batch r)"
    using conf hc(10) arg_cong [OF h, of block_table_cpu]
    by (simp_all add: runner_config_def same_limits_def host_fields)
  show st: "state_of r' = state_of r" by (simp add: state_of_def req fun_eq_iff)
  show bl: "batch_list (mr_batch r') = batch_list (mr_batch r)" by (rule hc(7))
  show comp: "completes so r' = completes so r" by (simp add: completes_def st fun_eq_iff)
  have pos: "step_positions so r' = step_positions so r" by (simp add: step_positions_def st fun_eq_iff)
  show "tokens_ok so r' = tokens_ok so r" unfolding tokens_ok_def st bl comp cfg ..
  show "step_ok so r' = step_ok so r" unfolding step_ok_def st bl cfg ..
  show "expected_inputs so r' = expected_inputs so r" unfolding expected_inputs_def st bl cfg pos ..
  show "metadata_ok m r' = metadata_ok m r" unfolding metadata_ok_def params_of_def logprobs_of_def st bl cfg Let_def ..
  show "num_reqs (mr_batch r') = num_reqs (mr_batch r)" by (rule hc(1))
  show "ib_req_ids (mr_batch r') = ib_req_ids (mr_batch r)" "ib_req_id_to_index (mr_batch r') = ib_req_id_to_index (mr_batch r)"
    using arg_cong [OF h, of ib_req_ids] arg_cong [OF h, of ib_req_id_to_index] by (simp_all add: host_fields)
  show "mr_requests r' = mr_requests r" by (rule req)
qed


lemma runner_inv_encoder: "runner_inv (r\<lparr>mr_encoder_cache := ec\<rparr>) = runner_inv r"
  by (simp add: runner_inv_def runner_mid_def entries_match_def states_ok_def gens_ok_def gen_ok_def cong: option.case_cong)

lemma input_phases:
  assumes inv: "runner_inv r" and step: "step_ok so r" and sync: "quiet so \<Longrightarrow> sampling_synced (mr_batch r)"
    and ready: "mr_is_multimodal r \<Longrightarrow> encoder_ready so r" and enc: "\<And>xs. length (encode xs) = length xs"
  obtains es r2 r3 meta r4 where "run_encoder encode so r = Inr (es, r2)"
    "prepare_inputs so r2 = Inr (expected_inputs so r, r3)" "prepare_sampling so r3 = Inr (meta, r4)"
    "same_requests r r4" "runner_inv r4" "sampling_synced (mr_batch r4)" "metadata_ok meta r" "mr_gens r4 = mr_gens r"
    "es = (if mr_is_multimodal r then gathered encode so r else [])"
proof -
  define es where "es = (if mr_is_multimodal r then gathered encode so r else [])"
  define r2 where "r2 = (if mr_is_multimodal r then r\<lparr>mr_encoder_cache := cache_after encode so r\<rparr> else r)"
  have enc': "run_encoder encode so r = Inr (es, r2)"
    using run_encoder_ok [OF inv step ready enc] by (auto simp: es_def r2_def run_encoder_def)
  have r2: "mr_batch r2 = mr_batch r" "mr_gens r2 = mr_gens r" "same_requests r r2" "runner_inv r2"
    using inv by (simp_all add: r2_def same_requests_def runner_config_def runner_inv_encoder)
  let ?b = "(mr_batch r2)\<lparr>block_table := copy_prefix (num_reqs (mr_batch r2)) (block_table_cpu (mr_batch r2)) (block_table (mr_batch r2))\<rparr>"
  have prep: "prepare_inputs so r2 = Inr (expected_inputs so r, r2\<lparr>mr_batch := ?b\<rparr>)"
    using prepare_inputs_ok [OF r2(4)] step same_requestsD(5,6) [OF r2(3)] by simp
  have h: "host ?b = host (mr_batch r2)" by (simp add: host_def)
  have shape2: "batch_shape (mr_batch r2)" using r2(4) by (simp add: runner_inv_def runner_midD batch_okD)
  have shape: "batch_shape ?b"
    using shape2 unfolding batch_shape_def
    by (elim conjE, intro conjI allI impI) (simp_all add: copy_prefix_def)
  have inv3: "runner_inv (r2\<lparr>mr_batch := ?b\<rparr>)" by (rule runner_inv_host [OF r2(4) h shape])
  obtain m b where m: "prepare_sampling so (r2\<lparr>mr_batch := ?b\<rparr>) = Inr (m, (r2\<lparr>mr_batch := ?b\<rparr>)\<lparr>mr_batch := b\<rparr>)" "host b = host ?b"
    "sampling_synced b" "metadata_ok m ((r2\<lparr>mr_batch := ?b\<rparr>)\<lparr>mr_batch := b\<rparr>)" "runner_inv ((r2\<lparr>mr_batch := ?b\<rparr>)\<lparr>mr_batch := b\<rparr>)"
    by (rule prepare_sampling_ok [OF inv3, of so]) (use sync r2(1) in auto)
  have same: "same_requests r ((r2\<lparr>mr_batch := ?b\<rparr>)\<lparr>mr_batch := b\<rparr>)"
    using r2(3) m(2) h by (simp add: same_requests_def runner_config_def)
  show ?thesis
    by (rule that [OF enc' prep m(1) same m(5)]) (use m(3,4) same_requestsD(7) [OF same] r2(2) es_def in simp_all)
qed

text \<open>
  What a step leaves behind and reports, given the runner \<open>r\<close> after the update and the sampler's
  result, tokens and generators.
\<close>

definition step_result ::
  "scheduler_msg \<Rightarrow> model_runner \<Rightarrow> token list \<times> (gen_ref \<Rightarrow> generator) \<Rightarrow> model_runner_output \<Rightarrow> model_runner \<Rightarrow> bool" where
  "step_result so r s out r' \<longleftrightarrow>
     (let ids = batch_list (mr_batch r); sampled = fst s in
      mro_req_ids out = ids \<and> (\<forall>i < length ids. req_id_to_index out (ids ! i) = Some i)
      \<and> sampled_token_ids out = sampled
      \<and> bad_ids out = filter (\<lambda>rid. \<not> completes so r rid) ids
      \<and> (\<forall>i < length ids. if completes so r (ids ! i)
           then new_token_ids out (ids ! i) = Some (sampled ! i)
             \<and> mr_requests r' (ids ! i) = Some (extend_output (sampled ! i) (state_of r (ids ! i)))
           else new_token_ids out (ids ! i) = None \<and> mr_requests r' (ids ! i) = mr_requests r (ids ! i))
      \<and> (\<forall>rid. rid \<notin> set ids \<longrightarrow> new_token_ids out rid = None \<and> mr_requests r' rid = mr_requests r rid)
      \<and> (\<forall>g. mr_gens r' g = (if \<exists>rid \<in> set ids. \<not> completes so r rid \<and> crs_generator (state_of r rid) = Some g
           then rewind (snd s g) else snd s g)))"

lemma bex_set_nth: "(\<exists>x \<in> set xs. P x) \<longleftrightarrow> (\<exists>i < length xs. P (xs ! i))"
  by (auto simp: set_conv_nth)

lemma output_phase:
  assumes inv: "runner_inv r" and ok: "tokens_ok so r" and len: "num_reqs (mr_batch r) \<le> length sampled"
    and sync: "sampling_synced (mr_batch r)"
  obtains out r' where "andthen (take_all_sampled so sampled r) (runner_output sampled) = Inr (out, r')"
    "runner_inv r'" "sampling_synced (mr_batch r')" "step_result so r (sampled, mr_gens r) out r'"
proof -
  let ?ids = "batch_list (mr_batch r)"
  have b: "batch_ok (mr_batch r)" "occupied (mr_batch r) = {..<num_reqs (mr_batch r)}"
    using inv by (simp_all add: runner_inv_def runner_midD)
  note rows = batch_list_rows [OF b]
  obtain r' so' where t: "take_all_sampled so sampled r = Inr (r', so')" "taken so sampled r (num_reqs (mr_batch r)) (r', so')"
    by (rule take_all_sampled_ok [OF inv ok len])
  note T = t(2) [unfolded taken_def Let_def prod.case, folded rows(2)]
  have inv': "runner_inv r'" and ids: "batch_list (mr_batch r') = ?ids"
    and idx: "ib_req_id_to_index (mr_batch r') = ib_req_id_to_index (mr_batch r)" using T by simp_all
  have "batch_ok (mr_batch r')" "occupied (mr_batch r') = {..<num_reqs (mr_batch r')}"
    using inv' by (simp_all add: runner_inv_def runner_midD)
  note rows' = batch_list_rows [OF this]
  let ?out = "\<lparr>mro_req_ids = ?ids, req_id_to_index = map_of (ib_req_id_to_index (mr_batch r)),
    sampled_token_ids = sampled, new_token_ids = so_new_tokens so', bad_ids = so_bad_ids so'\<rparr>"
  have "runner_output sampled (r', so') = Inr (?out, r')"
    by (simp add: runner_output_def Let_def rows'(1) ids idx comp_def image_iff)
  moreover have "step_result so r (sampled, mr_gens r) ?out r'"
    unfolding step_result_def Let_def fst_conv snd_conv bex_set_nth using T rows(2,4) row_holds(1) [OF inv] by simp
  ultimately show ?thesis using that t(1) inv' T sync by simp
qed


lemma execute_model_ok:
  assumes inv: "runner_inv r" and sync: "sampling_synced (mr_batch r)" and msg: "msg_ok so r" and sched: "schedule_ok so r"
    and listed: "set (listed (msg_preempted so \<union> msg_finished so)) = msg_preempted so \<union> msg_finished so"
    and ready: "\<And>r1. update_states listed so r = Inr r1 \<Longrightarrow> mr_is_multimodal r1 \<Longrightarrow> encoder_ready so r1"
    and enc: "\<And>xs. length (encode xs) = length xs"
    and sampler: "\<And>i e m g. length (fst (sample i e m g)) = length (mi_logits_indices i)"
      "\<And>i e m g x. gen_seed (snd (sample i e m g) x) = gen_seed (g x)"
  obtains r1 meta out r' where "update_states listed so r = Inr r1" "metadata_ok meta r1"
    "execute_model listed encode sample so r = Inr (out, r')" "runner_inv r'" "sampling_synced (mr_batch r')"
    "step_result so r1 (sample (expected_inputs so r1)
       (if mr_is_multimodal r1 then gathered encode so r1 else []) meta (mr_gens r1)) out r'"
    "runner_inv r1" "abs_requests r1 = spec_requests so (abs_requests r)"
    "batch_ids (mr_batch r1) = spec_ids so (batch_ids (mr_batch r))"
proof -
  obtain r1 where r1: "update_states listed so r = Inr r1" "runner_inv r1" "abs_requests r1 = spec_requests so (abs_requests r)"
    "batch_ids (mr_batch r1) = spec_ids so (batch_ids (mr_batch r))" "same_limits (mr_batch r) (mr_batch r1)"
    "runner_config r1 = runner_config r"
    by (rule update_states_ok [where listed = listed, OF inv msg listed])
  note step = schedule_ok_step [OF sched r1(2-6)]
  have sync1: "quiet so \<Longrightarrow> sampling_synced (mr_batch r1)"
    by (rule update_states_quiet [where listed = listed, OF _ _ r1(1) sync]) (use listed in \<open>simp_all add: quiet_def\<close>)
  obtain es r2 r3 meta r4 where p: "run_encoder encode so r1 = Inr (es, r2)"
    "prepare_inputs so r2 = Inr (expected_inputs so r1, r3)" "prepare_sampling so r3 = Inr (meta, r4)"
    "same_requests r1 r4" "runner_inv r4" "sampling_synced (mr_batch r4)" "metadata_ok meta r1" "mr_gens r4 = mr_gens r1"
    "es = (if mr_is_multimodal r1 then gathered encode so r1 else [])"
    by (rule input_phases [where encode = encode, OF r1(2) step(1) sync1 ready [OF r1(1)] enc])
  define s where "s = sample (expected_inputs so r1) es meta (mr_gens r1)"
  let ?r = "r4\<lparr>mr_gens := snd s\<rparr>"
  have same: "same_requests r1 ?r" using p(4) by (simp add: same_requests_def runner_config_def)
  have inv4: "runner_inv ?r" by (rule runner_inv_gens [OF p(5)]) (simp add: s_def sampler(2) p(8))
  have "length (mi_logits_indices (expected_inputs so r1)) = num_reqs (mr_batch r1)"
    using r1(2) by (simp add: expected_inputs_def Let_def runner_inv_def runner_midD batch_list_rows)
  then have len: "num_reqs (mr_batch ?r) \<le> length (fst s)"
    using same_requestsD(8) [OF same] by (simp add: s_def sampler(1))
  obtain out r' where o: "andthen (take_all_sampled so (fst s) ?r) (runner_output (fst s)) = Inr (out, r')"
    "runner_inv r'" "sampling_synced (mr_batch r')" "step_result so ?r s out r'"
    by (rule output_phase [OF inv4 _ len]) (use step(2) same_requestsD(4) [OF same] p(6) in \<open>simp_all add: prod.collapse\<close>)
  have "execute_model listed encode sample so r = Inr (out, r')"
    using r1(1) p(1-3,8) o(1) by (simp add: execute_model_def s_def Let_def case_prod_unfold)
  moreover have "step_result so r1 s out r'"
    using o(4) unfolding step_result_def same_requestsD [OF same] .
  ultimately show ?thesis
    using that [OF r1(1) p(7)] o(2,3) r1(2-4) unfolding s_def p(9) by blast
qed

end
