(* ===== verification/RunnerProps.thy ===== *)
theory RunnerProps
  imports RunnerTokens
begin

text \<open>
  Properties of the model runner and its persistent batch: removing holes from the batch (C22), the
  update for a new schedule (C27), the inputs of the model (C28) and the whole step (C38).
\<close>

section \<open>An example run\<close>

definition run_params :: sampling_params_args where
  "run_params = \<lparr>p_n = 1, p_best_of = None, p_real_n = None, p_presence_penalty = 0, p_frequency_penalty = 0,
     p_repetition_penalty = 1, p_temperature = 1, p_top_p = 1, p_top_k = - 1, p_min_p = 0, p_seed = Some 3,
     p_stop = Some (StopMany []), p_stop_token_ids = Some [], p_ignore_eos = False, p_max_tokens = Some 4,
     p_min_tokens = 0, p_logprobs = None, p_prompt_logprobs = None, p_detokenize = True,
     p_skip_special_tokens = True, p_spaces_between_special_tokens = True, p_include_stop_str_in_output = False,
     p_truncate_prompt_tokens = None, p_output_kind = DELTA, p_output_text_buffer_length = 0,
     p_all_stop_token_ids = {}\<rparr>"

definition run_new :: "req_id \<Rightarrow> token list \<Rightarrow> nat list \<Rightarrow> new_request_msg" where
  "run_new rid toks bids =
     \<lparr>nrd_req_id = rid, nrd_prompt_token_ids = toks, nrd_prompt = None, nrd_mm_inputs = [], nrd_mm_hashes = [],
      nrd_mm_positions = [], nrd_sampling_params = \<lparr>sp_max_tokens = Some 4, ignore_eos = False, stop_token_ids = Some []\<rparr>,
      nrd_block_ids = bids, nrd_num_computed_tokens = 0, nrd_num_tokens = int (length toks), nm_params = run_params\<rparr>"

text \<open>Two requests start; then the first one is finished and the second goes on.\<close>

definition run_start :: scheduler_msg where
  "run_start = \<lparr>msg_new = [run_new ''a'' [5, 6, 7] [0, 1], run_new ''b'' [8, 9] [2]], msg_resumed = [], msg_running = [],
     msg_num_scheduled = [(''a'', 3), (''b'', 2)], msg_total = 5, msg_encoder_inputs = [],
     msg_preempted = {}, msg_finished = {}, msg_free_encoder = []\<rparr>"

definition run_next :: scheduler_msg where
  "run_next = \<lparr>msg_new = [], msg_resumed = [],
     msg_running = [\<lparr>rrd_req_id = ''b'', rrd_new_block_ids = [3], rrd_num_computed_tokens = 2, rrd_num_tokens = 3\<rparr>],
     msg_num_scheduled = [(''b'', 1)], msg_total = 1, msg_encoder_inputs = [],
     msg_preempted = {}, msg_finished = {''a''}, msg_free_encoder = []\<rparr>"

definition run_init :: model_runner where
  "run_init = init_runner 0 0 2 6 2 8 100 False"

definition run_listed :: "req_id set \<Rightarrow> req_id list" where
  "run_listed S = (if ''a'' \<in> S then [''a''] else [])"

definition run_first :: model_runner where
  "run_first = (case update_states run_listed run_start run_init of Inr r \<Rightarrow> r | Inl _ \<Rightarrow> run_init)"

lemma run_start_ok: "msg_ok run_start run_init"
  by code_simp

lemma run_next_ok: "msg_ok run_next run_first"
  by code_simp


lemma run_listed_ok:
  "set (run_listed (msg_preempted run_start \<union> msg_finished run_start)) = msg_preempted run_start \<union> msg_finished run_start"
  "set (run_listed (msg_preempted run_next \<union> msg_finished run_next)) = msg_preempted run_next \<union> msg_finished run_next"
  by (simp_all add: run_listed_def run_start_def run_next_def)

lemma run_init_inv: "runner_inv run_init"
  unfolding run_init_def by (rule init_runner_inv)

lemma run_first_inv: "runner_inv run_first" "batch_ids (mr_batch run_first) = {''a'', ''b''}"
proof -
  obtain r where "update_states run_listed run_start run_init = Inr r" "runner_inv r"
    "batch_ids (mr_batch r) = spec_ids run_start (batch_ids (mr_batch run_init))"
    by (rule update_states_ok [where listed = run_listed, OF run_init_inv run_start_ok run_listed_ok(1)])
  moreover have "spec_ids run_start (batch_ids (mr_batch run_init)) = {''a'', ''b''}" by code_simp
  ultimately show "runner_inv run_first" "batch_ids (mr_batch run_first) = {''a'', ''b''}"
    by (simp_all add: run_first_def)
qed

section \<open>Compaction\<close>

text \<open>
  C22: \<open>condense\<close> ends without raising on every batch whose rows below the old count are occupied
  except for the given holes, listed in descending order: afterwards the requests occupy exactly the
  first rows, and every request keeps its data, in whichever row it now is.
\<close>

theorem condense_compacts_rows:
  assumes "batch_ok b" "sorted_wrt (>) holes" "occupied b = {..<num_reqs b + length holes} - set holes"
  shows "\<exists>b'. condense holes b = Inr b' \<and> batch_ok b' \<and> batch_view b' = batch_view b
    \<and> occupied b' = {..<num_reqs b}"
  by (rule condense_compacts [OF assms]) auto

theorem condense_compacts_rows_witness:
  "\<exists>b'. condense [0] (snd (batch_remove_request ''a'' (mr_batch run_first))) = Inr b'
    \<and> batch_view b' ''b'' = batch_view (mr_batch run_first) ''b'' \<and> occupied b' = {..<1}"
proof -
  let ?b = "snd (batch_remove_request ''a'' (mr_batch run_first))"
  have "batch_ok (mr_batch run_first)" using run_first_inv(1) by (simp add: runner_inv_def runner_midD)
  then obtain b where b: "batch_remove_request ''a'' (mr_batch run_first) = (map_of (ib_req_id_to_index (mr_batch run_first)) ''a'', b)"
    "batch_ok b" "batch_view b = (batch_view (mr_batch run_first))(''a'' := None)"
    by (rule batch_remove_request_ok)
  have "length (ib_req_ids ?b) = 2" "ib_req_ids ?b ! 0 = None" "ib_req_ids ?b ! 1 = Some ''b''" and n: "num_reqs ?b = 1"
    by code_simp+
  then have "occupied ?b = {..<num_reqs ?b + length [0 :: nat]} - set [0]"
    by (auto simp: occupied_def less_Suc_eq numeral_2_eq_2)
  from condense_compacts_rows [of ?b "[0]", OF _ _ this] b n show ?thesis by auto
qed

section \<open>The update\<close>

text \<open>
  C27: \<open>_update_states\<close> implements the abstract update. When the scheduler's output fits the runner
  (running requests are in the batch, new and resumed ones are not, all fit the arrays), it does not
  raise; the runner's table of requests becomes the abstract one, exactly the requests that were kept,
  started or resumed are in the batch, whose rows are contiguous again and hold the data of their
  requests, and every seeded request has a random generator of its own with its seed.
\<close>

theorem update_states_refines:
  assumes "runner_inv r" "msg_ok so r"
    and "set (listed (msg_preempted so \<union> msg_finished so)) = msg_preempted so \<union> msg_finished so"
  shows "\<exists>r'. update_states listed so r = Inr r' \<and> runner_inv r'
    \<and> abs_requests r' = spec_requests so (abs_requests r)
    \<and> batch_ids (mr_batch r') = spec_ids so (batch_ids (mr_batch r))"
  by (rule update_states_ok [where listed = listed, OF assms]) blast

theorem update_states_refines_witness:
  "\<exists>r'. update_states run_listed run_next run_first = Inr r' \<and> runner_inv r' \<and> batch_ids (mr_batch r') = {''b''}"
proof -
  have "spec_ids run_next {''a'', ''b''} = {''b''}" by code_simp
  with update_states_refines [where listed = run_listed, OF run_first_inv(1) run_next_ok run_listed_ok(2)] run_first_inv(2)
  show ?thesis by auto
qed

section \<open>The inputs\<close>

text \<open>
  C28: \<open>_prepare_inputs\<close> is the per-request description of the inputs. For the requests in row order,
  the token ids, positions and KV slots of exactly the scheduled positions are concatenated: the token
  at each position, and the slot in the block that the request's table assigns to it; the start
  offsets are prefix sums, and logits are taken at the last token of each request. If the blocks
  written by different requests are disjoint and no request lists a block twice, no two tokens of
  the step share a slot.
\<close>

theorem prepared_inputs_exact:
  assumes "runner_inv r" "step_ok so r"
  shows "\<exists>r'. prepare_inputs so r = Inr (expected_inputs so r, r')
    \<and> (writes_separate so r \<longrightarrow> distinct (mi_slot_mapping (expected_inputs so r)))"
proof -
  have "distinct (batch_list (mr_batch r))"
    using assms(1) by (simp add: runner_inv_def runner_midD batch_list_ids)
  then show ?thesis
    using prepare_inputs_ok [OF assms] slots_distinct [OF assms(2)] by blast
qed

theorem prepared_inputs_exact_witness:
  "mi_input_ids (fst (projr (prepare_inputs run_start run_first))) = [5, 6, 7, 8, 9]
   \<and> mi_positions (fst (projr (prepare_inputs run_start run_first))) = [0, 1, 2, 0, 1]
   \<and> mi_slot_mapping (fst (projr (prepare_inputs run_start run_first))) = [0, 1, 2, 4, 5]
   \<and> mi_logits_indices (fst (projr (prepare_inputs run_start run_first))) = [2, 4]
   \<and> distinct (mi_slot_mapping (fst (projr (prepare_inputs run_start run_first))))"
proof -
  have step: "step_ok run_start run_first" and sep: "writes_separate run_start run_first" by code_simp+
  have "mi_input_ids (expected_inputs run_start run_first) = [5, 6, 7, 8, 9]"
    "mi_positions (expected_inputs run_start run_first) = [0, 1, 2, 0, 1]"
    "mi_slot_mapping (expected_inputs run_start run_first) = [0, 1, 2, 4, 5]"
    "mi_logits_indices (expected_inputs run_start run_first) = [2, 4]"
    by code_simp+
  with prepared_inputs_exact [OF run_first_inv(1) step] sep show ?thesis by auto
qed

section \<open>The step\<close>

text \<open>
  C38: A step of the model runner, from a consistent runner and a schedule that fits it, never raises
  and leaves the runner consistent. The model sees the inputs and the sampling parameters of exactly
  the scheduled requests in row order, also when the copy of the parameters to the device is skipped.
  A request all of whose tokens are then computed gets the token sampled for its row, in the output,
  in its state and in its row of the batch; every other request of the batch is reported as partial
  and unchanged and its random generator is rewound, and nothing else is touched.
\<close>

theorem model_step_correct:
  assumes "runner_inv r" "sampling_synced (mr_batch r)" "msg_ok so r" "schedule_ok so r"
    and "set (listed (msg_preempted so \<union> msg_finished so)) = msg_preempted so \<union> msg_finished so"
    and "\<And>r1. update_states listed so r = Inr r1 \<Longrightarrow> mr_is_multimodal r1 \<Longrightarrow> encoder_ready so r1"
    and "\<And>xs. length (encode xs) = length xs"
    and "\<And>i e m g. length (fst (sample i e m g)) = length (mi_logits_indices i)"
    and "\<And>i e m g x. gen_seed (snd (sample i e m g) x) = gen_seed (g x)"
  shows "\<exists>r1 meta out r'. update_states listed so r = Inr r1
    \<and> abs_requests r1 = spec_requests so (abs_requests r)
    \<and> batch_ids (mr_batch r1) = spec_ids so (batch_ids (mr_batch r))
    \<and> metadata_ok meta r1
    \<and> execute_model listed encode sample so r = Inr (out, r')
    \<and> step_result so r1 (sample (expected_inputs so r1)
         (if mr_is_multimodal r1 then gathered encode so r1 else []) meta (mr_gens r1)) out r'
    \<and> runner_inv r' \<and> sampling_synced (mr_batch r')"
  by (rule execute_model_ok [where listed = listed and encode = encode and sample = sample, OF assms]) blast+

definition run_sampler :: sampler where
  "run_sampler i e m g = (map (\<lambda>k. 40 + k) (mi_logits_indices i), g)"

theorem model_step_correct_witness:
  "\<exists>out r'. execute_model run_listed (map (\<lambda>_. [])) run_sampler run_start run_init = Inr (out, r')
    \<and> new_token_ids out ''a'' = Some 42 \<and> new_token_ids out ''b'' = Some 44 \<and> bad_ids out = []
    \<and> runner_inv r' \<and> sampling_synced (mr_batch r')"
proof -
  have sync: "sampling_synced (mr_batch run_init)" and sched: "schedule_ok run_start run_init" by code_simp+
  have upd: "r1 = run_first" if "update_states run_listed run_start run_init = Inr r1" for r1
    using that by (simp add: run_first_def)
  have mm: "\<not> mr_is_multimodal run_first" by code_simp
  obtain meta out r' where o: "execute_model run_listed (map (\<lambda>_. [])) run_sampler run_start run_init = Inr (out, r')"
    "step_result run_start run_first (run_sampler (expected_inputs run_start run_first) [] meta (mr_gens run_first)) out r'"
    "runner_inv r'" "sampling_synced (mr_batch r')"
    using model_step_correct [where listed = run_listed and encode = "map (\<lambda>_. [])" and sample = run_sampler,
        OF run_init_inv sync run_start_ok sched run_listed_ok(1)] upd mm
    by (auto simp: run_sampler_def)
  have ids: "batch_list (mr_batch run_first) = [''a'', ''b'']" "completes run_start run_first ''a''" "completes run_start run_first ''b''"
    "mi_logits_indices (expected_inputs run_start run_first) = [2, 4]"
    by code_simp+
  have "new_token_ids out ''a'' = Some 42" "new_token_ids out ''b'' = Some 44" "bad_ids out = []"
    using o(2) ids by (simp_all add: step_result_def Let_def run_sampler_def All_less_Suc numeral_2_eq_2)
  with o show ?thesis by blast
qed

section \<open>A prompt that fills the model's context\<close>

text \<open>
  The bound on the number of tokens in \<open>schedule_ok\<close> is needed. The processor of new requests admits a
  prompt of \<^verbatim>\<open>max_model_len\<close> tokens, all of which fit the row; the token sampled after the prefill is then
  written behind the end of the row, and the step raises.
\<close>

definition run_full :: scheduler_msg where
  "run_full = \<lparr>msg_new = [run_new ''a'' [1, 2, 3, 4, 5, 6] [0, 1, 2]], msg_resumed = [], msg_running = [],
     msg_num_scheduled = [(''a'', 6)], msg_total = 6, msg_encoder_inputs = [],
     msg_preempted = {}, msg_finished = {}, msg_free_encoder = []\<rparr>"

lemma full_prompt_raises:
  "ib_max_model_len (mr_batch run_init) = 6" "msg_ok run_full run_init"
  "execute_model run_listed (map (\<lambda>_. [])) run_sampler run_full run_init = Inl IndexError"
proof -
  show "ib_max_model_len (mr_batch run_init) = 6" "msg_ok run_full run_init" by code_simp+
  have "map_sum id (\<lambda>_. ()) (execute_model run_listed (map (\<lambda>_. [])) run_sampler run_full run_init) = Inl IndexError"
    by code_simp
  then show "execute_model run_listed (map (\<lambda>_. [])) run_sampler run_full run_init = Inl IndexError"
    by (cases "execute_model run_listed (map (\<lambda>_. [])) run_sampler run_full run_init") simp_all
qed

end
