(* ===== verification/Spec2Isabelle.thy ===== *)
theory Spec2Isabelle
  imports CacheProps SchedulerProps RequestProps EngineProps MapperProps DetokenizerProps
    EvictorProps NaiveProps SamplingProps RunnerProps
begin

text \<open>
  \<^bold>\<open>A verification library for SuperInfer\<close>, a fork of vLLM whose v1 engine swaps KV-cache blocks
  between GPU and CPU, schedules ahead of the running step and preempts proactively. All paths are
  relative to \<^verbatim>\<open>src/vllm/\<close>.

  \<^bold>\<open>The program.\<close> A client's sampling parameters are checked (\<^verbatim>\<open>sampling_params.py\<close>), its prompt is
  processed (\<^verbatim>\<open>v1/engine/processor.py\<close>) and its images are hashed and cached
  (\<^verbatim>\<open>v1/engine/mm_input_mapper.py\<close>, on the LRU cache of \<^verbatim>\<open>utils.py\<close>). The request goes to the engine
  core (\<^verbatim>\<open>v1/engine/core.py\<close>), whose busy loop handles client messages and steps the scheduler
  (\<^verbatim>\<open>v1/core/scheduler.py\<close>): a step lets the executor run the previous schedule while the next one is
  computed. The scheduler keeps requests (\<^verbatim>\<open>v1/request.py\<close>) waiting, running or swapped, and asks the
  KV-cache manager (\<^verbatim>\<open>v1/core/kv_cache_manager.py\<close>, on the blocks, free-block queue and block hashes of
  \<^verbatim>\<open>v1/core/kv_cache_utils.py\<close>) and the encoder cache manager for room. A schedule is executed by the
  model runner (\<^verbatim>\<open>v1/worker/gpu_model_runner.py\<close>), which mirrors the requests in a persistent batch of
  arrays (\<^verbatim>\<open>v1/worker/gpu_input_batch.py\<close>) and prepares the inputs of the network from it. Outputs go
  back to the detokenizer (\<^verbatim>\<open>v1/engine/detokenizer.py\<close>), which turns tokens into text and stops at stop strings.
  The older engine's block allocator (\<^verbatim>\<open>core/block/\<close>, \<^verbatim>\<open>core/evictor.py\<close>) is in the same tree.

  \<^bold>\<open>Conventions\<close> (theory \<^verbatim>\<open>Prelude\<close>). A Python function that may raise is a function into
  \<^verbatim>\<open>result\<close>, \<open>Inl e\<close> for the exception and \<open>Inr x\<close> for the value; methods take and return the state
  they mutate. Python integers are \<^verbatim>\<open>int\<close> (or \<^verbatim>\<open>nat\<close> where the code keeps them non-negative), times and
  floating-point parameters are rationals, dictionaries are maps or insertion-ordered association
  lists, generated text is a list of code points. Objects that are shared and mutated live in an
  explicit store: requests in the scheduler's heap, KV blocks in a block store, block objects in
  their pool.

  \<^bold>\<open>Theories, by component.\<close>
  \<^item> \<^verbatim>\<open>Request\<close>: requests, their status, the look-ahead context manager, \<open>ConstantList\<close>
    (\<^verbatim>\<open>v1/request.py\<close>, \<^verbatim>\<open>v1/utils.py\<close>). Properties in \<^verbatim>\<open>RequestProps\<close> (C20, C21).
  \<^item> \<^verbatim>\<open>KVCacheUtils\<close>: blocks with status and links, the doubly linked free-block queue, block hashes;
    the queue refines a plain list. \<^verbatim>\<open>KVCacheManager\<close>: every method of the manager. \<^verbatim>\<open>KVCacheInv\<close> and
    \<^verbatim>\<open>KVCacheOps\<close>: the invariant \<open>kv_inv\<close> (reference counts equal the uses in block tables, free blocks
    have none, cached blocks carry their hash) and its preservation by allocation, freeing, caching and
    swapping. \<^verbatim>\<open>KVCacheContract\<close>: the manager's contract for its client, as an interface and its
    interpretation. Properties in \<^verbatim>\<open>KVCacheProps\<close> (C10 to C13) and \<^verbatim>\<open>CacheProps\<close> (C14 to C19).
  \<^item> \<^verbatim>\<open>EncoderCache\<close>: the encoder cache manager.
  \<^item> \<^verbatim>\<open>Scheduler\<close>: every method of the scheduler, with its loops and phases as functions;
    \<^verbatim>\<open>SchedulerInv\<close>, \<^verbatim>\<open>SchedulerOps\<close>: the invariant of queues, request table and cache, through each
    phase; \<^verbatim>\<open>SchedulerMachine\<close>: the scheduler as a step relation. Properties in \<^verbatim>\<open>SchedulerProps\<close> (C1 to
    C9), on the example runs of \<^verbatim>\<open>Examples\<close>.
  \<^item> \<^verbatim>\<open>EngineCore\<close>, \<^verbatim>\<open>EngineInv\<close>, \<^verbatim>\<open>EngineProps\<close> (C23 to C25): the engine core, its pipelined step, the
    busy loop and the messages of its two socket threads.
  \<^item> \<^verbatim>\<open>LRUCache\<close>, \<^verbatim>\<open>MMInputMapper\<close>, \<^verbatim>\<open>MapperProps\<close> (C26): the LRU cache and the mirrored caches of
    multi-modal inputs.
  \<^item> \<^verbatim>\<open>Detokenizer\<close>, \<^verbatim>\<open>DetokenizerInv\<close>, \<^verbatim>\<open>DetokenizerProps\<close> (C29 to C32): incremental decoding, stop
    strings, output kinds, and the detokenizer of all requests.
  \<^item> \<^verbatim>\<open>Evictor\<close>, \<^verbatim>\<open>EvictorProps\<close> (C33, C34): the LRU evictor, its contract as the locale \<open>block_evictor\<close>.
  \<^item> \<^verbatim>\<open>BlockCommon\<close>, \<^verbatim>\<open>NaiveAllocator\<close>, \<^verbatim>\<open>NaiveInv\<close>, \<^verbatim>\<open>NaiveOps\<close>, \<^verbatim>\<open>NaiveProps\<close> (C35 to C37): reference
    counters, block pool, copy-on-write, the naive block allocator, block lists and the cache metric.
  \<^item> \<^verbatim>\<open>InputBatch\<close>: every method of the persistent batch, with host and device copies. \<^verbatim>\<open>BatchInv\<close> and
    \<^verbatim>\<open>BatchOps\<close>: its invariant \<open>batch_ok\<close> (rows and index agree, the sets beside the arrays name exactly the
    requests they concern) and the view \<open>batch_view\<close> of each request's data, through adding, removing and
    condensing. \<^verbatim>\<open>ModelRunner\<close>: the step of the runner, phase by phase. \<^verbatim>\<open>RowTable\<close>: the batch as a table
    with holes for the loops that refill it, the locale \<open>row_table\<close> interpreted on the batch. \<^verbatim>\<open>RunnerInv\<close>,
    \<^verbatim>\<open>RunnerSteps\<close>, \<^verbatim>\<open>RunnerSampling\<close>, \<^verbatim>\<open>RunnerEncoder\<close>, \<^verbatim>\<open>RunnerTokens\<close>: the runner's invariant and each
    phase of a step. Properties in \<^verbatim>\<open>RunnerProps\<close> (C22, C27, C28, C38).
  \<^item> \<^verbatim>\<open>SamplingParams\<close>, \<^verbatim>\<open>SamplingProps\<close> (C39, C40): the checks of sampling parameters, and what they
    give the detokenizer.

  \<^bold>\<open>What the lemmas show.\<close> For the scheduler: its invariant holds in every reachable state, a step
  loses and duplicates no request and no block, its own assertions hold, finishing and aborting never
  fail. For the KV cache: accounting of the pool, capacity of what is allocated, soundness of prefix
  hits and block hashes, the swap round trip. For the engine core: a step never waits for a result
  nobody computes, and what runs is always the previous schedule. For the model runner: its update
  refines an abstract update of the set of requests, the vectorised inputs are those of the scheduled
  tokens, and each sampled token reaches the request it was sampled for. For the detokenizer: text once
  streamed is never taken back, and incremental decoding agrees with decoding at once. For the
  allocators: reference counts are exact, shared blocks are never written, eviction is least recently
  used. Some theorems (C18, C19) and lemmas record behaviour that looks unintended.

  \<^bold>\<open>Parameters.\<close> Code outside the repository is an argument with named hypotheses: the tuple hash
  (injective where soundness needs it), the tokenizer (stable decoding), the multi-modal mapper and
  its digest, the clock, the multi-modal encoder (one output per input), the network with its sampler
  (one token per row of logits; seeds of generators are kept), the contents of uninitialised tensors,
  the order in which a set is listed. The schedules the runner receives are assumed to fit it
  (\<open>msg_ok\<close>, \<open>schedule_ok\<close>): the two sides are not composed into one theorem, since the scheduler's model
  keeps only the sampling parameters it reads.

  \<^bold>\<open>Bounds and fuel.\<close> Loops are structural or have a termination proof. Fuel is used where the code
  follows links: the walk of the free-block queue has one unit per block and the chain of previous
  blocks one per pool object, which is enough on linked structures without cycles, as the
  corresponding lemmas show; the engine's blocking queue reads are \<open>None\<close> when nobody will answer.

  \<^bold>\<open>Not modelled\<close>, because it is I/O, device or tensor code, or glue: sockets and processes of the
  clients, executors and workers, loading and profiling of models, CUDA graphs, sampler, attention,
  models, kernels, API servers, configuration parsing, tokenizers and image processors. Of the older
  engine only the evictor and the naive block allocator are modelled; its scheduler, block manager
  and prefix-caching allocator are not. Logging, metrics and profiling hooks are left out throughout.
\<close>

end
